(* ===== verification/Prelude.thy ===== *)
theory Prelude
  imports Main "HOL-Library.AList" "HOL-Library.Code_Target_Nat"
begin

text \<open>
  Generic material shared by every component: Go errors and their chains
  (\<^verbatim>\<open>errors.Is\<close>, \<^verbatim>\<open>%w\<close>), the outcome of a call that may panic or block, a small
  state-and-error monad in which the Go functions are written, and its rules for
  preservation proofs.
\<close>

section \<open>Errors\<close>

text \<open>
  An error is kept as a value, not as its rendered text. \<open>ErrNotFound\<close> is the
  sentinel of the supervisor, \<open>EOF\<close> is \<^verbatim>\<open>io.EOF\<close>, \<open>ErrEOFJobDone\<close> the
  sentinel of the log reader (which wraps \<^verbatim>\<open>io.EOF\<close>), \<open>Errorf\<close> an error with
  a fixed message, \<open>ErrorfQ\<close> one whose message quotes a string, \<open>Wrapf\<close> the
  \<^verbatim>\<open>%w\<close> form and \<open>OsErr\<close> what a call of the operating system returned.
\<close>

datatype go_error =
    ErrNotFound
  | EOF
  | ErrEOFJobDone
  | Errorf string
  | ErrorfQ string string
  | Wrapf string go_error
  | OsErr string

fun errors_Is :: "go_error \<Rightarrow> go_error \<Rightarrow> bool" where
  "errors_Is (Wrapf m e) t \<longleftrightarrow> Wrapf m e = t \<or> errors_Is e t"
| "errors_Is ErrEOFJobDone t \<longleftrightarrow> t = ErrEOFJobDone \<or> t = EOF"
| "errors_Is e t \<longleftrightarrow> e = t"

text \<open>\<^verbatim>\<open>err.Error()\<close>, without the escapes of \<^verbatim>\<open>%q\<close>.\<close>

fun error_text :: "go_error \<Rightarrow> string" where
  "error_text ErrNotFound = ''job not found''"
| "error_text EOF = ''EOF''"
| "error_text ErrEOFJobDone = ''end of output : EOF''"
| "error_text (Errorf m) = m"
| "error_text (ErrorfQ m q) = m @ [CHR 0x22] @ q @ [CHR 0x22]"
| "error_text (Wrapf m e) = m @ '': '' @ error_text e"
| "error_text (OsErr m) = m"

lemma errors_Is_refl [simp]: "errors_Is e e"
  by (cases e) auto

lemma errors_Is_OsErr [simp]: "errors_Is (OsErr m) ErrNotFound \<longleftrightarrow> False"
  by simp

section \<open>Outcomes\<close>

text \<open>
  A Go call returns, panics, or does not return in the present state because it waits
  (on a wait group, on a channel) for something another goroutine has to do.
\<close>

datatype 'a outcome = Ret 'a | Panic string | Block

fun returns :: "'a outcome \<Rightarrow> bool" where
  "returns (Ret x) \<longleftrightarrow> True"
| "returns _ \<longleftrightarrow> False"

fun panics :: "'a outcome \<Rightarrow> bool" where
  "panics (Panic m) \<longleftrightarrow> True"
| "panics _ \<longleftrightarrow> False"

section \<open>State and errors\<close>

text \<open>
  A function with the Go signature \<^verbatim>\<open>func (...) (T, error)\<close> that changes a state
  \<open>'s\<close>. Unlike an exception, an error keeps every change made before it.
\<close>

type_synonym ('s, 'a) sm = "'s \<Rightarrow> (go_error + 'a) \<times> 's"

definition sm_ret :: "'a \<Rightarrow> ('s, 'a) sm" where
  "sm_ret x s = (Inr x, s)"

definition sm_err :: "go_error \<Rightarrow> ('s, 'a) sm" where
  "sm_err e s = (Inl e, s)"

definition sm_bind :: "('s, 'a) sm \<Rightarrow> ('a \<Rightarrow> ('s, 'b) sm) \<Rightarrow> ('s, 'b) sm" where
  "sm_bind m f s = (case m s of (Inl e, s') \<Rightarrow> (Inl e, s') | (Inr x, s') \<Rightarrow> f x s')"

definition sm_then :: "('s, 'a) sm \<Rightarrow> ('s, 'b) sm \<Rightarrow> ('s, 'b) sm" where
  "sm_then m n = sm_bind m (\<lambda>_. n)"

text \<open>\<^verbatim>\<open>if err := m(); err != nil { return fmt.Errorf("msg: %w", err) }\<close>\<close>

definition sm_wrap :: "string \<Rightarrow> ('s, 'a) sm \<Rightarrow> ('s, 'a) sm" where
  "sm_wrap msg m s = (case m s of (Inl e, s') \<Rightarrow> (Inl (Wrapf msg e), s') | r \<Rightarrow> r)"

text \<open>\<^verbatim>\<open>_ = m()\<close>: the error is dropped.\<close>

definition sm_try :: "('s, 'a) sm \<Rightarrow> ('s, unit) sm" where
  "sm_try m s = (Inr (), snd (m s))"

definition sm_upd :: "('s \<Rightarrow> 's) \<Rightarrow> ('s, unit) sm" where
  "sm_upd f s = (Inr (), f s)"

definition sm_gets :: "('s \<Rightarrow> ('s, 'a) sm) \<Rightarrow> ('s, 'a) sm" where
  "sm_gets f s = f s s"

text \<open>\<open>sm_onerr m h\<close> runs the deferred \<open>h\<close> when \<open>m\<close> returns an error, and returns that error.\<close>

definition sm_onerr :: "('s, 'a) sm \<Rightarrow> ('s, unit) sm \<Rightarrow> ('s, 'a) sm" where
  "sm_onerr m h s = (case m s of (Inl e, s') \<Rightarrow> (Inl e, snd (h s')) | r \<Rightarrow> r)"

text \<open>\<open>sm_finally m h\<close> runs the deferred \<open>h\<close> on every return.\<close>

definition sm_finally :: "('s, 'a) sm \<Rightarrow> ('s, unit) sm \<Rightarrow> ('s, 'a) sm" where
  "sm_finally m h s = (case m s of (r, s') \<Rightarrow> (r, snd (h s')))"

fun sm_mapM :: "('b \<Rightarrow> ('s, unit) sm) \<Rightarrow> 'b list \<Rightarrow> ('s, unit) sm" where
  "sm_mapM f [] = sm_ret ()"
| "sm_mapM f (x # xs) = sm_then (f x) (sm_mapM f xs)"

lemmas sm_defs = sm_ret_def sm_err_def sm_bind_def sm_then_def sm_wrap_def sm_try_def
  sm_upd_def sm_gets_def sm_onerr_def sm_finally_def

subsection \<open>Preservation\<close>

text \<open>
  \<open>sm_pres P m\<close>: the call keeps \<open>P\<close>, whatever it returns. The rules below are
  collected in \<open>sm_pres\<close>, so that a preservation proof follows the text of a function.
\<close>

definition sm_pres :: "('s \<Rightarrow> bool) \<Rightarrow> ('s, 'a) sm \<Rightarrow> bool" where
  "sm_pres P m \<longleftrightarrow> (\<forall>s. P s \<longrightarrow> P (snd (m s)))"

named_theorems pres "rules that a call of the state-and-error monad keeps a predicate"

lemma sm_presD: "sm_pres P m \<Longrightarrow> P s \<Longrightarrow> P (snd (m s))"
  by (simp add: sm_pres_def)

lemma sm_presI: "(\<And>s. P s \<Longrightarrow> P (snd (m s))) \<Longrightarrow> sm_pres P m"
  by (simp add: sm_pres_def)

lemma sm_pres_ret [pres]: "sm_pres P (sm_ret x)"
  by (simp add: sm_pres_def sm_ret_def)

lemma sm_pres_err [pres]: "sm_pres P (sm_err e)"
  by (simp add: sm_pres_def sm_err_def)

lemma sm_pres_bind [pres]:
  assumes "sm_pres P m" and "\<And>x. sm_pres P (f x)"
  shows "sm_pres P (sm_bind m f)"
proof (rule sm_presI)
  fix s assume "P s"
  with assms(1) have "P (snd (m s))" by (rule sm_presD)
  with assms(2) show "P (snd (sm_bind m f s))"
    by (auto simp: sm_bind_def sm_pres_def split: prod.splits sum.splits)
qed

lemma sm_pres_then [pres]: "sm_pres P m \<Longrightarrow> sm_pres P n \<Longrightarrow> sm_pres P (sm_then m n)"
  by (simp add: sm_then_def sm_pres_bind)

lemma sm_pres_wrap [pres]: "sm_pres P m \<Longrightarrow> sm_pres P (sm_wrap msg m)"
  by (auto simp: sm_pres_def sm_wrap_def split: prod.splits sum.splits)

lemma sm_pres_try [pres]: "sm_pres P m \<Longrightarrow> sm_pres P (sm_try m)"
  by (simp add: sm_pres_def sm_try_def)

lemma sm_pres_upd [pres]: "(\<And>s. P s \<Longrightarrow> P (f s)) \<Longrightarrow> sm_pres P (sm_upd f)"
  by (simp add: sm_pres_def sm_upd_def)

lemma sm_pres_gets [pres]: "(\<And>s. sm_pres P (f s)) \<Longrightarrow> sm_pres P (sm_gets f)"
  by (simp add: sm_pres_def sm_gets_def)

lemma sm_pres_onerr [pres]: "sm_pres P m \<Longrightarrow> sm_pres P h \<Longrightarrow> sm_pres P (sm_onerr m h)"
  by (auto simp: sm_pres_def sm_onerr_def split: prod.splits sum.splits)

lemma sm_pres_finally [pres]: "sm_pres P m \<Longrightarrow> sm_pres P h \<Longrightarrow> sm_pres P (sm_finally m h)"
  by (auto simp: sm_pres_def sm_finally_def split: prod.splits)

lemma sm_pres_mapM [pres]: "(\<And>x. sm_pres P (f x)) \<Longrightarrow> sm_pres P (sm_mapM f xs)"
  by (induction xs) (auto intro: pres)

lemma sm_pres_if [pres]: "sm_pres P m \<Longrightarrow> sm_pres P n \<Longrightarrow> sm_pres P (if b then m else n)"
  by simp

section \<open>Association lists\<close>

text \<open>
  A Go map that is iterated over is an association list with distinct keys.
  \<open>distinct_keys\<close> is its invariant.
\<close>

definition distinct_keys :: "('k \<times> 'v) list \<Rightarrow> bool" where
  "distinct_keys m \<longleftrightarrow> distinct (List.map fst m)"

lemma distinct_keys_Nil [simp]: "distinct_keys []"
  by (simp add: distinct_keys_def)

lemma distinct_keys_update [simp]: "distinct_keys m \<Longrightarrow> distinct_keys (AList.update k v m)"
  by (simp add: distinct_keys_def distinct_update)

lemma distinct_keys_delete [simp]: "distinct_keys m \<Longrightarrow> distinct_keys (AList.delete k m)"
  by (simp add: distinct_keys_def distinct_delete)

lemma map_of_AList_update [simp]: "map_of (AList.update k v m) = (map_of m)(k \<mapsto> v)"
  by (rule update_conv')

lemma map_of_AList_delete [simp]: "map_of (AList.delete k m) = (map_of m)(k := None)"
  by (rule delete_conv')

text \<open>A list whose elements differ under \<open>f\<close>, such as calls with their own identifiers.\<close>

lemma distinct_map_remove1:
  "distinct (List.map f xs) \<Longrightarrow> x \<in> set xs \<Longrightarrow>
     distinct (List.map f (remove1 x xs)) \<and> f x \<notin> f ` set (remove1 x xs)"
proof (induction xs)
  case (Cons a xs)
  then show ?case using set_remove1_subset[of x xs] by (cases "a = x") (auto simp: image_iff)
qed simp

end
