(* ===== verification/Go_Strings.thy ===== *)
theory Go_Strings
  imports Prelude
begin

text \<open>
  The fragments of the Go standard library that work on strings and that the program
  uses: decimal printing and parsing (\<^verbatim>\<open>strconv\<close>, \<^verbatim>\<open>%d\<close>), trimming, fields and joining
  (\<^verbatim>\<open>strings\<close>), line scanning (\<^verbatim>\<open>bufio.Scanner\<close>). A Go string is a list of bytes; white
  space is the ASCII white space (the user names the program trims are DNS names of
  X.509 certificates, which are IA5 strings).
\<close>

section \<open>White space\<close>

definition is_space :: "char \<Rightarrow> bool" where
  "is_space c \<longleftrightarrow> c \<in> set [CHR '' '', CHR 0x09, CHR 0x0A, CHR 0x0B, CHR 0x0C, CHR 0x0D]"

definition trim_left :: "string \<Rightarrow> string" where
  "trim_left s = dropWhile is_space s"

definition trim_space :: "string \<Rightarrow> string" where
  "trim_space s = rev (trim_left (rev (trim_left s)))"

definition no_space :: "string \<Rightarrow> bool" where
  "no_space s \<longleftrightarrow> list_all (\<lambda>c. \<not> is_space c) s"

lemma dropWhile_none: "(\<And>c. c \<in> set s \<Longrightarrow> \<not> P c) \<Longrightarrow> dropWhile P s = s"
  by (cases s) auto

lemma trim_left_no_space: "no_space s \<Longrightarrow> trim_left s = s"
  unfolding trim_left_def no_space_def by (rule dropWhile_none) (auto simp: list_all_iff)

lemma no_space_rev [simp]: "no_space (rev s) = no_space s"
  by (simp add: no_space_def)

lemma trim_space_no_space [simp]: "no_space s \<Longrightarrow> trim_space s = s"
  by (simp add: trim_space_def trim_left_no_space)

lemma trim_space_Nil [simp]: "trim_space [] = []"
  by (simp add: trim_space_def trim_left_def)

lemma dropWhile_hd: "dropWhile P s \<noteq> [] \<Longrightarrow> \<not> P (hd (dropWhile P s))"
  by (rule hd_dropWhile)

lemma trim_left_idem [simp]: "trim_left (trim_left s) = trim_left s"
  by (simp add: trim_left_def)

lemma trim_space_ends:
  assumes "trim_space s \<noteq> []"
  shows "\<not> is_space (hd (trim_space s))" and "\<not> is_space (last (trim_space s))"
proof -
  let ?t = "trim_left s"
  have ne: "trim_left (rev ?t) \<noteq> []"
    using assms by (simp add: trim_space_def)
  then show "\<not> is_space (last (trim_space s))"
    by (simp add: trim_space_def last_rev trim_left_def dropWhile_hd)
  obtain xs where xs: "rev ?t = xs @ trim_left (rev ?t)"
    by (metis takeWhile_dropWhile_id trim_left_def)
  then have "?t = rev (trim_left (rev ?t)) @ rev xs"
    by (metis rev_append rev_rev_ident)
  then have "hd ?t = hd (trim_space s)" "?t \<noteq> []"
    using ne by (metis hd_append2 rev_is_Nil_conv trim_space_def, auto)
  then show "\<not> is_space (hd (trim_space s))"
    using dropWhile_hd[of is_space s] by (simp add: trim_left_def)
qed

lemma trim_left_id: "s = [] \<or> \<not> is_space (hd s) \<Longrightarrow> trim_left s = s"
  by (cases s) (auto simp: trim_left_def)

lemma trim_space_idem [simp]: "trim_space (trim_space s) = trim_space s"
proof (cases "trim_space s = []")
  case False
  from trim_space_ends[OF this] False show ?thesis
    by (subst trim_space_def) (simp add: trim_left_id hd_rev)
qed simp

section \<open>Fields, joining, lines\<close>

function strings_Fields :: "string \<Rightarrow> string list" where
  "strings_Fields s =
     (let t = trim_left s in
      if t = [] then []
      else takeWhile (\<lambda>c. \<not> is_space c) t # strings_Fields (dropWhile (\<lambda>c. \<not> is_space c) t))"
  by pat_completeness auto
termination
proof (relation "measure length")
  fix s t :: string
  assume t: "t = trim_left s" and ne: "t \<noteq> []"
  from ne have hd: "\<not> is_space (hd t)"
    using dropWhile_hd[of is_space s] by (simp add: t trim_left_def)
  obtain c cs where tc: "t = c # cs" using ne by (cases t) auto
  with hd have c: "t = c # cs" "\<not> is_space c" by simp_all
  have "length (dropWhile (\<lambda>c. \<not> is_space c) t) \<le> length cs"
    using c by (simp add: length_dropWhile_le)
  also have "\<dots> < length t" using c by simp
  also have "\<dots> \<le> length s" using t by (simp add: trim_left_def length_dropWhile_le)
  finally show "(dropWhile (\<lambda>c. \<not> is_space c) t, s) \<in> measure length" by simp
qed auto

declare strings_Fields.simps [simp del]

lemma Fields_Nil [simp]: "strings_Fields [] = []"
  by (simp add: strings_Fields.simps trim_left_def)

lemma Fields_space [simp]: "is_space c \<Longrightarrow> strings_Fields (c # s) = strings_Fields s"
  by (subst (1 2) strings_Fields.simps) (simp add: trim_left_def)

lemma Fields_word:
  assumes "w \<noteq> []" and "no_space w" and "s = [] \<or> is_space (hd s)"
  shows "strings_Fields (w @ s) = w # strings_Fields s"
proof -
  have w: "\<forall>c\<in>set w. \<not> is_space c" using assms(2) by (simp add: no_space_def list_all_iff)
  have t: "trim_left (w @ s) = w @ s"
    using assms(1) w by (cases w) (auto simp: trim_left_def)
  have tw: "takeWhile (\<lambda>c. \<not> is_space c) (w @ s) = w"
    using w assms(3) by (cases s) (auto simp: takeWhile_append2)
  have dw: "dropWhile (\<lambda>c. \<not> is_space c) (w @ s) = s"
    using w assms(3) by (cases s) (auto simp: dropWhile_append2)
  show ?thesis
    using assms(1) by (subst strings_Fields.simps) (simp add: t tw dw Let_def)
qed

fun strings_Join :: "string list \<Rightarrow> string \<Rightarrow> string" where
  "strings_Join [] sep = []"
| "strings_Join [x] sep = x"
| "strings_Join (x # y # xs) sep = x @ sep @ strings_Join (y # xs) sep"

lemma strings_Join_Cons: "strings_Join (x # xs) sep = x @ concat (List.map (\<lambda>y. sep @ y) xs)"
  by (induction xs arbitrary: x) auto

lemma Fields_Join:
  assumes "list_all (\<lambda>w. w \<noteq> [] \<and> no_space w) ws"
  shows "strings_Fields (strings_Join ws '' '') = ws"
  using assms
proof (induction ws "'' ''" rule: strings_Join.induct)
  case (2 x)
  then show ?case using Fields_word[of x "[]"] by simp
next
  case (3 x y xs)
  have sp: "is_space CHR '' ''" by (simp add: is_space_def)
  have "strings_Fields (strings_Join (x # y # xs) '' '') = x # strings_Fields ('' '' @ strings_Join (y # xs) '' '')"
    using 3 sp by (simp only: strings_Join.simps, subst Fields_word) auto
  also have "\<dots> = x # y # xs"
    using 3 sp by simp
  finally show ?case .
qed simp

text \<open>
  \<^verbatim>\<open>bufio.Scanner\<close> with its default split function: lines without their end-of-line, an
  empty last line is not reported, and a line of \<open>max_scan_token\<close> bytes or more stops the
  scan with an error (\<open>True\<close> in the second component).
\<close>

definition newline :: char where
  "newline = CHR 0x0A"

definition max_scan_token :: nat where
  "max_scan_token = 65536"

definition drop_cr :: "string \<Rightarrow> string" where
  "drop_cr l = (if l \<noteq> [] \<and> last l = CHR 0x0D then butlast l else l)"

function scan_lines :: "string \<Rightarrow> string list \<times> bool" where
  "scan_lines s =
     (if s = [] then ([], False)
      else let l = takeWhile (\<lambda>c. c \<noteq> newline) s in
        if max_scan_token \<le> length l then ([], True)
        else (case scan_lines (drop (Suc (length l)) s) of (ls, e) \<Rightarrow> (drop_cr l # ls, e)))"
  by pat_completeness auto
termination
  by (relation "measure length") auto

declare scan_lines.simps [simp del]

lemma scan_lines_Nil [simp]: "scan_lines [] = ([], False)"
  by (simp add: scan_lines.simps)

lemma scan_lines_line:
  assumes "newline \<notin> set l" and "length l < max_scan_token"
  shows "scan_lines (l @ newline # s) = (case scan_lines s of (ls, e) \<Rightarrow> (drop_cr l # ls, e))"
proof -
  have "takeWhile (\<lambda>c. c \<noteq> newline) (l @ newline # s) = l"
    using assms(1) by (auto simp: takeWhile_append)
  with assms(2) show ?thesis
    by (subst scan_lines.simps) (simp add: Let_def)
qed

definition unlines :: "string list \<Rightarrow> string" where
  "unlines ls = concat (List.map (\<lambda>l. l @ [newline]) ls)"

definition scannable :: "string \<Rightarrow> bool" where
  "scannable l \<longleftrightarrow> newline \<notin> set l \<and> length l < max_scan_token \<and> drop_cr l = l"

lemma scan_unlines: "list_all scannable ls \<Longrightarrow> scan_lines (unlines ls) = (ls, False)"
proof (induction ls)
  case (Cons l ls)
  have eq: "unlines (l # ls) = l @ newline # unlines ls" by (simp add: unlines_def)
  from Cons show ?case
    unfolding eq by (subst scan_lines_line) (auto simp: scannable_def)
qed (simp add: unlines_def)

section \<open>Decimal numbers\<close>

definition digit_char :: "nat \<Rightarrow> char" where
  "digit_char d = char_of (48 + d)"

definition digit_val :: "char \<Rightarrow> nat option" where
  "digit_val c = (let n = of_char c :: nat in if 48 \<le> n \<and> n \<le> 57 then Some (n - 48) else None)"

lemma digit_val_char [simp]: "d < 10 \<Longrightarrow> digit_val (digit_char d) = Some d"
  by (simp add: digit_val_def digit_char_def of_char_of Let_def)

fun nat_dec :: "nat \<Rightarrow> string" where
  "nat_dec n = (if n < 10 then [digit_char n] else nat_dec (n div 10) @ [digit_char (n mod 10)])"

declare nat_dec.simps [simp del]

lemma digit_char_eval:
  "digit_char 0 = CHR ''0''" "digit_char (Suc 0) = CHR ''1''" "digit_char 1 = CHR ''1''"
  "digit_char 2 = CHR ''2''" "digit_char 3 = CHR ''3''" "digit_char 4 = CHR ''4''"
  "digit_char 5 = CHR ''5''" "digit_char 6 = CHR ''6''" "digit_char 7 = CHR ''7''"
  "digit_char 8 = CHR ''8''" "digit_char 9 = CHR ''9''"
  by code_simp+

lemma nat_dec_eval:
  "nat_dec 0 = [digit_char 0]" "nat_dec (Suc 0) = [digit_char 1]"
  "nat_dec (numeral v) =
     (if numeral v < (10 :: nat) then [digit_char (numeral v)]
      else nat_dec (numeral v div 10) @ [digit_char (numeral v mod 10)])"
  by (simp_all add: nat_dec.simps[of 0] nat_dec.simps[of "Suc 0"] nat_dec.simps[of "numeral v"])

definition int_dec :: "int \<Rightarrow> string" where
  "int_dec i = (if i < 0 then ''-'' @ nat_dec (nat (- i)) else nat_dec (nat i))"

fun dec_val :: "nat \<Rightarrow> string \<Rightarrow> nat option" where
  "dec_val acc [] = Some acc"
| "dec_val acc (c # cs) =
     (case digit_val c of None \<Rightarrow> None | Some d \<Rightarrow> dec_val (10 * acc + d) cs)"

lemma dec_val_append:
  "dec_val acc (xs @ ys) = (case dec_val acc xs of None \<Rightarrow> None | Some a \<Rightarrow> dec_val a ys)"
  by (induction acc xs rule: dec_val.induct) (auto split: option.splits)

lemma nat_dec_nonempty [simp]: "nat_dec n \<noteq> []"
  by (subst nat_dec.simps) simp

lemma dec_val_nat_dec: "dec_val 0 (nat_dec n) = Some n"
proof (induction n rule: nat_dec.induct)
  case (1 n)
  show ?case
  proof (cases "n < 10")
    case True
    then show ?thesis by (simp add: nat_dec.simps[of n])
  next
    case False
    with 1 show ?thesis
      by (simp add: nat_dec.simps[of n] dec_val_append)
  qed
qed

lemma hd_nat_dec: "\<exists>d. d < 10 \<and> hd (nat_dec n) = digit_char d"
proof (induction n rule: nat_dec.induct)
  case (1 n)
  then show ?case
    by (cases "n < 10") (auto simp: nat_dec.simps[of n] hd_append)
qed

lemma digit_val_sign [simp]: "digit_val CHR ''-'' = None" "digit_val CHR ''+'' = None"
  by (simp_all add: digit_val_def)

lemma digit_char_not_sign [simp]:
  "d < 10 \<Longrightarrow> digit_char d \<noteq> CHR ''-''" "d < 10 \<Longrightarrow> digit_char d \<noteq> CHR ''+''"
  using digit_val_char[of d] digit_val_sign by (metis option.distinct(1))+

text \<open>
  \<^verbatim>\<open>strconv.Atoi\<close>: an optional sign, at least one decimal digit and nothing else, and a
  value that fits the 64-bit \<^verbatim>\<open>int\<close>.
\<close>

definition int64 :: "int \<Rightarrow> bool" where
  "int64 i \<longleftrightarrow> - (2 ^ 63) \<le> i \<and> i < 2 ^ 63"

definition signed :: "bool \<Rightarrow> nat \<Rightarrow> int option" where
  "signed neg n = (let i = (if neg then - int n else int n) in if int64 i then Some i else None)"

definition atoi_digits :: "bool \<Rightarrow> string \<Rightarrow> int option" where
  "atoi_digits neg ds =
     (if ds = [] then None
      else (case dec_val 0 ds of None \<Rightarrow> None | Some n \<Rightarrow> signed neg n))"

definition atoi :: "string \<Rightarrow> int option" where
  "atoi s =
     (case s of
        [] \<Rightarrow> None
      | c # cs \<Rightarrow>
          if c = CHR ''-'' then atoi_digits True cs
          else if c = CHR ''+'' then atoi_digits False cs
          else atoi_digits False s)"

lemma atoi_digits_nat_dec [simp]: "atoi_digits neg (nat_dec n) = signed neg n"
  by (simp add: atoi_digits_def dec_val_nat_dec)

lemma atoi_nat_dec: "atoi (nat_dec n) = signed False n"
proof -
  obtain d where d: "d < 10" "hd (nat_dec n) = digit_char d"
    using hd_nat_dec by blast
  obtain c cs where c: "nat_dec n = c # cs"
    using nat_dec_nonempty by (meson neq_Nil_conv)
  have "c \<noteq> CHR ''-''" "c \<noteq> CHR ''+''" using c d by simp_all
  then have "atoi (nat_dec n) = atoi_digits False (nat_dec n)"
    by (simp add: atoi_def c)
  then show ?thesis by simp
qed

lemma atoi_int_dec: "int64 i \<Longrightarrow> atoi (int_dec i) = Some i"
proof (cases "i < 0")
  case True
  assume "int64 i"
  with True show ?thesis by (simp add: int_dec_def atoi_def signed_def)
next
  case False
  assume "int64 i"
  with False show ?thesis by (simp add: int_dec_def atoi_nat_dec signed_def)
qed

lemma atoi_int64: "atoi s = Some i \<Longrightarrow> int64 i"
  by (auto simp: atoi_def atoi_digits_def signed_def Let_def
      split: list.splits if_splits option.splits)

lemma int_dec_inject: "int_dec i = int_dec j \<Longrightarrow> i = j"
proof -
  assume eq: "int_dec i = int_dec j"
  have h: "\<And>n. hd (nat_dec n) \<noteq> CHR ''-''"
    using hd_nat_dec digit_char_not_sign(1) by metis
  have inj: "nat_dec m = nat_dec n \<Longrightarrow> m = n" for m n
    using dec_val_nat_dec by (metis option.inject)
  show "i = j"
  proof (cases "i < 0")
    case True
    have "j < 0"
    proof (rule ccontr)
      assume "\<not> j < 0"
      with eq True have "nat_dec (nat j) = CHR ''-'' # nat_dec (nat (- i))"
        by (simp add: int_dec_def)
      with h[of "nat j"] show False by simp
    qed
    with True eq have "nat (- i) = nat (- j)" by (auto simp: int_dec_def dest: inj)
    with True \<open>j < 0\<close> show ?thesis by simp
  next
    case False
    have "\<not> j < 0"
    proof
      assume "j < 0"
      with eq False have "hd (nat_dec (nat i)) = CHR ''-''" by (simp add: int_dec_def)
      with h show False by blast
    qed
    with False eq have "nat i = nat j" by (auto simp: int_dec_def dest: inj)
    with False \<open>\<not> j < 0\<close> show ?thesis by simp
  qed
qed

end
