(* ===== verification/Go_Path.thy ===== *)
theory Go_Path
  imports Go_Strings
begin

text \<open>
  \<^verbatim>\<open>path/filepath\<close> on Unix: lexical cleaning and joining of paths, with the facts the
  directory layout of a job rests on.
\<close>

definition slash :: char where
  "slash = CHR ''/''"

fun split_slash :: "string \<Rightarrow> string list" where
  "split_slash [] = [[]]"
| "split_slash (c # cs) =
     (if c = slash then [] # split_slash cs
      else (case split_slash cs of [] \<Rightarrow> [[c]] | w # ws \<Rightarrow> (c # w) # ws))"

definition clean_step :: "bool \<Rightarrow> string list \<Rightarrow> string \<Rightarrow> string list" where
  "clean_step rooted st w =
     (if w = [] \<or> w = ''.'' then st
      else if w = ''..'' then
        (case st of
           [] \<Rightarrow> if rooted then [] else [w]
         | t # ts \<Rightarrow> if t = ''..'' then w # st else ts)
      else w # st)"

definition path_clean :: "string \<Rightarrow> string" where
  "path_clean p =
     (if p = [] then ''.''
      else let rooted = (hd p = slash);
               body = strings_Join (rev (foldl (clean_step rooted) [] (split_slash p))) [slash]
           in if rooted then slash # body else if body = [] then ''.'' else body)"

definition path_Join :: "string list \<Rightarrow> string" where
  "path_Join es =
     (case dropWhile (\<lambda>e. e = []) es of [] \<Rightarrow> [] | fs \<Rightarrow> path_clean (strings_Join fs [slash]))"

section \<open>Absolute paths\<close>

definition plain_comp :: "string \<Rightarrow> bool" where
  "plain_comp w \<longleftrightarrow> w \<noteq> [] \<and> w \<noteq> ''.'' \<and> w \<noteq> ''..'' \<and> slash \<notin> set w"

definition abs_path :: "string list \<Rightarrow> string" where
  "abs_path ws = concat (List.map (\<lambda>w. slash # w) ws)"

lemma abs_path_Nil [simp]: "abs_path [] = []"
  by (simp add: abs_path_def)

lemma abs_path_Cons [simp]: "abs_path (w # ws) = slash # w @ abs_path ws"
  by (simp add: abs_path_def)

lemma abs_path_append [simp]: "abs_path (us @ ws) = abs_path us @ abs_path ws"
  by (simp add: abs_path_def)

lemma split_slash_nonempty [simp]: "split_slash s \<noteq> []"
  by (induction s) (auto split: list.splits)

lemma split_slash_word: "slash \<notin> set w \<Longrightarrow> split_slash w = [w]"
  by (induction w) auto

lemma split_slash_append: "slash \<notin> set w \<Longrightarrow> split_slash (w @ slash # s) = w # split_slash s"
  by (induction w) auto

lemma split_word_abs:
  assumes "slash \<notin> set w" and "list_all plain_comp ws"
  shows "split_slash (w @ abs_path ws) = w # ws"
  using assms
proof (induction ws arbitrary: w)
  case Nil
  then show ?case by (simp add: split_slash_word)
next
  case (Cons v vs)
  then have "slash \<notin> set v" by (simp add: plain_comp_def)
  with Cons show ?case by (simp add: split_slash_append)
qed

lemma split_abs_path: "list_all plain_comp ws \<Longrightarrow> split_slash (abs_path ws) = [] # ws"
  using split_word_abs[of "[]" ws] by simp

lemma clean_plain:
  "list_all plain_comp ws \<Longrightarrow> foldl (clean_step r) st ws = rev ws @ st"
  by (induction ws arbitrary: st) (auto simp: clean_step_def plain_comp_def)

lemma slash_Join: "ws \<noteq> [] \<Longrightarrow> slash # strings_Join ws [slash] = abs_path ws"
  by (cases ws) (simp_all add: strings_Join_Cons abs_path_def)

lemma path_clean_abs:
  assumes "list_all plain_comp ws" and "ws \<noteq> []"
  shows "path_clean (abs_path ws) = abs_path ws"
proof -
  obtain v vs where ws: "ws = v # vs" using assms(2) by (cases ws) auto
  have "foldl (clean_step True) [] (split_slash (abs_path ws)) = rev ws"
    using assms(1) by (simp add: split_abs_path clean_plain clean_step_def)
  moreover have "hd (abs_path ws) = slash" "abs_path ws \<noteq> []" by (simp_all add: ws)
  ultimately show ?thesis
    using assms(2) by (simp add: path_clean_def Let_def slash_Join)
qed

lemma path_Join_abs:
  assumes "list_all plain_comp (us @ ws)" and "us \<noteq> []"
  shows "path_Join (abs_path us # ws) = abs_path (us @ ws)"
proof -
  have "abs_path us \<noteq> []" using assms(2) by (cases us) auto
  moreover have "strings_Join (abs_path us # ws) [slash] = abs_path (us @ ws)"
    by (simp add: strings_Join_Cons abs_path_def)
  ultimately show ?thesis
    using assms path_clean_abs[of "us @ ws"] by (simp add: path_Join_def)
qed

section \<open>Being below a directory\<close>

definition under :: "string \<Rightarrow> string \<Rightarrow> bool" where
  "under p q \<longleftrightarrow> q = p \<or> take (Suc (length p)) q = p @ [slash]"

lemma under_refl [simp]: "under p p"
  by (simp add: under_def)

lemma under_abs_append [simp]: "under (abs_path us) (abs_path us @ abs_path ws)"
  by (cases ws) (auto simp: under_def)

lemma abs_path_inject:
  assumes "list_all plain_comp us" and "list_all plain_comp ws" and "abs_path us = abs_path ws"
  shows "us = ws"
  using assms split_abs_path by (metis list.inject)

lemma not_under_sibling:
  assumes "list_all plain_comp (us @ a # as)" and "list_all plain_comp (us @ b # bs)" and "a \<noteq> b"
  shows "\<not> under (abs_path (us @ [a])) (abs_path (us @ b # bs))"
proof
  assume u: "under (abs_path (us @ [a])) (abs_path (us @ b # bs))"
  have a: "slash \<notin> set a" and b: "slash \<notin> set b"
    using assms(1,2) by (simp_all add: plain_comp_def)
  have split_b: "split_slash (b @ abs_path bs) = b # bs"
    using assms(2) b by (intro split_word_abs) simp_all
  consider "b @ abs_path bs = a" | r where "b @ abs_path bs = a @ slash # r"
    using u unfolding under_def
  proof (elim disjE)
    assume "abs_path (us @ b # bs) = abs_path (us @ [a])"
    then have "b @ abs_path bs = a" by simp
    then show thesis by (rule that(1))
  next
    assume t: "take (Suc (length (abs_path (us @ [a])))) (abs_path (us @ b # bs))
      = abs_path (us @ [a]) @ [slash]"
    then have "abs_path us @ slash # b @ abs_path bs
      = (abs_path us @ slash # a @ [slash]) @ drop (Suc (length (abs_path (us @ [a])))) (abs_path (us @ b # bs))"
      by (metis abs_path_append abs_path_Cons abs_path_Nil append_Cons append_Nil append_assoc
          append_take_drop_id append_Nil2)
    then have "b @ abs_path bs = a @ slash # drop (Suc (length (abs_path (us @ [a])))) (abs_path (us @ b # bs))"
      by simp
    then show thesis by (rule that(2))
  qed
  then show False
  proof cases
    case 1
    then have "[a] = b # bs" using split_b a split_slash_word by metis
    with assms(3) show False by simp
  next
    case 2
    then have "a # split_slash r = b # bs" using split_b a split_slash_append by metis
    with assms(3) show False by simp
  qed
qed

end
