(* ===== verification/Os_World.thy ===== *)
theory Os_World
  imports Go_Path
begin

text \<open>
  The operating system as the program sees it: a file system, the trace of the calls
  made so far, and an environment that decides, from that trace, whether a call fails,
  which data it returns, and the identifier the package \<^verbatim>\<open>xid\<close> generates. A failing call may have done part of its work
  (\<^verbatim>\<open>MkdirAll\<close> some of the directories, \<^verbatim>\<open>RemoveAll\<close> some of the entries); the
  environment says which. The wrapper \<^verbatim>\<open>appFs\<close> of \<^verbatim>\<open>src/pkg/job/job.go\<close>
  (\<^verbatim>\<open>afero.NewOsFs()\<close>) makes the same calls as package \<^verbatim>\<open>os\<close>.
\<close>

section \<open>Calls\<close>

datatype os_signal = SIGTERM | SIGKILL | SIGHUP

datatype syscall =
    SMkdirAll string
  | SRemoveAll string
  | SRemove string
  | SChown string int int
  | SCreate string
  | SOpenAppend string
  | SOpenCreate string
  | SOpenRead string
  | SReadProc string
  | SAppend string string
  | SOverwrite string string
  | SClose string
  | SLsblk
  | SPipe
  | SStart string "string list" string
  | SReadPipe
  | SSignal os_signal
  | SUnmount string
  | SMount string
  | SSetgid int
  | SSetgroups
  | SSetuid int
  | SPrctl
  | SWritePipe string

datatype fnode = Dir | File string

type_synonym filesys = "(string \<times> fnode) list"

record world =
  fs :: filesys
  trace :: "syscall list"

record os_env =
  os_fault :: "syscall list \<Rightarrow> syscall \<Rightarrow> (string \<times> string list) option"
  os_read :: "syscall list \<Rightarrow> syscall \<Rightarrow> string"
  os_xid :: "syscall list \<Rightarrow> string"
  os_uid :: int
  os_gid :: int
  os_pid :: int

section \<open>Effects on the file system\<close>

definition ancestors :: "string \<Rightarrow> string list" where
  "ancestors p = List.map (\<lambda>n. take n p) (List.filter (\<lambda>n. p ! n = slash) [1..<length p]) @ [p]"

fun mk_dirs :: "string list \<Rightarrow> (filesys, unit) sm" where
  "mk_dirs [] f = (Inr (), f)"
| "mk_dirs (d # ds) f =
     (case map_of f d of
        None \<Rightarrow> mk_dirs ds (AList.update d Dir f)
      | Some Dir \<Rightarrow> mk_dirs ds f
      | Some (File _) \<Rightarrow> (Inl (OsErr ''ENOTDIR''), f))"

definition parent_dir :: "string \<Rightarrow> string" where
  "parent_dir p = rev (drop 1 (dropWhile (\<lambda>c. c \<noteq> slash) (rev p)))"

definition parent_ok :: "filesys \<Rightarrow> string \<Rightarrow> bool" where
  "parent_ok f p \<longleftrightarrow> parent_dir p = [] \<or> map_of f (parent_dir p) = Some Dir"

definition remove_below :: "string \<Rightarrow> filesys \<Rightarrow> filesys" where
  "remove_below p f = (if p = [] then f else List.filter (\<lambda>(q, _). \<not> under p q) f)"

definition has_child :: "string \<Rightarrow> filesys \<Rightarrow> bool" where
  "has_child p f \<longleftrightarrow> list_ex (\<lambda>(q, _). q \<noteq> p \<and> under p q) f"

definition fs_create :: "string \<Rightarrow> (filesys, unit) sm" where
  "fs_create p f =
     (if map_of f p = Some Dir then (Inl (OsErr ''EISDIR''), f)
      else if \<not> parent_ok f p then (Inl (OsErr ''ENOENT''), f)
      else (Inr (), AList.update p (File []) f))"

definition fs_open_create :: "string \<Rightarrow> (filesys, unit) sm" where
  "fs_open_create p f = (case map_of f p of Some (File _) \<Rightarrow> (Inr (), f) | _ \<Rightarrow> fs_create p f)"

definition fs_open_append :: "string \<Rightarrow> (filesys, unit) sm" where
  "fs_open_append p f =
     (case map_of f p of
        Some (File _) \<Rightarrow> (Inr (), f)
      | Some Dir \<Rightarrow> (Inl (OsErr ''EISDIR''), f)
      | None \<Rightarrow> (Inl (OsErr ''ENOENT''), f))"

definition fs_exists :: "string \<Rightarrow> (filesys, unit) sm" where
  "fs_exists p f = (if map_of f p = None then (Inl (OsErr ''ENOENT''), f) else (Inr (), f))"

definition fs_remove :: "string \<Rightarrow> (filesys, unit) sm" where
  "fs_remove p f =
     (if map_of f p = None then (Inl (OsErr ''ENOENT''), f)
      else if has_child p f then (Inl (OsErr ''ENOTEMPTY''), f)
      else (Inr (), AList.delete p f))"

definition fs_write :: "(string \<Rightarrow> string) \<Rightarrow> string \<Rightarrow> (filesys, unit) sm" where
  "fs_write g p f =
     (case map_of f p of Some (File t) \<Rightarrow> (Inr (), AList.update p (File (g t)) f) | _ \<Rightarrow> (Inr (), f))"

definition overwrite :: "string \<Rightarrow> string \<Rightarrow> string" where
  "overwrite txt old = txt @ drop (length txt) old"

fun fs_effect :: "syscall \<Rightarrow> (filesys, unit) sm" where
  "fs_effect (SMkdirAll p) = mk_dirs (ancestors p)"
| "fs_effect (SRemoveAll p) = (\<lambda>f. (Inr (), remove_below p f))"
| "fs_effect (SRemove p) = fs_remove p"
| "fs_effect (SChown p u g) = fs_exists p"
| "fs_effect (SCreate p) = fs_create p"
| "fs_effect (SOpenAppend p) = fs_open_append p"
| "fs_effect (SOpenCreate p) = fs_open_create p"
| "fs_effect (SOpenRead p) = fs_exists p"
| "fs_effect (SAppend p txt) = fs_write (\<lambda>old. old @ txt) p"
| "fs_effect (SOverwrite p txt) = fs_write (overwrite txt) p"
| "fs_effect _ = sm_ret ()"

text \<open>What a failing call may have done, restricted to the paths \<open>ps\<close> it got to.\<close>

fun fs_partial :: "syscall \<Rightarrow> string list \<Rightarrow> filesys \<Rightarrow> filesys" where
  "fs_partial (SMkdirAll p) ps f =
     snd (mk_dirs (List.filter (\<lambda>d. d \<in> set ps) (ancestors p)) f)"
| "fs_partial (SRemoveAll p) ps f =
     (if p = [] then f else List.filter (\<lambda>(q, _). \<not> (under p q \<and> q \<in> set ps)) f)"
| "fs_partial _ ps f = f"

definition os_call :: "os_env \<Rightarrow> syscall \<Rightarrow> (world, string) sm" where
  "os_call E c w =
     (let tr = trace w; tr' = tr @ [c] in
      case os_fault E tr c of
        Some (e, ps) \<Rightarrow> (Inl (OsErr e), w\<lparr>fs := fs_partial c ps (fs w), trace := tr'\<rparr>)
      | None \<Rightarrow>
          (case fs_effect c (fs w) of
             (Inl e, f) \<Rightarrow> (Inl e, w\<lparr>fs := f, trace := tr'\<rparr>)
           | (Inr _, f) \<Rightarrow> (Inr (os_read E tr c), w\<lparr>fs := f, trace := tr'\<rparr>)))"

definition os_do :: "os_env \<Rightarrow> syscall \<Rightarrow> (world, unit) sm" where
  "os_do E c = sm_bind (os_call E c) (\<lambda>_. sm_ret ())"

definition no_faults :: "os_env \<Rightarrow> bool" where
  "no_faults E \<longleftrightarrow> os_fault E = (\<lambda>_ _. None)"

section \<open>Frame facts\<close>

text \<open>The paths a call can change.\<close>

fun touches :: "syscall \<Rightarrow> string \<Rightarrow> bool" where
  "touches (SMkdirAll p) q \<longleftrightarrow> q \<in> set (ancestors p)"
| "touches (SRemoveAll p) q \<longleftrightarrow> p \<noteq> [] \<and> under p q"
| "touches (SRemove p) q \<longleftrightarrow> q = p"
| "touches (SCreate p) q \<longleftrightarrow> q = p"
| "touches (SOpenCreate p) q \<longleftrightarrow> q = p"
| "touches (SAppend p txt) q \<longleftrightarrow> q = p"
| "touches (SOverwrite p txt) q \<longleftrightarrow> q = p"
| "touches _ q \<longleftrightarrow> False"

lemma map_of_filter_key: "map_of (List.filter (\<lambda>(q, _). P q) f) q = (if P q then map_of f q else None)"
  by (induction f) auto

lemma map_of_remove_below:
  "map_of (remove_below p f) q = (if p \<noteq> [] \<and> under p q then None else map_of f q)"
  by (simp add: remove_below_def map_of_filter_key)

lemma mk_dirs_frame: "q \<notin> set ds \<Longrightarrow> map_of (snd (mk_dirs ds f)) q = map_of f q"
  by (induction ds f rule: mk_dirs.induct) (auto split: option.splits fnode.splits)

lemma fs_effect_frame: "\<not> touches c q \<Longrightarrow> map_of (snd (fs_effect c f)) q = map_of f q"
  by (cases c)
    (auto simp: mk_dirs_frame map_of_remove_below fs_remove_def fs_exists_def fs_create_def
      fs_open_create_def fs_open_append_def fs_write_def sm_ret_def
      split: option.splits fnode.splits)

lemma fs_partial_frame: "\<not> touches c q \<Longrightarrow> map_of (fs_partial c ps f) q = map_of f q"
  by (cases c) (auto simp: mk_dirs_frame map_of_filter_key)

lemma os_call_frame:
  "\<not> touches c q \<Longrightarrow> map_of (fs (snd (os_call E c w))) q = map_of (fs w) q"
  using fs_effect_frame[of c q "fs w"] fs_partial_frame[of c q _ "fs w"]
  by (auto simp: os_call_def Let_def split: option.splits prod.splits sum.splits)

lemma os_call_trace [simp]: "trace (snd (os_call E c w)) = trace w @ [c]"
  by (auto simp: os_call_def Let_def split: option.splits prod.splits sum.splits)

lemma os_do_snd [simp]: "snd (os_do E c w) = snd (os_call E c w)"
  by (auto simp: os_do_def sm_defs split: prod.splits sum.splits)

lemma os_do_fst: "fst (os_do E c w) = (case fst (os_call E c w) of Inl e \<Rightarrow> Inl e | Inr _ \<Rightarrow> Inr ())"
  by (auto simp: os_do_def sm_defs split: prod.splits sum.splits)

text \<open>A call of the operating system never reports the supervisor's own sentinel.\<close>

lemma mk_dirs_error: "fst (mk_dirs ds f) = Inl e \<Longrightarrow> \<exists>m. e = OsErr m"
  by (induction ds f rule: mk_dirs.induct) (auto split: option.splits fnode.splits)

lemma fs_effect_error: "fst (fs_effect c f) = Inl e \<Longrightarrow> \<exists>m. e = OsErr m"
  by (cases c)
    (auto simp: mk_dirs_error fs_remove_def fs_exists_def fs_create_def fs_open_create_def
      fs_open_append_def fs_write_def sm_ret_def split: option.splits fnode.splits if_splits)

lemma os_call_error: "fst (os_call E c w) = Inl e \<Longrightarrow> \<exists>m. e = OsErr m"
  using fs_effect_error[of c "fs w" e]
  by (auto simp: os_call_def Let_def split: option.splits prod.splits sum.splits)

lemma os_do_error: "fst (os_do E c w) = Inl e \<Longrightarrow> \<exists>m. e = OsErr m"
  using os_call_error[of E c w e] by (auto simp: os_do_fst split: sum.splits)

lemma removeAll_gone:
  assumes "fst (os_call E (SRemoveAll p) w) = Inr r" and "p \<noteq> []" and "under p q"
  shows "map_of (fs (snd (os_call E (SRemoveAll p) w))) q = None"
  using assms
  by (auto simp: os_call_def Let_def map_of_remove_below split: option.splits prod.splits)

text \<open>Predicates on the world: a path keeps its entry; a call is not in the trace.\<close>

definition keeps_path :: "string \<Rightarrow> fnode option \<Rightarrow> world \<Rightarrow> bool" where
  "keeps_path q n w \<longleftrightarrow> map_of (fs w) q = n"

lemma pres_os_call_path [pres]: "\<not> touches c q \<Longrightarrow> sm_pres (keeps_path q n) (os_call E c)"
  by (simp add: sm_pres_def keeps_path_def os_call_frame)

lemma pres_os_do [pres]: "sm_pres P (os_call E c) \<Longrightarrow> sm_pres P (os_do E c)"
  by (simp add: sm_pres_def)

section \<open>A world without faults\<close>

definition quiet_env :: os_env where
  "quiet_env = \<lparr>os_fault = (\<lambda>_ _. None), os_read = (\<lambda>_ _. []),
     os_xid = (\<lambda>_. ''id''), os_uid = 0, os_gid = 0, os_pid = 1\<rparr>"

lemma no_faults_quiet [simp]: "no_faults quiet_env"
  by (simp add: no_faults_def quiet_env_def)

end
