(* ===== verification/Go_Float32.thy ===== *)
theory Go_Float32
  imports Go_Strings
begin

text \<open>
  Go's \<^verbatim>\<open>float32\<close> as far as the program uses it: a CPU limit is compared with zero,
  multiplied by the period and printed with \<^verbatim>\<open>%.4f\<close>. A finite value is \<open>F32 m e\<close>,
  that is \<open>m * 2 ^ e\<close>; multiplication rounds to 24 significant bits, ties to even; printing
  rounds the exact value to four decimals, ties to even.
\<close>

datatype float32 = F32NaN | F32Inf bool | F32 int int

fun bit_length :: "nat \<Rightarrow> nat" where
  "bit_length n = (if n = 0 then 0 else Suc (bit_length (n div 2)))"

declare bit_length.simps [simp del]

definition round_shift :: "nat \<Rightarrow> nat \<Rightarrow> nat" where
  "round_shift n k =
     (let q = n div 2 ^ k; r = n mod 2 ^ k in
      if 2 ^ k < 2 * r \<or> (2 * r = 2 ^ k \<and> odd q) then Suc q else q)"

definition f32_signed :: "bool \<Rightarrow> nat \<Rightarrow> int \<Rightarrow> float32" where
  "f32_signed neg m e =
     (if 128 < int (bit_length m) + e \<and> m \<noteq> 0 then F32Inf neg
      else F32 (if neg then - int m else int m) e)"

definition f32_round :: "bool \<Rightarrow> nat \<Rightarrow> int \<Rightarrow> float32" where
  "f32_round neg m e =
     (let k = max (int (bit_length m) - 24) (- 149 - e) in
      if k \<le> 0 then f32_signed neg m e
      else f32_signed neg (round_shift m (nat k)) (e + k))"

fun f32_mul :: "float32 \<Rightarrow> float32 \<Rightarrow> float32" where
  "f32_mul (F32 m e) (F32 m' e') =
     f32_round (m * m' < 0) (nat \<bar>m * m'\<bar>) (e + e')"
| "f32_mul (F32Inf s) (F32Inf t) = F32Inf (s \<noteq> t)"
| "f32_mul (F32Inf s) (F32 m e) = (if m = 0 then F32NaN else F32Inf (s \<noteq> (m < 0)))"
| "f32_mul (F32 m e) (F32Inf s) = (if m = 0 then F32NaN else F32Inf (s \<noteq> (m < 0)))"
| "f32_mul _ _ = F32NaN"

fun f32_pos :: "float32 \<Rightarrow> bool" where
  "f32_pos (F32 m e) \<longleftrightarrow> 0 < m"
| "f32_pos (F32Inf neg) \<longleftrightarrow> \<not> neg"
| "f32_pos F32NaN \<longleftrightarrow> False"

definition pad4 :: "nat \<Rightarrow> string" where
  "pad4 n = List.map digit_char [n div 1000 mod 10, n div 100 mod 10, n div 10 mod 10, n mod 10]"

definition fixed4 :: "nat \<Rightarrow> string" where
  "fixed4 n = nat_dec (n div 10000) @ ''.'' @ pad4 (n mod 10000)"

definition scaled4 :: "nat \<Rightarrow> int \<Rightarrow> nat" where
  "scaled4 m e = (if 0 \<le> e then m * 2 ^ nat e * 10000 else round_shift (m * 10000) (nat (- e)))"

fun f32_fmt4 :: "float32 \<Rightarrow> string" where
  "f32_fmt4 (F32 m e) = (if m < 0 then ''-'' else []) @ fixed4 (scaled4 (nat \<bar>m\<bar>) e)"
| "f32_fmt4 (F32Inf neg) = (if neg then ''-Inf'' else ''+Inf'')"
| "f32_fmt4 F32NaN = ''NaN''"

text \<open>The distance between a rounded quotient and the exact one is at most one half.\<close>

lemma round_shift_bounds:
  "2 * (round_shift n k * 2 ^ k) \<le> 2 * n + 2 ^ k"
  "2 * n \<le> 2 * (round_shift n k * 2 ^ k) + 2 ^ k"
proof -
  define q r p :: nat where "q = n div 2 ^ k" and "r = n mod 2 ^ k" and "p = 2 ^ k"
  have n: "n = q * p + r"
    unfolding q_def r_def p_def by (rule div_mult_mod_eq [symmetric])
  have r: "r < p" by (simp add: r_def p_def)
  have rs: "round_shift n k = (if p < 2 * r \<or> (2 * r = p \<and> odd q) then Suc q else q)"
    by (simp add: round_shift_def Let_def q_def r_def p_def)
  show "2 * (round_shift n k * 2 ^ k) \<le> 2 * n + 2 ^ k"
    unfolding rs p_def[symmetric] using n r by auto
  show "2 * n \<le> 2 * (round_shift n k * 2 ^ k) + 2 ^ k"
    unfolding rs p_def[symmetric] using n r by auto
qed

text \<open>Evaluation on numerals.\<close>

lemma bit_length_eval [simp]:
  "bit_length 0 = 0" "bit_length (Suc 0) = 1"
  "bit_length (numeral v) = Suc (bit_length (numeral v div 2))"
  by (simp_all add: bit_length.simps[of 0] bit_length.simps[of "Suc 0"]
      bit_length.simps[of "numeral v"])

lemma f32_fmt4_example:
  "f32_fmt4 (f32_mul (F32 10000 0) (F32 13170115 (- 22))) = ''31400.0020''"
  by (simp add: f32_round_def f32_signed_def round_shift_def Let_def scaled4_def fixed4_def
      pad4_def nat_dec_eval digit_char_eval)

end
