(* ===== verification/Job_Data.thy ===== *)
theory Job_Data
  imports Os_World Go_Float32 "HOL-Library.Word"
begin

text \<open>
  The data of \<^verbatim>\<open>src/pkg/job\<close>: identities, limits, status values, the \<^verbatim>\<open>Job\<close> struct
  with its table of calls, and the options of \<^verbatim>\<open>option.go\<close>. Not modelled: the logger.
\<close>

section \<open>Status\<close>

type_synonym status = int

definition StatusActive :: status where "StatusActive = 0"
definition StatusEnded :: status where "StatusEnded = 1"
definition StatusStopping :: status where "StatusStopping = 2"
definition StatusStopped :: status where "StatusStopped = 3"
definition StatusRemoved :: status where "StatusRemoved = 4"

lemmas status_defs = StatusActive_def StatusEnded_def StatusStopping_def StatusStopped_def
  StatusRemoved_def

definition status_String :: "status \<Rightarrow> string" where
  "status_String s =
     (if s = StatusActive then ''ACTIVE''
      else if s = StatusEnded then ''ENDED''
      else if s = StatusRemoved then ''ZOMBIE''
      else if s = StatusStopping then ''STOPPING''
      else if s = StatusStopped then ''STOPPED''
      else ''UNKNOWN'')"

section \<open>The job\<close>

record exec_identity =
  UID :: int
  GID :: int

record exec_limits =
  CPU :: float32
  MaxRAMBytes :: int
  MaxDiskIOBytes :: int

text \<open>The five stateless handler structs are the constructors of one type.\<close>

datatype handler =
  activeHandler | endedHandler | stoppingHandler | stoppedHandler | zombieHandler

text \<open>\<^verbatim>\<open>exec.Cmd\<close>: what was asked for, and the exit code once \<^verbatim>\<open>Wait\<close> has returned.\<close>

record exec_cmd =
  cmd_Path :: string
  cmd_Args :: "string list"
  cmd_Dir :: string
  ProcessState :: "int option"

text \<open>
  \<open>outLock\<close> is the counter of the wait group, \<open>logReaders\<close> the \<^verbatim>\<open>int32\<close> counter.
  \<open>done_closed\<close> says whether the channel \<^verbatim>\<open>done\<close> is closed. \<open>armed\<close> holds the
  timers that have not fired or been stopped, with their durations; \<open>stopTimer\<close> is the
  timer the job points to. The mutex is not part of the data: the operations below are the
  critical sections, and \<open>Job_Concurrency\<close> adds the lock.
\<close>

record job =
  ID :: string
  baseJobDir :: string
  jobDir :: string
  workDir :: string
  shimPath :: string
  outLock :: int
  logReaders :: "32 word"
  outFilePath :: string
  cgroupOuter :: string
  cgroupInner :: string
  Command :: string
  job_Args :: "string list"
  job_cmd :: exec_cmd
  exitCode :: int
  done_closed :: bool
  limits :: exec_limits
  ids :: exec_identity
  armed :: "(nat \<times> int) list"
  stopTimer :: "nat option"
  nextTimer :: nat
  job_handler :: handler

definition defaultShimPath :: string where
  "defaultShimPath = ''/proc/self/exe''"

definition defaultBasePath :: string where
  "defaultBasePath = ''/tmp/jobs''"

definition no_cmd :: exec_cmd where
  "no_cmd = \<lparr>cmd_Path = [], cmd_Args = [], cmd_Dir = [], ProcessState = None\<rparr>"

section \<open>The table of calls\<close>

text \<open>
  The calls on \<^verbatim>\<open>exec.Cmd\<close> that the tests of the package replace. \<^verbatim>\<open>Wait\<close> returns when the
  process has ended: its exit code is an argument.
\<close>

record sys_fun =
  sf_signal :: "exec_cmd \<Rightarrow> os_signal \<Rightarrow> (world, unit) sm"
  sf_start :: "exec_cmd \<Rightarrow> (world, unit) sm"
  sf_wait :: "int \<Rightarrow> exec_cmd \<Rightarrow> exec_cmd"

definition startCommand :: "os_env \<Rightarrow> exec_cmd \<Rightarrow> (world, unit) sm" where
  "startCommand E c = os_do E (SStart (cmd_Path c) (cmd_Args c) (cmd_Dir c))"

definition waitCommand :: "int \<Rightarrow> exec_cmd \<Rightarrow> exec_cmd" where
  "waitCommand code c = c\<lparr>ProcessState := Some code\<rparr>"

definition signalCommand :: "os_env \<Rightarrow> exec_cmd \<Rightarrow> os_signal \<Rightarrow> (world, unit) sm" where
  "signalCommand E c s = os_do E (SSignal s)"

definition defSysFun :: "os_env \<Rightarrow> sys_fun" where
  "defSysFun E = \<lparr>sf_signal = signalCommand E, sf_start = startCommand E, sf_wait = waitCommand\<rparr>"

lemma defSysFun_calls [simp]:
  "sf_signal (defSysFun E) c s = os_do E (SSignal s)"
  "sf_start (defSysFun E) c = os_do E (SStart (cmd_Path c) (cmd_Args c) (cmd_Dir c))"
  "sf_wait (defSysFun E) code c = c\<lparr>ProcessState := Some code\<rparr>"
  by (simp_all add: defSysFun_def signalCommand_def startCommand_def waitCommand_def)

section \<open>Fresh jobs\<close>

definition no_limits :: exec_limits where
  "no_limits = \<lparr>CPU = F32 0 0, MaxRAMBytes = 0, MaxDiskIOBytes = 0\<rparr>"

text \<open>The struct literal at the start of \<^verbatim>\<open>New\<close>; the fields it does not name are zero.\<close>

definition new_job :: "string \<Rightarrow> int \<Rightarrow> int \<Rightarrow> job" where
  "new_job i uid gid =
     \<lparr>ID = i, baseJobDir = defaultBasePath, jobDir = [], workDir = [],
      shimPath = defaultShimPath, outLock = 0, logReaders = 0, outFilePath = [],
      cgroupOuter = [], cgroupInner = [], Command = [], job_Args = [], job_cmd = no_cmd,
      exitCode = 0, done_closed = False, limits = no_limits,
      ids = \<lparr>UID = uid, GID = gid\<rparr>, armed = [], stopTimer = None, nextTimer = 0,
      job_handler = activeHandler\<rparr>"

section \<open>Options\<close>

type_synonym job_option = "job \<Rightarrow> job"

definition opt_Shim :: "string \<Rightarrow> job_option" where
  "opt_Shim p j = j\<lparr>shimPath := p\<rparr>"

definition opt_CPU :: "float32 \<Rightarrow> job_option" where
  "opt_CPU c j = j\<lparr>limits := (limits j)\<lparr>CPU := c\<rparr>\<rparr>"

definition opt_Mem :: "int \<Rightarrow> job_option" where
  "opt_Mem b j = j\<lparr>limits := (limits j)\<lparr>MaxRAMBytes := b\<rparr>\<rparr>"

definition opt_IO :: "int \<Rightarrow> job_option" where
  "opt_IO b j = j\<lparr>limits := (limits j)\<lparr>MaxDiskIOBytes := b\<rparr>\<rparr>"

definition opt_UID :: "int \<Rightarrow> job_option" where
  "opt_UID i j = j\<lparr>ids := (ids j)\<lparr>UID := i\<rparr>\<rparr>"

definition opt_GID :: "int \<Rightarrow> job_option" where
  "opt_GID i j = j\<lparr>ids := (ids j)\<lparr>GID := i\<rparr>\<rparr>"

definition opt_cgroup :: "string \<Rightarrow> job_option" where
  "opt_cgroup p j = j\<lparr>cgroupOuter := p\<rparr>"

definition opt_dir :: "string \<Rightarrow> job_option" where
  "opt_dir p j = j\<lparr>baseJobDir := p\<rparr>"

text \<open>
  The options of the tests replace one call of the job's table; they are functions on the table
  \<^verbatim>\<open>j.syscalls\<close>, which is \<open>defSysFun\<close> in every job the program creates.
\<close>

type_synonym syscalls_option = "sys_fun \<Rightarrow> sys_fun"

definition opt_cmdStart :: "(exec_cmd \<Rightarrow> (world, unit) sm) \<Rightarrow> syscalls_option" where
  "opt_cmdStart f t = t\<lparr>sf_start := f\<rparr>"

definition opt_cmdWait :: "(int \<Rightarrow> exec_cmd \<Rightarrow> exec_cmd) \<Rightarrow> syscalls_option" where
  "opt_cmdWait f t = t\<lparr>sf_wait := f\<rparr>"

definition opt_cmdSignal :: "(exec_cmd \<Rightarrow> os_signal \<Rightarrow> (world, unit) sm) \<Rightarrow> syscalls_option" where
  "opt_cmdSignal f t = t\<lparr>sf_signal := f\<rparr>"

lemmas option_defs = opt_Shim_def opt_CPU_def opt_Mem_def opt_IO_def opt_UID_def opt_GID_def
  opt_cgroup_def opt_dir_def

definition apply_options :: "job_option list \<Rightarrow> job \<Rightarrow> job" where
  "apply_options opts j = foldl (\<lambda>j opt. opt j) j opts"

section \<open>Functions on a job and the world\<close>

text \<open>
  A method of \<^verbatim>\<open>*Job\<close> that calls the operating system changes the job and the world.
\<close>

type_synonym 'a job_sm = "(job \<times> world, 'a) sm"

definition on_world :: "(world, 'a) sm \<Rightarrow> 'a job_sm" where
  "on_world m s = (case m (snd s) of (r, w) \<Rightarrow> (r, (fst s, w)))"

definition with_job :: "(job \<Rightarrow> 'a job_sm) \<Rightarrow> 'a job_sm" where
  "with_job f s = f (fst s) s"

definition set_job :: "(job \<Rightarrow> job) \<Rightarrow> unit job_sm" where
  "set_job f s = (Inr (), (f (fst s), snd s))"

lemmas job_sm_defs = on_world_def with_job_def set_job_def

lemma pres_on_world [pres]:
  "(\<And>j. sm_pres (\<lambda>w. P (j, w)) m) \<Longrightarrow> sm_pres P (on_world m)"
  by (auto simp: sm_pres_def on_world_def split: prod.splits) (metis snd_conv)

lemma pres_with_job [pres]: "(\<And>j. sm_pres P (f j)) \<Longrightarrow> sm_pres P (with_job f)"
  by (simp add: sm_pres_def with_job_def)

lemma pres_set_job [pres]: "(\<And>j w. P (j, w) \<Longrightarrow> P (f j, w)) \<Longrightarrow> sm_pres P (set_job f)"
  by (auto simp: sm_pres_def set_job_def)

lemma fst_on_world [simp]: "fst (on_world m (j, w)) = fst (m w)"
  by (simp add: on_world_def split: prod.splits)

lemma snd_on_world [simp]: "snd (on_world m (j, w)) = (j, snd (m w))"
  by (simp add: on_world_def split: prod.splits)

end
