(* ===== verification/Rpc.thy ===== *)
theory Rpc
  imports Job_Data
begin

text \<open>
  The messages and the status codes of the service (\<^verbatim>\<open>src/proto/jobs/v1/jobs.proto\<close>) and
  the request context with the identity of the client (\<^verbatim>\<open>StoreAuthID\<close>, \<^verbatim>\<open>authID\<close> of
  \<^verbatim>\<open>src/pkg/server/server.go\<close>). A message field that the generated code holds as a pointer
  is an option; the text of a status is kept as the error it is made from. The service uses
  the four named codes; the others come from the transport.
\<close>

datatype code = Canceled | Unauthenticated | NotFound | Internal | OtherCode nat

datatype rpc_status = Status code go_error

fun status_code :: "rpc_status \<Rightarrow> code" where
  "status_code (Status c e) = c"

section \<open>Messages\<close>

record pb_limits =
  Memory :: int
  Cpus :: float32
  Io :: int

record start_request =
  req_Command :: string
  req_Args :: "string list"
  req_Limits :: "pb_limits option"

type_synonym stop_mode = int

definition STOP_MODE_UNSPECIFIED :: stop_mode where "STOP_MODE_UNSPECIFIED = 0"
definition STOP_MODE_IMMEDIATE :: stop_mode where "STOP_MODE_IMMEDIATE = 1"
definition STOP_MODE_GRACEFUL :: stop_mode where "STOP_MODE_GRACEFUL = 2"

type_synonym pb_status = int

definition STATUS_UNSPECIFIED :: pb_status where "STATUS_UNSPECIFIED = 0"
definition STATUS_ACTIVE :: pb_status where "STATUS_ACTIVE = 1"
definition STATUS_STOPPING :: pb_status where "STATUS_STOPPING = 2"
definition STATUS_STOPPED :: pb_status where "STATUS_STOPPED = 3"
definition STATUS_ENDED :: pb_status where "STATUS_ENDED = 4"

lemmas pb_status_defs = STATUS_UNSPECIFIED_def STATUS_ACTIVE_def STATUS_STOPPING_def
  STATUS_STOPPED_def STATUS_ENDED_def

record job_details =
  det_status :: pb_status
  det_exit_code :: "32 word"
  det_command :: string

section \<open>The request context\<close>

datatype ctx_key = AuthKey | OtherKey nat
datatype ctx_val = CtxString string | CtxOther nat

type_synonym context_t = "(ctx_key \<times> ctx_val) list"

definition StoreAuthID :: "context_t \<Rightarrow> string \<Rightarrow> context_t" where
  "StoreAuthID ctx i = (AuthKey, CtxString i) # ctx"

definition authID :: "context_t \<Rightarrow> string \<times> bool" where
  "authID ctx =
     (case map_of ctx AuthKey of
        None \<Rightarrow> ([], False)
      | Some (CtxString s) \<Rightarrow> (s, True)
      | Some (CtxOther _) \<Rightarrow> ([], False))"

lemma authID_Store [simp]: "authID (StoreAuthID ctx i) = (i, True)"
  by (simp add: authID_def StoreAuthID_def)

end
