(* ===== verification/Client.thy ===== *)
theory Client
  imports Rpc Go_Path
begin

text \<open>
  The client library, \<^verbatim>\<open>src/pkg/client\<close>: the search for the configuration, saving it, and
  the connection to the service with mutual TLS. What viper, yaml, \<^verbatim>\<open>crypto/tls\<close>, \<^verbatim>\<open>x509\<close> and
  gRPC do is a parameter.
\<close>

abbreviation ErrNotExist :: go_error where
  "ErrNotExist \<equiv> OsErr ''file does not exist''"

section \<open>The configuration\<close>

record client_config =
  cl_Server :: string
  cl_CAPath :: string
  cl_CertPath :: string
  cl_KeyPath :: string

text \<open>What the code asks of viper: where to search, or which file to read.\<close>

record viper_search =
  vs_paths :: "string list"
  vs_file :: "string option"
  vs_name :: string
  vs_type :: string

text \<open>
  What viper answers: the file that was read, or the error of \<^verbatim>\<open>ReadInConfig\<close>; the error of
  \<^verbatim>\<open>Unmarshal\<close>; and the settings, in which flags have priority over the file.
\<close>

record viper_result =
  vp_read :: "go_error + string"
  vp_decode :: "go_error option"
  vp_get :: "string \<Rightarrow> string"

type_synonym files = "string \<Rightarrow> string option"
type_synonym viper = "files \<Rightarrow> viper_search \<Rightarrow> viper_result"

text \<open>The keys are those of the \<^verbatim>\<open>mapstructure\<close> tags.\<close>

definition mapstructure :: "(string \<Rightarrow> string) \<Rightarrow> client_config" where
  "mapstructure get =
     \<lparr>cl_Server = get ''server'', cl_CAPath = get ''capath'',
      cl_CertPath = get ''cert'', cl_KeyPath = get ''key''\<rparr>"

definition search_for :: "string option \<Rightarrow> string \<Rightarrow> viper_search \<times> string" where
  "search_for home file =
     (if file \<noteq> [] then (\<lparr>vs_paths = [''.''], vs_file = Some file, vs_name = [], vs_type = []\<rparr>, file)
      else (\<lparr>vs_paths = [''.'', ''/etc''] @
               (case home of None \<Rightarrow> [] | Some h \<Rightarrow> [h, path_Join [h, ''.jobs'']]),
             vs_file = None, vs_name = ''jctrl.yaml'', vs_type = ''yaml''\<rparr>, ''jctrl.yaml''))"

text \<open>The path of the file, the configuration (a pointer), and the error.\<close>

definition client_FindConfig ::
  "viper \<Rightarrow> string option \<Rightarrow> files \<Rightarrow> string \<Rightarrow> string \<times> client_config option \<times> go_error option" where
  "client_FindConfig viper home disk file =
     (case search_for home file of (v, file') \<Rightarrow>
        let r = viper disk v; c = mapstructure (vp_get r) in
        case vp_read r of
          Inl _ \<Rightarrow>
            (case vp_decode r of
               None \<Rightarrow> (file', Some c, None)
             | Some e \<Rightarrow> (file', None, Some (Wrapf ''failed to load config'' e)))
        | Inr used \<Rightarrow>
            (case vp_decode r of
               Some e \<Rightarrow> ([], Some c, Some (Wrapf ''failed to parse config'' e))
             | None \<Rightarrow> (used, Some c, None)))"

text \<open>
  What yaml writes: the fields under the names of the \<^verbatim>\<open>yaml\<close> tags, or the name of the field
  in lower case where there is none; \<^verbatim>\<open>null\<close> for a nil pointer.
\<close>

datatype yaml = YamlNull | YamlMap "(string \<times> string) list"

definition yaml_of :: "client_config option \<Rightarrow> yaml" where
  "yaml_of cfg =
     (case cfg of
        None \<Rightarrow> YamlNull
      | Some c \<Rightarrow> YamlMap [(''server'', cl_Server c), (''capath'', cl_CAPath c),
          (''cert'', cl_CertPath c), (''key'', cl_KeyPath c)])"

text \<open>
  \<open>create\<close> is the error of \<^verbatim>\<open>os.Create\<close>, which empties an existing file; \<open>encode\<close> gives the
  error of the encoder and what it wrote.
\<close>

definition client_SaveConfig ::
  "(string \<Rightarrow> go_error option) \<Rightarrow> (yaml \<Rightarrow> go_error option \<times> string) \<Rightarrow> string \<Rightarrow>
     client_config option \<Rightarrow> files \<Rightarrow> go_error option \<times> files" where
  "client_SaveConfig create encode file cfg disk =
     (case create file of
        Some e \<Rightarrow> (Some e, disk)
      | None \<Rightarrow> (case encode (yaml_of cfg) of (err, written) \<Rightarrow> (err, disk(file \<mapsto> written))))"

section \<open>The connection\<close>

text \<open>The version is the code of the protocol, 0x0304 for TLS 1.3.\<close>

record 'cert tls_config =
  tls_RootCAs :: string
  tls_InsecureSkipVerify :: bool
  tls_Certificates :: "'cert list"
  tls_MinVersion :: nat

definition VersionTLS13 :: nat where
  "VersionTLS13 = 772"

record ('cert, 'conn) client_lib =
  lib_ReadFile :: "string \<Rightarrow> go_error + string"
  lib_AppendCerts :: "string \<Rightarrow> bool"
  lib_KeyPair :: "string \<Rightarrow> string \<Rightarrow> go_error + 'cert"
  lib_Dial :: "string \<Rightarrow> 'cert tls_config \<Rightarrow> go_error + 'conn"

definition loadTLSCreds ::
  "('cert, 'conn) client_lib \<Rightarrow> client_config \<Rightarrow> go_error + 'cert tls_config" where
  "loadTLSCreds L cfg =
     (case lib_ReadFile L (cl_CAPath cfg) of
        Inl e \<Rightarrow> Inl (Wrapf ''failed to read CA cert'' e)
      | Inr ca \<Rightarrow>
          if \<not> lib_AppendCerts L ca then Inl (Errorf ''failed to add CA cert'')
          else case lib_KeyPair L (cl_CertPath cfg) (cl_KeyPath cfg) of
            Inl e \<Rightarrow> Inl (Wrapf ''failed to load TLS cert'' e)
          | Inr cert \<Rightarrow> Inr \<lparr>tls_RootCAs = ca, tls_InsecureSkipVerify = False,
              tls_Certificates = [cert], tls_MinVersion = VersionTLS13\<rparr>)"

definition client_New :: "('cert, 'conn) client_lib \<Rightarrow> client_config \<Rightarrow> go_error + 'conn" where
  "client_New L cfg =
     (if cl_CAPath cfg = [] then Inl (Errorf ''CA cert required'')
      else if cl_CertPath cfg = [] then Inl (Errorf ''TLS cert required'')
      else if cl_KeyPath cfg = [] then Inl (Errorf ''TLS cert key required'')
      else if cl_Server cfg = [] then Inl (Errorf ''server endpoint required'')
      else case loadTLSCreds L cfg of
        Inl e \<Rightarrow> Inl (Wrapf ''failed to dial'' e)
      | Inr creds \<Rightarrow>
          (case lib_Dial L (cl_Server cfg) creds of
             Inl e \<Rightarrow> Inl (Wrapf ''failed to dial'' e)
           | Inr cl \<Rightarrow> Inr cl))"

lemma client_New_Inr:
  "client_New L cfg = Inr cl \<longleftrightarrow>
     cl_CAPath cfg \<noteq> [] \<and> cl_CertPath cfg \<noteq> [] \<and> cl_KeyPath cfg \<noteq> [] \<and> cl_Server cfg \<noteq> [] \<and>
     (\<exists>ca cert. lib_ReadFile L (cl_CAPath cfg) = Inr ca \<and> lib_AppendCerts L ca \<and>
        lib_KeyPair L (cl_CertPath cfg) (cl_KeyPath cfg) = Inr cert \<and>
        lib_Dial L (cl_Server cfg) \<lparr>tls_RootCAs = ca, tls_InsecureSkipVerify = False,
          tls_Certificates = [cert], tls_MinVersion = VersionTLS13\<rparr> = Inr cl)"
  by (auto simp: client_New_def loadTLSCreds_def split: sum.splits)

section \<open>Saving and finding\<close>

lemma mapstructure_yaml:
  assumes "yaml_of (Some c) = YamlMap kvs" and "\<forall>k. get k = (case map_of kvs k of None \<Rightarrow> [] | Some v \<Rightarrow> v)"
  shows "mapstructure get = c"
  using assms by (auto simp: yaml_of_def mapstructure_def)

text \<open>
  A configuration that was saved is the configuration that is found: the names under
  which the fields are written are the names under which they are read. The hypotheses say
  what yaml and viper do: a file is parsed into the keys and values that were written, and
  where no flag is given the settings are those of the file.
\<close>

lemma saved_config_is_found:
  assumes "client_SaveConfig create encode file (Some c) disk = (None, disk')" and "file \<noteq> []"
    and "\<forall>kvs content. encode (YamlMap kvs) = (None, content) \<and> yaml_of (Some c) = YamlMap kvs \<longrightarrow>
      parse content = Some kvs"
    and "\<forall>disk v f content kvs. vs_file v = Some f \<longrightarrow> disk f = Some content \<longrightarrow> parse content = Some kvs \<longrightarrow>
      viper disk v = \<lparr>vp_read = Inr f, vp_decode = None,
        vp_get = (\<lambda>k. case map_of kvs k of None \<Rightarrow> [] | Some v \<Rightarrow> v)\<rparr>"
  shows "client_FindConfig viper home disk' file = (file, Some c, None)"
proof -
  obtain kvs where y: "yaml_of (Some c) = YamlMap kvs" by (simp add: yaml_of_def)
  obtain content where e: "encode (YamlMap kvs) = (None, content)" and disk': "disk' = disk(file \<mapsto> content)"
    using assms(1) y by (auto simp: client_SaveConfig_def split: option.splits prod.splits)
  have p: "parse content = Some kvs" using assms(3) e y by blast
  let ?v = "\<lparr>vs_paths = [''.''], vs_file = Some file, vs_name = [], vs_type = []\<rparr>"
  have "viper disk' ?v = \<lparr>vp_read = Inr file, vp_decode = None,
        vp_get = (\<lambda>k. case map_of kvs k of None \<Rightarrow> [] | Some v \<Rightarrow> v)\<rparr>"
    by (rule assms(4)[rule_format, OF _ _ p]) (simp_all add: disk')
  then show ?thesis
    using assms(2) mapstructure_yaml[OF y] by (simp add: client_FindConfig_def search_for_def)
qed

definition demo_cfg :: client_config where
  "demo_cfg = \<lparr>cl_Server = ''h:1'', cl_CAPath = ''ca'', cl_CertPath = ''crt'', cl_KeyPath = ''key''\<rparr>"

definition demo_parse :: "string \<Rightarrow> (string \<times> string) list option" where
  "demo_parse t =
     (if t = ''h:1,ca,crt,key''
      then Some [(''server'', ''h:1''), (''capath'', ''ca''), (''cert'', ''crt''), (''key'', ''key'')] else None)"

definition demo_encode :: "yaml \<Rightarrow> go_error option \<times> string" where
  "demo_encode y =
     (case y of YamlNull \<Rightarrow> (None, ''null'') | YamlMap kvs \<Rightarrow> (None, strings_Join (List.map snd kvs) '',''))"

definition demo_viper :: viper where
  "demo_viper disk v =
     (case Option.bind (Option.bind (vs_file v) disk) demo_parse of
        None \<Rightarrow> \<lparr>vp_read = Inl ErrNotExist, vp_decode = None, vp_get = (\<lambda>_. [])\<rparr>
      | Some kvs \<Rightarrow> \<lparr>vp_read = Inr (case vs_file v of None \<Rightarrow> [] | Some f \<Rightarrow> f), vp_decode = None,
          vp_get = (\<lambda>k. case map_of kvs k of None \<Rightarrow> [] | Some x \<Rightarrow> x)\<rparr>)"

end
