(* ===== verification/Client_Commands.thy ===== *)
theory Client_Commands
  imports Client "HOL-Library.Word"
begin

text \<open>
  The command line client, \<^verbatim>\<open>src/cmd/client/cmd\<close>: its commands as functions from a session
  (the state of the service, what was printed, the files of the client) to an exit code.
  The service is reached through \<open>JobServiceClient\<close>, the interface of the generated stub.
\<close>

section \<open>The stub\<close>

text \<open>The error of a call: a gRPC status, or another error with its text.\<close>

datatype call_error = FromStatus rpc_status | NoStatus string

text \<open>How a stream ends: \<^verbatim>\<open>io.EOF\<close>, an error, or not at all.\<close>

datatype stream_end = StreamEOF | StreamErr call_error | StreamOpen

type_synonym ('s, 'a) call = "'s \<Rightarrow> (call_error + 'a) outcome \<times> 's"

record 's JobServiceClient =
  rpc_Start :: "start_request \<Rightarrow> ('s, string) call"
  rpc_Stop :: "string \<Rightarrow> stop_mode \<Rightarrow> ('s, unit) call"
  rpc_Inspect :: "string \<Rightarrow> ('s, job_details) call"
  rpc_Remove :: "string \<Rightarrow> ('s, unit) call"
  rpc_Logs :: "string \<Rightarrow> bool option \<Rightarrow> ('s, string list \<times> stream_end) call"

text \<open>\<^verbatim>\<open>diagMessage\<close>; \<open>txt_of\<close> is what the \<^verbatim>\<open>Error\<close> method of an error of a call prints.\<close>

definition diagMessage :: "(call_error \<Rightarrow> string) \<Rightarrow> call_error \<Rightarrow> string" where
  "diagMessage txt_of err =
     (case err of
        FromStatus gerr \<Rightarrow>
          (case status_code gerr of
             Internal \<Rightarrow> txt_of err
           | NotFound \<Rightarrow> ''no such job''
           | Unauthenticated \<Rightarrow> ''invalid certificate''
           | _ \<Rightarrow> txt_of err)
      | NoStatus _ \<Rightarrow> txt_of err)"

section \<open>Sessions\<close>

record 's session =
  ss_srv :: 's
  ss_out :: string
  ss_err :: string
  ss_files :: files

text \<open>A command ends with an exit code, waits for ever, or dies of a nil pointer.\<close>

datatype cmd_end = ExitCode nat | Hangs | Crash

type_synonym 's cmd = "'s session \<Rightarrow> cmd_end \<times> 's session"

definition say :: "string \<Rightarrow> 's session \<Rightarrow> 's session" where
  "say m ss = ss\<lparr>ss_out := ss_out ss @ m\<rparr>"

definition complain :: "string \<Rightarrow> 's session \<Rightarrow> 's session" where
  "complain m ss = ss\<lparr>ss_err := ss_err ss @ m\<rparr>"

text \<open>\<^verbatim>\<open>fmt.Fprintf(os.Stderr, ...); os.Exit(1)\<close>\<close>

definition fail_with :: "string \<Rightarrow> 's cmd" where
  "fail_with m ss = (ExitCode 1, complain m ss)"

text \<open>What a command runs with: viper, the home directory, the \<^verbatim>\<open>--config\<close> flag, the libraries.\<close>

record ('cert, 's) cmd_env =
  ce_viper :: viper
  ce_home :: "string option"
  ce_config :: string
  ce_lib :: "('cert, 's JobServiceClient) client_lib"
  ce_text :: "call_error \<Rightarrow> string"
  ce_create :: "string \<Rightarrow> go_error option"
  ce_encode :: "yaml \<Rightarrow> go_error option \<times> string"

definition nl :: string where
  "nl = [newline]"

text \<open>
  What the five commands that call the service begin with: the configuration, the number of
  arguments, the connection. \<open>needs\<close> is the message for a missing argument.
\<close>

definition connected ::
  "('cert, 's) cmd_env \<Rightarrow> string \<Rightarrow> string list \<Rightarrow> (string \<Rightarrow> string list \<Rightarrow> 's JobServiceClient \<Rightarrow> 's cmd) \<Rightarrow>
     's cmd" where
  "connected C needs args body ss =
     (case client_FindConfig (ce_viper C) (ce_home C) (ss_files ss) (ce_config C) of
        (_, _, Some _) \<Rightarrow> fail_with (''failed to load config'' @ nl) ss
      | (_, cfg, None) \<Rightarrow>
          (case args of
             [] \<Rightarrow> fail_with (needs @ nl) ss
           | a # as \<Rightarrow>
               (case cfg of
                  None \<Rightarrow> (Crash, ss)
                | Some c \<Rightarrow>
                    (case client_New (ce_lib C) c of
                       Inl e \<Rightarrow> fail_with (''failed to connect: '' @ error_text e @ nl) ss
                     | Inr cl \<Rightarrow> body a as cl ss))))"

text \<open>A call, and what to do with its result.\<close>

definition calling ::
  "(call_error \<Rightarrow> string) \<Rightarrow> string \<Rightarrow> ('s, 'a) call \<Rightarrow> ('a \<Rightarrow> 's cmd) \<Rightarrow> 's cmd" where
  "calling txt_of failed c body ss =
     (case c (ss_srv ss) of
        (Ret (Inl e), s') \<Rightarrow> fail_with (failed @ diagMessage txt_of e @ nl) (ss\<lparr>ss_srv := s'\<rparr>)
      | (Ret (Inr x), s') \<Rightarrow> body x (ss\<lparr>ss_srv := s'\<rparr>)
      | (_, s') \<Rightarrow> (Hangs, ss\<lparr>ss_srv := s'\<rparr>))"

definition done_with :: "string \<Rightarrow> 's cmd" where
  "done_with m ss = (ExitCode 0, say m ss)"

section \<open>The commands\<close>

record run_flags =
  cpuLimit :: float32
  memLimit :: int
  ioLimit :: int

text \<open>The defaults of the flags of \<^verbatim>\<open>run\<close>: one CPU.\<close>

definition default_run_flags :: run_flags where
  "default_run_flags = \<lparr>cpuLimit = F32 1 0, memLimit = 0, ioLimit = 0\<rparr>"

definition runCmd :: "('cert, 's) cmd_env \<Rightarrow> run_flags \<Rightarrow> string list \<Rightarrow> 's cmd" where
  "runCmd C fl args =
     connected C ''command required'' args (\<lambda>a as cl.
       calling (ce_text C) ''failed to start the job: ''
         (rpc_Start cl \<lparr>req_Command = a, req_Args = as,
            req_Limits = Some \<lparr>Memory = memLimit fl, Cpus = cpuLimit fl, Io = ioLimit fl\<rparr>\<rparr>)
         (\<lambda>jid. done_with (jid @ nl)))"

definition stopCmd :: "('cert, 's) cmd_env \<Rightarrow> bool \<Rightarrow> string list \<Rightarrow> 's cmd" where
  "stopCmd C force args =
     connected C ''job_id required'' args (\<lambda>a as cl.
       calling (ce_text C) ''failed to stop the job: ''
         (rpc_Stop cl a (if force then STOP_MODE_IMMEDIATE else STOP_MODE_GRACEFUL))
         (\<lambda>_. done_with []))"

text \<open>The message for a failed removal is that of \<^verbatim>\<open>stop\<close>.\<close>

definition rmCmd :: "('cert, 's) cmd_env \<Rightarrow> string list \<Rightarrow> 's cmd" where
  "rmCmd C args =
     connected C ''job_id required'' args (\<lambda>a as cl.
       calling (ce_text C) ''failed to stop the job: '' (rpc_Remove cl a) (\<lambda>_. done_with []))"

text \<open>The names of the enumeration in \<^verbatim>\<open>jobs.proto\<close>; another number is printed as such.\<close>

definition pb_status_text :: "pb_status \<Rightarrow> string" where
  "pb_status_text st =
     (if st = STATUS_UNSPECIFIED then ''STATUS_UNSPECIFIED''
      else if st = STATUS_ACTIVE then ''STATUS_ACTIVE''
      else if st = STATUS_STOPPING then ''STATUS_STOPPING''
      else if st = STATUS_STOPPED then ''STATUS_STOPPED''
      else if st = STATUS_ENDED then ''STATUS_ENDED''
      else int_dec st)"

definition tab :: string where
  "tab = [CHR 0x09]"

definition inspect_text :: "string \<Rightarrow> job_details \<Rightarrow> string" where
  "inspect_text a d =
     ''Job:'' @ tab @ tab @ a @ nl @
     ''Command:'' @ tab @ det_command d @ nl @
     ''Status:'' @ tab @ tab @ pb_status_text (det_status d) @ nl @
     ''ExitCode:'' @ tab @ int_dec (sint (det_exit_code d)) @ nl"

definition inspectCmd :: "('cert, 's) cmd_env \<Rightarrow> string list \<Rightarrow> 's cmd" where
  "inspectCmd C args =
     connected C ''job_id required'' args (\<lambda>a as cl.
       calling (ce_text C) ''failed to inspect: '' (rpc_Inspect cl a) (\<lambda>d. done_with (inspect_text a d)))"

text \<open>The loop of \<^verbatim>\<open>logs\<close>; its error message goes to the standard output.\<close>

fun recv_logs :: "(call_error \<Rightarrow> string) \<Rightarrow> string list \<Rightarrow> stream_end \<Rightarrow> 's cmd" where
  "recv_logs txt_of [] StreamEOF ss = (ExitCode 0, ss)"
| "recv_logs txt_of [] (StreamErr e) ss =
     (ExitCode 1, say (''failed to read logs: '' @ diagMessage txt_of e @ nl) ss)"
| "recv_logs txt_of [] StreamOpen ss = (Hangs, ss)"
| "recv_logs txt_of (d # ds) en ss = recv_logs txt_of ds en (say d ss)"

definition logsCmd :: "('cert, 's) cmd_env \<Rightarrow> bool \<Rightarrow> string list \<Rightarrow> 's cmd" where
  "logsCmd C follow args =
     connected C ''job_id required'' args (\<lambda>a as cl.
       calling (ce_text C) ''failed to get logs: '' (rpc_Logs cl a (Some follow))
         (\<lambda>(ds, en). recv_logs (ce_text C) ds en))"

definition configCmd :: "('cert, 's) cmd_env \<Rightarrow> 's cmd" where
  "configCmd C ss =
     (case client_FindConfig (ce_viper C) (ce_home C) (ss_files ss) (ce_config C) of
        (file, cfg, err) \<Rightarrow>
          if (case err of None \<Rightarrow> False | Some e \<Rightarrow> \<not> errors_Is e ErrNotExist) then (ExitCode 1, ss)
          else case client_SaveConfig (ce_create C) (ce_encode C) file cfg (ss_files ss) of
            (Some e, disk) \<Rightarrow>
              fail_with (''failed to save config file: '' @ error_text e) (ss\<lparr>ss_files := disk\<rparr>)
          | (None, disk) \<Rightarrow> (ExitCode 0, ss\<lparr>ss_files := disk\<rparr>))"

section \<open>The program\<close>

datatype subcommand =
    CmdRun run_flags
  | CmdStop bool
  | CmdRm
  | CmdInspect
  | CmdLogs bool
  | CmdConfig

fun subcommand_run :: "('cert, 's) cmd_env \<Rightarrow> subcommand \<Rightarrow> string list \<Rightarrow> 's cmd" where
  "subcommand_run C (CmdRun fl) args = runCmd C fl args"
| "subcommand_run C (CmdStop force) args = stopCmd C force args"
| "subcommand_run C CmdRm args = rmCmd C args"
| "subcommand_run C CmdInspect args = inspectCmd C args"
| "subcommand_run C (CmdLogs follow) args = logsCmd C follow args"
| "subcommand_run C CmdConfig args = configCmd C"

text \<open>What cobra makes of the command line: an error, or a command with its arguments.\<close>

definition Execute :: "('cert, 's) cmd_env \<Rightarrow> (go_error + subcommand \<times> string list) \<Rightarrow> 's cmd" where
  "Execute C parsed ss =
     (case parsed of
        Inl _ \<Rightarrow> (ExitCode 1, ss)
      | Inr (cmd, args) \<Rightarrow> subcommand_run C cmd args ss)"

end
