(* ===== verification/Cgroup.thy ===== *)
theory Cgroup
  imports Job_Data
begin

text \<open>
  \<^verbatim>\<open>src/pkg/job/cgroup.go\<close> and \<^verbatim>\<open>namespace.go\<close>: the control group of a job, its limit
  files, the block devices and the cgroup mount the limits need, and what the shim process
  does to itself before it runs the command. The text of a wrapped error keeps the file
  name without the quotes of \<^verbatim>\<open>%q\<close>.
\<close>

section \<open>Writing control files\<close>

definition echo :: "os_env \<Rightarrow> string \<Rightarrow> string \<Rightarrow> (world, unit) sm" where
  "echo E txt file w =
     (let msg = ''failed to update cgroup file '' @ file; line = txt @ [newline] in
      case os_do E (SOpenAppend file) w of
        (Inr _, w1) \<Rightarrow>
          sm_finally (sm_wrap msg (os_do E (SAppend file line))) (sm_try (os_do E (SClose file))) w1
      | (Inl _, w1) \<Rightarrow>
          (case os_do E (SOpenCreate file) w1 of
             (Inl e, w2) \<Rightarrow> (Inl (Wrapf msg e), w2)
           | (Inr _, w2) \<Rightarrow>
               sm_finally (sm_wrap msg (os_do E (SOverwrite file line)))
                 (sm_try (os_do E (SClose file))) w2))"

lemma pres_echo [pres]:
  assumes "sm_pres P (os_call E (SOpenAppend f))" and "sm_pres P (os_call E (SOpenCreate f))"
    and "sm_pres P (os_call E (SAppend f (txt @ [newline])))"
    and "sm_pres P (os_call E (SOverwrite f (txt @ [newline])))" and "sm_pres P (os_call E (SClose f))"
  shows "sm_pres P (echo E txt f)"
proof (rule sm_presI)
  fix w assume w: "P w"
  let ?msg = "''failed to update cgroup file '' @ f" and ?line = "txt @ [newline]"
  let ?cl = "sm_try (os_do E (SClose f))"
  have app: "sm_pres P (sm_finally (sm_wrap ?msg (os_do E (SAppend f ?line))) ?cl)"
    and ovw: "sm_pres P (sm_finally (sm_wrap ?msg (os_do E (SOverwrite f ?line))) ?cl)"
    using assms by (auto intro!: pres)
  obtain r1 w1 where a: "os_do E (SOpenAppend f) w = (r1, w1)" by (metis prod.exhaust)
  have w1: "P w1" using sm_presD[OF pres_os_do[OF assms(1)] w] a by simp
  show "P (snd (echo E txt f w))"
  proof (cases r1)
    case (Inr u)
    with a sm_presD[OF app w1] show ?thesis by (simp add: echo_def)
  next
    case (Inl e)
    obtain r2 w2 where b: "os_do E (SOpenCreate f) w1 = (r2, w2)" by (metis prod.exhaust)
    have w2: "P w2" using sm_presD[OF pres_os_do[OF assms(2)] w1] b by simp
    with a b Inl sm_presD[OF ovw w2] show ?thesis by (cases r2) (simp_all add: echo_def)
  qed
qed

definition cgroupName :: "string \<Rightarrow> string" where
  "cgroupName jid = ''job-'' @ jid"

definition removeCgroup :: "os_env \<Rightarrow> unit job_sm" where
  "removeCgroup E = with_job (\<lambda>j. on_world (os_do E (SRemoveAll (cgroupOuter j))))"

definition itoa :: "int \<Rightarrow> string" where
  "itoa x = (if x \<le> 0 then ''max'' else int_dec x)"

section \<open>Block devices and the cgroup mount\<close>

fun block_devs :: "string list \<Rightarrow> go_error + string list" where
  "block_devs [] = Inr []"
| "block_devs (l # ls) =
     (let parts = strings_Fields l in
      if length parts < 6 then Inl (ErrorfQ ''unexpected output of lsblk: '' l)
      else (case block_devs ls of
              Inl e \<Rightarrow> Inl e
            | Inr rt \<Rightarrow> Inr (if parts ! 5 = ''disk'' then parts ! 1 # rt else rt)))"

definition parse_lsblk :: "string \<Rightarrow> go_error + string list" where
  "parse_lsblk out =
     (case scan_lines out of (ls, too_long) \<Rightarrow>
        (case block_devs ls of
           Inl e \<Rightarrow> Inl e
         | Inr rt \<Rightarrow>
             if too_long
             then Inl (Wrapf ''failed to scan block devices'' (Errorf ''bufio.Scanner: token too long''))
             else Inr rt))"

definition listBlockDevs :: "os_env \<Rightarrow> (world, string list) sm" where
  "listBlockDevs E =
     sm_bind (sm_wrap ''failed to enlist block devices'' (os_call E SLsblk))
       (\<lambda>out s. (parse_lsblk out, s))"

fun cgroup2_mount :: "string list \<Rightarrow> string option" where
  "cgroup2_mount [] = None"
| "cgroup2_mount (l # ls) =
     (let parts = strings_Fields l in
      if length parts < 3 then cgroup2_mount ls
      else if parts ! 2 = ''cgroup2'' then Some (parts ! 1)
      else cgroup2_mount ls)"

definition findCgroupMount :: "os_env \<Rightarrow> world \<Rightarrow> (bool \<times> string) \<times> world" where
  "findCgroupMount E w =
     (case os_call E (SReadProc ''/proc/mounts'') w of
        (Inl _, w') \<Rightarrow> ((False, []), w')
      | (Inr txt, w') \<Rightarrow>
          (case cgroup2_mount (fst (scan_lines txt)) of
             None \<Rightarrow> ((False, []), w')
           | Some m \<Rightarrow> ((True, m), w')))"

section \<open>Creating the control group\<close>

text \<open>The path of the outer group, created when no option gave one; says whether it was.\<close>

definition outer_cgroup :: "os_env \<Rightarrow> bool job_sm" where
  "outer_cgroup E = with_job (\<lambda>j.
     if cgroupOuter j = [] then
       sm_bind (\<lambda>s. case findCgroupMount E (snd s) of (r, w) \<Rightarrow> (Inr r, (fst s, w))) (\<lambda>(ok, cgctrl).
         if \<not> ok then sm_err (Errorf ''cgroup2 controller is not mounted'')
         else let newCgPath = path_Join [cgctrl, cgroupName (ID j)] in
           sm_then (sm_wrap ''failed to create cgroup'' (on_world (os_do E (SMkdirAll newCgPath))))
             (sm_then (set_job (\<lambda>j. j\<lparr>cgroupOuter := newCgPath\<rparr>)) (sm_ret True)))
     else sm_ret False)"

definition io_limit :: "os_env \<Rightarrow> job \<Rightarrow> (world, unit) sm" where
  "io_limit E j =
     (if 0 < MaxDiskIOBytes (limits j) then
        sm_bind (sm_wrap ''failed to configure IO limits'' (listBlockDevs E)) (\<lambda>blocks.
          let rate = itoa (MaxDiskIOBytes (limits j)) in
          sm_mapM (\<lambda>b. sm_wrap ''failed to configure IO limits''
              (echo E (b @ '' rbps='' @ rate @ '' wbps='' @ rate) (path_Join [cgroupInner j, ''io.max''])))
            blocks)
      else sm_ret ())"

definition ram_limit :: "os_env \<Rightarrow> job \<Rightarrow> (world, unit) sm" where
  "ram_limit E j =
     (if 0 < MaxRAMBytes (limits j) then
        sm_wrap ''failed to configure RAM limits''
          (echo E (itoa (MaxRAMBytes (limits j))) (path_Join [cgroupInner j, ''memory.max'']))
      else sm_ret ())"

definition cpu_period :: float32 where
  "cpu_period = F32 10000 0"

definition cpu_text :: "float32 \<Rightarrow> string" where
  "cpu_text cpu = f32_fmt4 (f32_mul cpu_period cpu) @ '' '' @ f32_fmt4 cpu_period"

definition cpu_limit :: "os_env \<Rightarrow> job \<Rightarrow> (world, unit) sm" where
  "cpu_limit E j =
     (if f32_pos (CPU (limits j)) then
        sm_wrap ''failed to configure CPU limits''
          (echo E (cpu_text (CPU (limits j))) (path_Join [cgroupInner j, ''cpu.max'']))
      else sm_ret ())"

definition inner_cgroup :: "os_env \<Rightarrow> unit job_sm" where
  "inner_cgroup E =
     sm_then (set_job (\<lambda>j. j\<lparr>cgroupInner := path_Join [cgroupOuter j, ''inner'']\<rparr>))
       (with_job (\<lambda>j. on_world (
          sm_then (sm_wrap ''failed to create cgroup'' (os_do E (SMkdirAll (cgroupInner j))))
         (sm_then (sm_wrap ''failed to setup cgroup''
              (echo E ''+io +cpu +memory'' (path_Join [cgroupOuter j, ''cgroup.subtree_control''])))
         (sm_then (io_limit E j) (sm_then (ram_limit E j) (cpu_limit E j)))))))"

text \<open>
  \<^verbatim>\<open>setupCgroup\<close>: on an error after the outer group was created, a deferred
  \<^verbatim>\<open>os.Remove\<close> tries to remove it.
\<close>

definition setupCgroup :: "os_env \<Rightarrow> unit job_sm" where
  "setupCgroup E =
     sm_bind (outer_cgroup E) (\<lambda>createdCG.
       if createdCG then
         sm_onerr (inner_cgroup E)
           (with_job (\<lambda>j. sm_try (on_world (os_do E (SRemove (cgroupOuter j))))))
       else inner_cgroup E)"

section \<open>Inside the shim process\<close>

definition remountProc :: "os_env \<Rightarrow> (world, unit) sm" where
  "remountProc E = sm_then (os_do E (SUnmount ''/proc'')) (os_do E (SMount ''/proc''))"

definition addPidToCgroup :: "os_env \<Rightarrow> int \<Rightarrow> string \<Rightarrow> (world, unit) sm" where
  "addPidToCgroup E pid cgPath =
     sm_wrap ''failed to add the pid to the new group''
       (echo E (int_dec pid) (path_Join [cgPath, ''cgroup.procs'']))"

definition setupIDs :: "os_env \<Rightarrow> exec_identity \<Rightarrow> (world, unit) sm" where
  "setupIDs E i =
     sm_then (os_do E (SSetgid (GID i)))
       (sm_then (os_do E SSetgroups) (os_do E (SSetuid (UID i))))"

definition SetupProc :: "os_env \<Rightarrow> string \<Rightarrow> exec_identity \<Rightarrow> (world, unit) sm" where
  "SetupProc E cgPath identity =
     sm_then (remountProc E)
       (sm_then (addPidToCgroup E (os_pid E) cgPath) (setupIDs E identity))"

end
