(* ===== verification/Job.thy ===== *)
theory Job
  imports Cgroup
begin

text \<open>
  Creation of a job: \<^verbatim>\<open>New\<close>, \<^verbatim>\<open>initJobDirs\<close>, \<^verbatim>\<open>rmJobDirs\<close> and \<^verbatim>\<open>cmdArgs\<close> of
  \<^verbatim>\<open>src/pkg/job/job.go\<close>. The two ends of the pipe are the handles \<open>pipe_r\<close> and
  \<open>pipe_w\<close>; the data read from it is what the child process wrote before it closed its end.
\<close>

section \<open>Directories\<close>

definition rmJobDirs :: "os_env \<Rightarrow> unit job_sm" where
  "rmJobDirs E = with_job (\<lambda>j. on_world (os_do E (SRemoveAll (jobDir j))))"

definition initJobDirs :: "os_env \<Rightarrow> unit job_sm" where
  "initJobDirs E = with_job (\<lambda>j.
     let jd = path_Join [baseJobDir j, ID j];
         out = path_Join [jd, ''out''];
         wd = path_Join [jd, ''workDir''];
         undo = sm_try (os_do E (SRemoveAll jd))
     in sm_then (on_world
          (sm_then (sm_try (os_do E (SRemoveAll jd)))
          (sm_then (os_do E (SMkdirAll out))
          (sm_then (sm_onerr (os_do E (SMkdirAll wd)) undo)
                   (sm_onerr (os_do E (SChown wd (UID (ids j)) (GID (ids j)))) undo)))))
        (set_job (\<lambda>j. j\<lparr>jobDir := jd, workDir := wd, outFilePath := path_Join [out, ''output'']\<rparr>)))"

section \<open>The command line of the shim\<close>

definition cmdArgs :: "job \<Rightarrow> string list" where
  "cmdArgs j =
     [''--mode=shim'',
      ''--cmd='' @ Command j,
      ''--cgroup='' @ cgroupInner j,
      ''--uid='' @ int_dec (UID (ids j)),
      ''--gid='' @ int_dec (GID (ids j))]
     @ (if job_Args j \<noteq> [] then ''--'' # job_Args j else [])"

section \<open>New\<close>

definition pipe_r :: string where "pipe_r = ''pipe:r''"
definition pipe_w :: string where "pipe_w = ''pipe:w''"

text \<open>The table \<open>t\<close> is \<^verbatim>\<open>j.syscalls\<close>.\<close>

definition spawn :: "sys_fun \<Rightarrow> os_env \<Rightarrow> unit job_sm" where
  "spawn t E = with_job (\<lambda>j.
     let c = \<lparr>cmd_Path = shimPath j, cmd_Args = shimPath j # cmdArgs j, cmd_Dir = workDir j,
              ProcessState = None\<rparr>
     in sm_then (set_job (\<lambda>j. j\<lparr>job_cmd := c\<rparr>))
        (on_world
          (sm_then (sf_start t c)
          (sm_then (sm_try (os_do E (SClose pipe_w)))
          (sm_bind (os_call E SReadPipe) (\<lambda>childMsg.
             if childMsg = [] then sm_ret ()
             else sm_err (ErrorfQ ''failed to start the process: '' childMsg)))))))"

definition launch :: "os_env \<Rightarrow> unit job_sm" where
  "launch E =
     sm_then (setupCgroup E)
       (sm_then (on_world (os_do E SPipe))
         (sm_finally (spawn (defSysFun E) E) (sm_try (on_world (os_do E (SClose pipe_r))))))"

text \<open>
  The part of \<^verbatim>\<open>New\<close> that runs under its deferred cleanup: on an error the output
  file is closed, if it was opened, and the job directories are removed. The second half
  of the cleanup (\<^verbatim>\<open>if cgPath != ""\<close>) has no effect, since nothing assigns \<^verbatim>\<open>cgPath\<close>.
\<close>

definition guarded_start :: "os_env \<Rightarrow> unit job_sm" where
  "guarded_start E = with_job (\<lambda>j.
     sm_then
       (sm_onerr (on_world (os_do E (SCreate (outFilePath j)))) (sm_try (rmJobDirs E)))
       (sm_onerr (launch E)
          (sm_then (sm_try (on_world (os_do E (SClose (outFilePath j))))) (sm_try (rmJobDirs E)))))"

definition job_New :: "os_env \<Rightarrow> string \<Rightarrow> string list \<Rightarrow> job_option list \<Rightarrow> (world, job) sm" where
  "job_New E cmd args opts w =
     (let j0 = new_job (os_xid E (trace w)) (os_uid E) (os_gid E);
          j1 = (apply_options opts j0)\<lparr>Command := cmd, job_Args := args\<rparr>
      in case sm_wrap ''failed to create job'' (initJobDirs E) (j1, w) of
           (Inl e, s) \<Rightarrow> (Inl e, snd s)
         | (Inr _, (j2, w2)) \<Rightarrow>
             (case guarded_start E (j2\<lparr>job_handler := activeHandler\<rparr>, w2) of
                (Inl e, s) \<Rightarrow> (Inl e, snd s)
              | (Inr _, (j3, w3)) \<Rightarrow> (Inr j3, w3)))"

definition createJob :: "os_env \<Rightarrow> string \<Rightarrow> string list \<Rightarrow> exec_limits \<Rightarrow> exec_identity \<Rightarrow> (world, job) sm" where
  "createJob E cmd args lim i =
     job_New E cmd args
       [opt_CPU (CPU lim), opt_Mem (MaxRAMBytes lim), opt_IO (MaxDiskIOBytes lim),
        opt_UID (UID i), opt_GID (GID i)]"

end
