(* ===== verification/Job_States.thy ===== *)
theory Job_States
  imports Job
begin

text \<open>
  The state of a running job: the handler methods of \<^verbatim>\<open>state_active.go\<close>,
  \<^verbatim>\<open>state_ended.go\<close>, \<^verbatim>\<open>state_stopping.go\<close>, \<^verbatim>\<open>state_stopped.go\<close> and
  \<^verbatim>\<open>state_zombie.go\<close>, and the methods of \<^verbatim>\<open>job.go\<close> that call them under the mutex.
  Each definition is one critical section.
\<close>

section \<open>Timers, signals, channels\<close>

text \<open>\<^verbatim>\<open>time.AfterFunc(to, ...)\<close> and the assignment of the result to \<^verbatim>\<open>j.stopTimer\<close>.\<close>

definition arm_timer :: "int \<Rightarrow> job \<Rightarrow> job" where
  "arm_timer d j =
     j\<lparr>armed := (nextTimer j, d) # armed j, stopTimer := Some (nextTimer j),
       nextTimer := Suc (nextTimer j)\<rparr>"

definition disarm :: "nat \<Rightarrow> job \<Rightarrow> job" where
  "disarm t j = j\<lparr>armed := List.filter (\<lambda>(i, _). i \<noteq> t) (armed j)\<rparr>"

text \<open>\<^verbatim>\<open>if j.stopTimer != nil { j.stopTimer.Stop() }\<close>\<close>

definition stop_timer :: "job \<Rightarrow> job" where
  "stop_timer j = (case stopTimer j of None \<Rightarrow> j | Some t \<Rightarrow> disarm t j)"

definition close_done :: "job \<Rightarrow> job outcome" where
  "close_done j =
     (if done_closed j then Panic ''close of closed channel'' else Ret (j\<lparr>done_closed := True\<rparr>))"

definition sendStopSignal :: "os_env \<Rightarrow> bool \<Rightarrow> unit job_sm" where
  "sendStopSignal E graceful = with_job (\<lambda>j.
     on_world (sf_signal (defSysFun E) (job_cmd j) (if graceful then SIGTERM else SIGKILL)))"

section \<open>Log readers\<close>

text \<open>
  An open reader of the output: its file and its offset. The pointers it holds to the wait
  group, the counter and the channel are those of the job.
\<close>

record output_reader =
  rd_path :: string
  rd_pos :: nat

definition logsReader :: "os_env \<Rightarrow> output_reader job_sm" where
  "logsReader E = with_job (\<lambda>j.
     sm_then (on_world (sm_wrap ''failed to get output'' (os_do E (SOpenRead (outFilePath j)))))
       (sm_then (set_job (\<lambda>j. j\<lparr>outLock := outLock j + 1\<rparr>))
         (sm_ret \<lparr>rd_path = outFilePath j, rd_pos = 0\<rparr>)))"

text \<open>\<^verbatim>\<open>outputReader.Close\<close>: the deferred \<^verbatim>\<open>Done\<close> panics below zero.\<close>

definition reader_Close ::
  "os_env \<Rightarrow> output_reader \<Rightarrow> job \<times> world \<Rightarrow> (go_error + unit) outcome \<times> job \<times> world" where
  "reader_Close E r s =
     (let j = (fst s)\<lparr>logReaders := logReaders (fst s) - 1\<rparr> in
      case os_do E (SClose (rd_path r)) (snd s) of (res, w) \<Rightarrow>
        let j' = j\<lparr>outLock := outLock j - 1\<rparr> in
        (if outLock j' < 0 then Panic ''sync: negative WaitGroup counter'' else Ret res, (j', w)))"

definition doCleanup ::
  "os_env \<Rightarrow> job \<times> world \<Rightarrow> (go_error + unit) outcome \<times> job \<times> world" where
  "doCleanup E s =
     (if outLock (fst s) \<noteq> 0 then (Block, s)
      else case os_do E (SRemoveAll (jobDir (fst s))) (snd s) of (r, w) \<Rightarrow> (Ret r, (fst s, w)))"

section \<open>The handlers\<close>

text \<open>
  The interface \<^verbatim>\<open>stateHandler\<close> and its five implementations, one for each file. \<^verbatim>\<open>exited\<close>
  returns the next handler and may panic when it closes the channel a second time.
\<close>

record handler_methods =
  hm_status :: status
  hm_gracefulStop :: "int \<Rightarrow> unit job_sm"
  hm_forceStop :: "unit job_sm"
  hm_exited :: "job \<Rightarrow> (handler \<times> job) outcome"
  hm_cleanup :: "job \<times> world \<Rightarrow> (go_error + unit) outcome \<times> job \<times> world"
  hm_logs :: "output_reader job_sm"

text \<open>\<^verbatim>\<open>close(j.done); return h\<close>\<close>

definition closing :: "handler \<Rightarrow> job \<Rightarrow> (handler \<times> job) outcome" where
  "closing h j =
     (case close_done j of Ret j' \<Rightarrow> Ret (h, j') | Panic m \<Rightarrow> Panic m | Block \<Rightarrow> Block)"

definition active_methods :: "os_env \<Rightarrow> handler_methods" where
  "active_methods E =
     \<lparr>hm_status = StatusActive,
      hm_gracefulStop = (\<lambda>d. sm_then (set_job (arm_timer d)) (sendStopSignal E True)),
      hm_forceStop = sendStopSignal E False,
      hm_exited = closing endedHandler,
      hm_cleanup = doCleanup E,
      hm_logs = logsReader E\<rparr>"

definition ended_methods :: "os_env \<Rightarrow> handler_methods" where
  "ended_methods E =
     \<lparr>hm_status = StatusEnded,
      hm_gracefulStop = (\<lambda>d. sm_err (Errorf ''job already ended'')),
      hm_forceStop = sm_err (Errorf ''job already ended''),
      hm_exited = (\<lambda>j. Ret (endedHandler, j)),
      hm_cleanup = doCleanup E,
      hm_logs = logsReader E\<rparr>"

definition stopped_methods :: "os_env \<Rightarrow> handler_methods" where
  "stopped_methods E =
     \<lparr>hm_status = StatusStopped,
      hm_gracefulStop = (\<lambda>d. sm_err (Errorf ''job is already stopped'')),
      hm_forceStop = sm_err (Errorf ''job is already stopped''),
      hm_exited = closing stoppedHandler,
      hm_cleanup = doCleanup E,
      hm_logs = logsReader E\<rparr>"

definition stopping_methods :: "os_env \<Rightarrow> handler_methods" where
  "stopping_methods E =
     \<lparr>hm_status = StatusStopping,
      hm_gracefulStop = (\<lambda>d. sm_err (Errorf ''job already stopping'')),
      hm_forceStop = sm_then (set_job stop_timer) (sendStopSignal E False),
      hm_exited = (\<lambda>j. closing stoppedHandler (stop_timer j)),
      hm_cleanup = doCleanup E,
      hm_logs = logsReader E\<rparr>"

definition zombie_methods :: "handler_methods" where
  "zombie_methods =
     \<lparr>hm_status = StatusRemoved,
      hm_gracefulStop = (\<lambda>d. sm_err (Errorf ''job is removed'')),
      hm_forceStop = sm_err (Errorf ''job is removed''),
      hm_exited = (\<lambda>j. Ret (zombieHandler, j)),
      hm_cleanup = (\<lambda>s. (Ret (Inl (Errorf ''job is removed'')), s)),
      hm_logs = sm_err (Errorf ''job is removed'')\<rparr>"

text \<open>Dynamic dispatch on the handler of a job.\<close>

fun methods_of :: "os_env \<Rightarrow> handler \<Rightarrow> handler_methods" where
  "methods_of E activeHandler = active_methods E"
| "methods_of E endedHandler = ended_methods E"
| "methods_of E stoppedHandler = stopped_methods E"
| "methods_of E stoppingHandler = stopping_methods E"
| "methods_of E zombieHandler = zombie_methods"

text \<open>The status does not depend on the environment.\<close>

fun h_status :: "handler \<Rightarrow> status" where
  "h_status activeHandler = StatusActive"
| "h_status endedHandler = StatusEnded"
| "h_status stoppedHandler = StatusStopped"
| "h_status stoppingHandler = StatusStopping"
| "h_status zombieHandler = StatusRemoved"

lemma hm_status_of [simp]: "hm_status (methods_of E h) = h_status h"
  by (cases h) (simp_all add: active_methods_def ended_methods_def stopped_methods_def
      stopping_methods_def zombie_methods_def)

definition h_gracefulStop :: "os_env \<Rightarrow> handler \<Rightarrow> int \<Rightarrow> unit job_sm" where
  "h_gracefulStop E h = hm_gracefulStop (methods_of E h)"

definition h_forceStop :: "os_env \<Rightarrow> handler \<Rightarrow> unit job_sm" where
  "h_forceStop E h = hm_forceStop (methods_of E h)"

definition h_exited :: "os_env \<Rightarrow> handler \<Rightarrow> job \<Rightarrow> (handler \<times> job) outcome" where
  "h_exited E h = hm_exited (methods_of E h)"

definition h_cleanup ::
  "os_env \<Rightarrow> handler \<Rightarrow> job \<times> world \<Rightarrow> (go_error + unit) outcome \<times> job \<times> world" where
  "h_cleanup E h = hm_cleanup (methods_of E h)"

definition h_logs :: "os_env \<Rightarrow> handler \<Rightarrow> output_reader job_sm" where
  "h_logs E h = hm_logs (methods_of E h)"

lemmas method_tables = active_methods_def ended_methods_def stopped_methods_def
  stopping_methods_def zombie_methods_def

lemma h_gracefulStop_simps [simp]:
  "h_gracefulStop E activeHandler d = sm_then (set_job (arm_timer d)) (sendStopSignal E True)"
  "h_gracefulStop E endedHandler d = sm_err (Errorf ''job already ended'')"
  "h_gracefulStop E stoppedHandler d = sm_err (Errorf ''job is already stopped'')"
  "h_gracefulStop E stoppingHandler d = sm_err (Errorf ''job already stopping'')"
  "h_gracefulStop E zombieHandler d = sm_err (Errorf ''job is removed'')"
  by (simp_all add: h_gracefulStop_def method_tables)

lemma h_forceStop_simps [simp]:
  "h_forceStop E activeHandler = sendStopSignal E False"
  "h_forceStop E endedHandler = sm_err (Errorf ''job already ended'')"
  "h_forceStop E stoppedHandler = sm_err (Errorf ''job is already stopped'')"
  "h_forceStop E stoppingHandler = sm_then (set_job stop_timer) (sendStopSignal E False)"
  "h_forceStop E zombieHandler = sm_err (Errorf ''job is removed'')"
  by (simp_all add: h_forceStop_def method_tables)

lemma h_exited_simps [simp]:
  "h_exited E activeHandler j = closing endedHandler j"
  "h_exited E endedHandler j = Ret (endedHandler, j)"
  "h_exited E stoppedHandler j = closing stoppedHandler j"
  "h_exited E stoppingHandler j = closing stoppedHandler (stop_timer j)"
  "h_exited E zombieHandler j = Ret (zombieHandler, j)"
  by (simp_all add: h_exited_def method_tables)

lemma h_cleanup_simps [simp]:
  "h_cleanup E activeHandler s = doCleanup E s"
  "h_cleanup E endedHandler s = doCleanup E s"
  "h_cleanup E stoppedHandler s = doCleanup E s"
  "h_cleanup E stoppingHandler s = doCleanup E s"
  "h_cleanup E zombieHandler s = (Ret (Inl (Errorf ''job is removed'')), s)"
  by (simp_all add: h_cleanup_def method_tables)

lemma h_logs_simps [simp]:
  "h_logs E activeHandler = logsReader E"
  "h_logs E endedHandler = logsReader E"
  "h_logs E stoppedHandler = logsReader E"
  "h_logs E stoppingHandler = logsReader E"
  "h_logs E zombieHandler = sm_err (Errorf ''job is removed'')"
  by (simp_all add: h_logs_def method_tables)

section \<open>The methods of the job\<close>

definition job_ExitCode :: "job \<Rightarrow> int \<times> bool" where
  "job_ExitCode j =
     (case ProcessState (job_cmd j) of Some c \<Rightarrow> (c, True) | None \<Rightarrow> (0, False))"

text \<open>\<^verbatim>\<open>(*ProcessState).ExitCode()\<close> of the standard library: -1 on a nil receiver.\<close>

definition state_ExitCode :: "int option \<Rightarrow> int" where
  "state_ExitCode ps = (case ps of Some c \<Rightarrow> c | None \<Rightarrow> - 1)"

definition job_Status :: "job \<Rightarrow> status \<times> int" where
  "job_Status j =
     (let st = h_status (job_handler j) in
      if st = StatusActive \<or> st = StatusStopping then (st, 0)
      else (st, state_ExitCode (ProcessState (job_cmd j))))"

definition Completed :: "job \<Rightarrow> bool" where
  "Completed j =
     (let st = h_status (job_handler j) in st \<noteq> StatusActive \<and> st \<noteq> StatusStopping)"

definition setHandler :: "handler \<Rightarrow> job \<Rightarrow> job" where
  "setHandler h j = j\<lparr>job_handler := h\<rparr>"

definition InitStop :: "os_env \<Rightarrow> int \<Rightarrow> unit job_sm" where
  "InitStop E d =
     sm_then (with_job (\<lambda>j. h_gracefulStop E (job_handler j) d)) (set_job (setHandler stoppingHandler))"

definition job_Stop :: "os_env \<Rightarrow> unit job_sm" where
  "job_Stop E =
     sm_then (with_job (\<lambda>j. h_forceStop E (job_handler j))) (set_job (setHandler stoppedHandler))"

definition job_Cleanup ::
  "os_env \<Rightarrow> job \<times> world \<Rightarrow> (go_error + unit) outcome \<times> job \<times> world" where
  "job_Cleanup E s =
     (case h_cleanup E (job_handler (fst s)) s of
        (Ret (Inr u), (j, w)) \<Rightarrow> (Ret (Inr u), (setHandler zombieHandler j, w))
      | r \<Rightarrow> r)"

definition job_Logs :: "os_env \<Rightarrow> output_reader job_sm" where
  "job_Logs E =
     sm_bind (with_job (\<lambda>j. h_logs E (job_handler j)))
       (\<lambda>r. sm_then (set_job (\<lambda>j. j\<lparr>logReaders := logReaders j + 1\<rparr>)) (sm_ret r))"

definition job_exited :: "os_env \<Rightarrow> job \<times> world \<Rightarrow> unit outcome \<times> job \<times> world" where
  "job_exited E s =
     (let j0 = fst s;
          j1 = (case ProcessState (job_cmd j0) of None \<Rightarrow> j0 | Some c \<Rightarrow> j0\<lparr>exitCode := c\<rparr>)
      in case sm_try (removeCgroup E) (j1, snd s) of (_, (j2, w)) \<Rightarrow>
           (case h_exited E (job_handler j2) j2 of
              Ret (h, j3) \<Rightarrow> (Ret (), (setHandler h j3, w))
            | Panic m \<Rightarrow> (Panic m, (j2, w))
            | Block \<Rightarrow> (Block, (j2, w))))"

definition job_Wait :: "job \<Rightarrow> unit outcome" where
  "job_Wait j = (if done_closed j then Ret () else Block)"

text \<open>
  The goroutine of a timer that has fired runs \<^verbatim>\<open>_ = j.Stop()\<close>.
\<close>

definition timer_stop :: "os_env \<Rightarrow> unit job_sm" where
  "timer_stop E = sm_try (job_Stop E)"

section \<open>The order of the states\<close>

text \<open>
  A job moves up in this order only: active, then stopping or ended or stopped, then
  removed. An ended job and a stopped one are not comparable.
\<close>

instantiation handler :: order
begin

definition less_eq_handler :: "handler \<Rightarrow> handler \<Rightarrow> bool" where
  "h \<le> h' \<longleftrightarrow>
     h = h' \<or> h = activeHandler \<or> h' = zombieHandler \<or> (h = stoppingHandler \<and> h' = stoppedHandler)"

definition less_handler :: "handler \<Rightarrow> handler \<Rightarrow> bool" where
  "h < h' \<longleftrightarrow> h \<le> h' \<and> \<not> h' \<le> (h :: handler)"

instance
  by standard (auto simp: less_eq_handler_def less_handler_def)

end

lemma handler_bounds [simp]: "activeHandler \<le> h" "h \<le> zombieHandler" "stoppingHandler \<le> stoppedHandler"
  by (simp_all add: less_eq_handler_def)

section \<open>The methods, state by state\<close>

definition running :: "handler \<Rightarrow> bool" where
  "running h \<longleftrightarrow> h = activeHandler \<or> h = stoppingHandler"

lemma running_simps [simp]:
  "running activeHandler" "running stoppingHandler" "\<not> running endedHandler"
  "\<not> running stoppedHandler" "\<not> running zombieHandler"
  by (simp_all add: running_def)

lemma Completed_iff [simp]: "Completed j \<longleftrightarrow> \<not> running (job_handler j)"
  by (cases "job_handler j") (simp_all add: Completed_def status_defs)

fun not_running_error :: "handler \<Rightarrow> go_error" where
  "not_running_error endedHandler = Errorf ''job already ended''"
| "not_running_error stoppedHandler = Errorf ''job is already stopped''"
| "not_running_error stoppingHandler = Errorf ''job already stopping''"
| "not_running_error _ = Errorf ''job is removed''"

lemma setHandler_same [simp]: "setHandler h (setHandler h' j) = setHandler h j"
  by (simp add: setHandler_def)

lemma InitStop_active:
  assumes "job_handler j = activeHandler"
  shows "InitStop E d (j, w) =
    (case os_do E (SSignal SIGTERM) w of
       (Inl e, w') \<Rightarrow> (Inl e, (arm_timer d j, w'))
     | (Inr _, w') \<Rightarrow> (Inr (), (setHandler stoppingHandler (arm_timer d j), w')))"
  using assms
  by (simp add: InitStop_def sendStopSignal_def sm_defs job_sm_defs split: prod.splits sum.splits)

lemma InitStop_other:
  "job_handler j \<noteq> activeHandler \<Longrightarrow>
     InitStop E d (j, w) = (Inl (not_running_error (job_handler j)), (j, w))"
  by (cases "job_handler j") (simp_all add: InitStop_def sm_defs job_sm_defs)

definition before_kill :: "job \<Rightarrow> job" where
  "before_kill j = (if job_handler j = stoppingHandler then stop_timer j else j)"

lemma job_Stop_running:
  assumes "running (job_handler j)"
  shows "job_Stop E (j, w) =
    (case os_do E (SSignal SIGKILL) w of
       (Inl e, w') \<Rightarrow> (Inl e, (before_kill j, w'))
     | (Inr _, w') \<Rightarrow> (Inr (), (setHandler stoppedHandler (before_kill j), w')))"
  using assms
  by (cases "job_handler j")
    (simp_all add: job_Stop_def sendStopSignal_def before_kill_def sm_defs job_sm_defs
      split: prod.splits sum.splits)

lemma job_Stop_other:
  "\<not> running (job_handler j) \<Longrightarrow>
     job_Stop E (j, w) = (Inl (not_running_error (job_handler j)), (j, w))"
  by (cases "job_handler j") (simp_all add: job_Stop_def sm_defs job_sm_defs)

lemma job_Logs_eq:
  "job_Logs E (j, w) =
    (if job_handler j = zombieHandler then (Inl (Errorf ''job is removed''), (j, w))
     else case os_do E (SOpenRead (outFilePath j)) w of
       (Inl e, w') \<Rightarrow> (Inl (Wrapf ''failed to get output'' e), (j, w'))
     | (Inr _, w') \<Rightarrow>
         (Inr \<lparr>rd_path = outFilePath j, rd_pos = 0\<rparr>,
          (j\<lparr>outLock := outLock j + 1, logReaders := logReaders j + 1\<rparr>, w')))"
  by (cases "job_handler j")
    (simp_all add: job_Logs_def logsReader_def sm_defs job_sm_defs split: prod.splits sum.splits)

lemma job_Cleanup_eq:
  "job_Cleanup E (j, w) =
    (if job_handler j = zombieHandler then (Ret (Inl (Errorf ''job is removed'')), (j, w))
     else if outLock j \<noteq> 0 then (Block, (j, w))
     else case os_do E (SRemoveAll (jobDir j)) w of
       (Inl e, w') \<Rightarrow> (Ret (Inl e), (j, w'))
     | (Inr _, w') \<Rightarrow> (Ret (Inr ()), (setHandler zombieHandler j, w')))"
  by (cases "job_handler j")
    (simp_all add: job_Cleanup_def doCleanup_def split: prod.splits sum.splits)

definition record_exit :: "job \<Rightarrow> job" where
  "record_exit j =
     (case ProcessState (job_cmd j) of None \<Rightarrow> j | Some c \<Rightarrow> j\<lparr>exitCode := c\<rparr>)"

fun exited_handler :: "handler \<Rightarrow> handler" where
  "exited_handler activeHandler = endedHandler"
| "exited_handler stoppingHandler = stoppedHandler"
| "exited_handler h = h"

definition closes_done :: "handler \<Rightarrow> bool" where
  "closes_done h \<longleftrightarrow> h \<in> {activeHandler, stoppingHandler, stoppedHandler}"

lemma job_exited_eq:
  "job_exited E (j, w) =
    (let j1 = record_exit j; w' = snd (os_call E (SRemoveAll (cgroupOuter j)) w);
         h = job_handler j; j2 = before_kill j1
     in if closes_done h then
          (if done_closed j then (Panic ''close of closed channel'', (j1, w'))
           else (Ret (), (setHandler (exited_handler h) (j2\<lparr>done_closed := True\<rparr>), w')))
        else (Ret (), (j1, w')))"
proof -
  have st: "done_closed (stop_timer k) = done_closed k" for k
    by (simp add: stop_timer_def disarm_def split: option.splits)
  have re: "job_handler (record_exit j) = job_handler j" "done_closed (record_exit j) = done_closed j"
    "cgroupOuter (record_exit j) = cgroupOuter j"
    by (simp_all add: record_exit_def split: option.splits)
  have rm: "sm_try (removeCgroup E) (record_exit j, w) =
      (Inr (), (record_exit j, snd (os_call E (SRemoveAll (cgroupOuter j)) w)))"
    using re by (simp add: removeCgroup_def sm_try_def with_job_def)
  have zh: "setHandler zombieHandler k = k" if "job_handler k = zombieHandler" for k :: job
    using that by (cases k) (simp add: setHandler_def)
  have eh: "setHandler endedHandler k = k" if "job_handler k = endedHandler" for k :: job
    using that by (cases k) (simp add: setHandler_def)
  show ?thesis
    unfolding job_exited_def fst_conv snd_conv record_exit_def[symmetric] Let_def rm
    using re st zh[of "record_exit j"] eh[of "record_exit j"]
    by (cases "job_handler j") (simp_all add: closing_def close_done_def closes_done_def before_kill_def)
qed

text \<open>Fields no timer operation touches.\<close>

lemma stop_timer_fields [simp]:
  "job_handler (stop_timer j) = job_handler j" "outLock (stop_timer j) = outLock j"
  "logReaders (stop_timer j) = logReaders j" "done_closed (stop_timer j) = done_closed j"
  "job_cmd (stop_timer j) = job_cmd j" "jobDir (stop_timer j) = jobDir j"
  "outFilePath (stop_timer j) = outFilePath j" "ID (stop_timer j) = ID j"
  "stopTimer (stop_timer j) = stopTimer j" "nextTimer (stop_timer j) = nextTimer j"
  "cgroupOuter (stop_timer j) = cgroupOuter j" "exitCode (stop_timer j) = exitCode j"
  by (simp_all add: stop_timer_def disarm_def split: option.splits)

lemma before_kill_fields [simp]:
  "job_handler (before_kill j) = job_handler j" "outLock (before_kill j) = outLock j"
  "logReaders (before_kill j) = logReaders j" "done_closed (before_kill j) = done_closed j"
  "job_cmd (before_kill j) = job_cmd j" "jobDir (before_kill j) = jobDir j"
  "outFilePath (before_kill j) = outFilePath j" "ID (before_kill j) = ID j"
  "stopTimer (before_kill j) = stopTimer j" "nextTimer (before_kill j) = nextTimer j"
  "cgroupOuter (before_kill j) = cgroupOuter j" "exitCode (before_kill j) = exitCode j"
  by (simp_all add: before_kill_def)

lemma arm_timer_fields [simp]:
  "job_handler (arm_timer d j) = job_handler j" "outLock (arm_timer d j) = outLock j"
  "logReaders (arm_timer d j) = logReaders j" "done_closed (arm_timer d j) = done_closed j"
  "job_cmd (arm_timer d j) = job_cmd j" "jobDir (arm_timer d j) = jobDir j"
  "outFilePath (arm_timer d j) = outFilePath j" "ID (arm_timer d j) = ID j"
  "cgroupOuter (arm_timer d j) = cgroupOuter j" "exitCode (arm_timer d j) = exitCode j"
  by (simp_all add: arm_timer_def)

lemma record_exit_fields [simp]:
  "job_handler (record_exit j) = job_handler j" "outLock (record_exit j) = outLock j"
  "logReaders (record_exit j) = logReaders j" "done_closed (record_exit j) = done_closed j"
  "job_cmd (record_exit j) = job_cmd j" "jobDir (record_exit j) = jobDir j"
  "outFilePath (record_exit j) = outFilePath j" "ID (record_exit j) = ID j"
  "stopTimer (record_exit j) = stopTimer j" "nextTimer (record_exit j) = nextTimer j"
  "armed (record_exit j) = armed j" "cgroupOuter (record_exit j) = cgroupOuter j"
  by (simp_all add: record_exit_def split: option.splits)

lemma setHandler_fields [simp]:
  "job_handler (setHandler h j) = h" "outLock (setHandler h j) = outLock j"
  "logReaders (setHandler h j) = logReaders j" "done_closed (setHandler h j) = done_closed j"
  "job_cmd (setHandler h j) = job_cmd j" "jobDir (setHandler h j) = jobDir j"
  "outFilePath (setHandler h j) = outFilePath j" "ID (setHandler h j) = ID j"
  "stopTimer (setHandler h j) = stopTimer j" "nextTimer (setHandler h j) = nextTimer j"
  "armed (setHandler h j) = armed j" "cgroupOuter (setHandler h j) = cgroupOuter j"
  "exitCode (setHandler h j) = exitCode j"
  by (simp_all add: setHandler_def)

lemma disarm_fields [simp]:
  "job_handler (disarm t j) = job_handler j" "outLock (disarm t j) = outLock j"
  "logReaders (disarm t j) = logReaders j" "done_closed (disarm t j) = done_closed j"
  "job_cmd (disarm t j) = job_cmd j" "jobDir (disarm t j) = jobDir j"
  "outFilePath (disarm t j) = outFilePath j" "ID (disarm t j) = ID j"
  by (simp_all add: disarm_def)

lemmas job_method_eqs = InitStop_active InitStop_other job_Stop_running job_Stop_other
  job_Logs_eq job_Cleanup_eq job_exited_eq

section \<open>The contract of a handler\<close>

text \<open>
  What the methods of a job may rely on, whichever handler they call: a stop changes nothing
  but timers, the report of the end leads to a later state in which the process does not
  run, it does not panic while the channel is open, and a successful clean-up has no reader.
\<close>

locale state_handler =
  fixes m :: handler_methods and h :: handler
  assumes status: "hm_status m = h_status h"
    and graceful_keeps: "hm_gracefulStop m d (j, w) = (r, (j', w')) \<Longrightarrow>
      job_handler j' = job_handler j \<and> outLock j' = outLock j \<and> done_closed j' = done_closed j"
    and force_keeps: "hm_forceStop m (j, w) = (r', (j', w')) \<Longrightarrow>
      job_handler j' = job_handler j \<and> outLock j' = outLock j \<and> done_closed j' = done_closed j"
    and exited_later: "hm_exited m j = Ret (h', j') \<Longrightarrow> h \<le> h' \<and> \<not> running h'"
    and exited_returns: "\<not> done_closed j \<Longrightarrow> returns (hm_exited m j)"
    and cleanup_free: "hm_cleanup m (j, w) = (Ret (Inr ()), (j', w')) \<Longrightarrow> j' = j \<and> outLock j = 0"
    and stop_needs_process: "\<not> running h \<Longrightarrow> isl (fst (hm_forceStop m s)) \<and> snd (hm_forceStop m s) = s"
begin

text \<open>The end is reported once: afterwards the job is not running, and reporting is stable.\<close>

lemma exited_ends:
  assumes "\<not> done_closed j"
  obtains h' j' where "hm_exited m j = Ret (h', j')" "h \<le> h'" "\<not> running h'"
  using exited_returns[OF assms] exited_later[of j]
  by (cases "hm_exited m j") (auto intro: that)

lemma completed_iff: "(hm_status m = StatusActive \<or> hm_status m = StatusStopping) \<longleftrightarrow> running h"
  by (cases h) (simp_all add: status status_defs)

end

lemma closing_cases:
  "closing h j = (if done_closed j then Panic ''close of closed channel'' else Ret (h, j\<lparr>done_closed := True\<rparr>))"
  by (simp add: closing_def close_done_def)

lemma sendStopSignal_job: "sendStopSignal E g (j, w) = (r, (j', w')) \<Longrightarrow> j' = j"
  by (auto simp: sendStopSignal_def job_sm_defs split: prod.splits)

lemma doCleanup_free: "doCleanup E (j, w) = (Ret (Inr ()), (j', w')) \<Longrightarrow> j' = j \<and> outLock j = 0"
  by (auto simp: doCleanup_def split: if_splits prod.splits)

lemmas handler_contract = method_tables closing_cases sm_defs set_job_def

interpretation active: state_handler "active_methods E" activeHandler for E
  by unfold_locales
    (auto simp: handler_contract dest!: sendStopSignal_job doCleanup_free split: if_splits)

interpretation ended: state_handler "ended_methods E" endedHandler for E
  by unfold_locales (auto simp: handler_contract dest!: doCleanup_free)

interpretation stopped: state_handler "stopped_methods E" stoppedHandler for E
  by unfold_locales (auto simp: handler_contract dest!: doCleanup_free split: if_splits)

interpretation stopping: state_handler "stopping_methods E" stoppingHandler for E
  by unfold_locales
    (auto simp: handler_contract dest!: sendStopSignal_job doCleanup_free split: if_splits)

interpretation zombie: state_handler zombie_methods zombieHandler
  by unfold_locales (auto simp: handler_contract)

text \<open>Dynamic dispatch meets the contract.\<close>

lemma dispatch: "state_handler (methods_of E h) h"
  by (cases h) (simp_all add: active.state_handler_axioms ended.state_handler_axioms
      stopped.state_handler_axioms stopping.state_handler_axioms zombie.state_handler_axioms)

interpretation dispatch: state_handler "methods_of E h" h for E h
  by (rule dispatch)

text \<open>The report of the end of the process, whatever the state of the job.\<close>

lemma job_exited_later:
  assumes "job_exited E (j, w) = (r, (j', w'))"
  shows "job_handler j \<le> job_handler j' \<and> (running (job_handler j') \<longrightarrow> j' = record_exit j)"
proof -
  have rm: "sm_try (removeCgroup E) (record_exit j, w) =
      (Inr (), (record_exit j, snd (os_call E (SRemoveAll (cgroupOuter j)) w)))"
    by (simp add: removeCgroup_def sm_try_def with_job_def)
  show ?thesis
  proof (cases "hm_exited (methods_of E (job_handler j)) (record_exit j)")
    case (Ret p)
    obtain h k where p: "p = (h, k)" by (cases p)
    from dispatch.exited_later[OF Ret[unfolded p]] assms Ret p show ?thesis
      by (auto simp: job_exited_def record_exit_def[symmetric] rm h_exited_def)
  qed (use assms in \<open>auto simp: job_exited_def record_exit_def[symmetric] rm h_exited_def\<close>)
qed

end
