(* ===== verification/Supervisor.thy ===== *)
theory Supervisor
  imports Job_States
begin

text \<open>
  The job supervisor, \<^verbatim>\<open>src/pkg/supervisor/supervisor.go\<close>. The map of the code holds
  pointers to jobs, and log readers, timers and the goroutine that waits for a process keep
  such pointers too; so the map goes from identifiers to references and \<open>store\<close> holds the
  jobs. Each definition is one critical section of the supervisor's lock, except the
  combined \<open>sup_Remove\<close>, \<open>sup_Cleanup\<close> and \<open>StopSupervisor\<close>, whose parts are given first.
\<close>

section \<open>State\<close>

type_synonym ref = nat

record supervisor =
  jobs :: "(string \<times> ref) list"
  sup_ids :: exec_identity
  store :: "ref \<Rightarrow> job option"
  next_ref :: ref
  sup_world :: world

type_synonym 'a sup_sm = "(supervisor, 'a) sm"

definition sup_New :: "int \<Rightarrow> int \<Rightarrow> world \<Rightarrow> supervisor" where
  "sup_New uid gid w =
     \<lparr>jobs = [], sup_ids = \<lparr>UID = uid, GID = gid\<rparr>, store = (\<lambda>_. None), next_ref = 0, sup_world = w\<rparr>"

definition time_Second :: int where
  "time_Second = 1000000000"

text \<open>The job a reference points to; the default is never used in a state of the program.\<close>

definition job_at :: "supervisor \<Rightarrow> ref \<Rightarrow> job" where
  "job_at s r = (case store s r of Some j \<Rightarrow> j | None \<Rightarrow> new_job [] 0 0)"

definition put_job :: "ref \<Rightarrow> job \<Rightarrow> world \<Rightarrow> supervisor \<Rightarrow> supervisor" where
  "put_job r j w s = s\<lparr>store := (store s)(r \<mapsto> j), sup_world := w\<rparr>"

text \<open>A method call \<^verbatim>\<open>j.m()\<close> through a pointer.\<close>

definition on_job :: "ref \<Rightarrow> 'a job_sm \<Rightarrow> 'a sup_sm" where
  "on_job r m s = (case m (job_at s r, sup_world s) of (x, (j, w)) \<Rightarrow> (x, put_job r j w s))"

definition on_job_outcome ::
  "ref \<Rightarrow> (job \<times> world \<Rightarrow> 'a outcome \<times> job \<times> world) \<Rightarrow> supervisor \<Rightarrow> 'a outcome \<times> supervisor" where
  "on_job_outcome r m s = (case m (job_at s r, sup_world s) of (x, (j, w)) \<Rightarrow> (x, put_job r j w s))"

text \<open>\<^verbatim>\<open>j, ok := s.jobs[id]; if !ok { return ErrNotFound }\<close>\<close>

definition with_ref :: "string \<Rightarrow> (ref \<Rightarrow> 'a sup_sm) \<Rightarrow> 'a sup_sm" where
  "with_ref i f s = (case map_of (jobs s) i of None \<Rightarrow> (Inl ErrNotFound, s) | Some r \<Rightarrow> f r s)"

section \<open>Operations\<close>

definition sup_Start :: "os_env \<Rightarrow> string \<Rightarrow> string list \<Rightarrow> exec_limits \<Rightarrow> string sup_sm" where
  "sup_Start E cmd args lim s =
     (case createJob E cmd args lim (sup_ids s) (sup_world s) of
        (Inl e, w) \<Rightarrow> (Inl e, s\<lparr>sup_world := w\<rparr>)
      | (Inr j, w) \<Rightarrow>
          (Inr (ID j),
           (put_job (next_ref s) j w s)
             \<lparr>jobs := AList.update (ID j) (next_ref s) (jobs s), next_ref := Suc (next_ref s)\<rparr>))"

definition sup_Stop :: "os_env \<Rightarrow> string \<Rightarrow> bool \<Rightarrow> unit sup_sm" where
  "sup_Stop E i graceful =
     with_ref i (\<lambda>r. on_job r (if graceful then InitStop E (30 * time_Second) else job_Stop E))"

definition sup_Inspect :: "string \<Rightarrow> (status \<times> 32 word \<times> string) sup_sm" where
  "sup_Inspect i = with_ref i (\<lambda>r s.
     let j = job_at s r; (st, code) = job_Status j in
     (Inr (st, word_of_int code, strings_Join (Command j # job_Args j) '' ''), s))"

definition sup_Logs :: "os_env \<Rightarrow> string \<Rightarrow> (ref \<times> output_reader) sup_sm" where
  "sup_Logs E i = with_ref i (\<lambda>r. sm_bind (on_job r (job_Logs E)) (\<lambda>rd. sm_ret (r, rd)))"

text \<open>\<^verbatim>\<open>remove\<close> looks the job up; it does not delete it.\<close>

definition sup_lookup_remove :: "string \<Rightarrow> ref sup_sm" where
  "sup_lookup_remove i = with_ref i sm_ret"

definition sup_add :: "ref \<Rightarrow> supervisor \<Rightarrow> supervisor" where
  "sup_add r s = s\<lparr>jobs := AList.update (ID (job_at s r)) r (jobs s)\<rparr>"

text \<open>\<^verbatim>\<open>err := j.Cleanup(); if err != nil { s.add(j); return err }; return nil\<close>\<close>

definition cleanup_or_add :: "os_env \<Rightarrow> ref \<Rightarrow> supervisor \<Rightarrow> (go_error + unit) outcome \<times> supervisor" where
  "cleanup_or_add E r s =
     (case on_job_outcome r (job_Cleanup E) s of
        (Ret (Inl e), s') \<Rightarrow> (Ret (Inl e), sup_add r s')
      | res \<Rightarrow> res)"

definition sup_Cleanup :: "os_env \<Rightarrow> string \<Rightarrow> supervisor \<Rightarrow> (go_error + unit) outcome \<times> supervisor" where
  "sup_Cleanup E i s =
     (case sup_lookup_remove i s of
        (Inl e, s') \<Rightarrow> (Ret (Inl e), s')
      | (Inr r, s') \<Rightarrow> cleanup_or_add E r s')"

text \<open>\<^verbatim>\<open>Remove\<close> up to the release of the lock: the job is unlinked.\<close>

definition Remove_unlink :: "string \<Rightarrow> ref sup_sm" where
  "Remove_unlink i = with_ref i (\<lambda>r s.
     if \<not> Completed (job_at s r) then (Inl (Errorf ''job is still running''), s)
     else (Inr r, s\<lparr>jobs := AList.delete i (jobs s)\<rparr>))"

definition sup_Remove :: "os_env \<Rightarrow> string \<Rightarrow> supervisor \<Rightarrow> (go_error + unit) outcome \<times> supervisor" where
  "sup_Remove E i s =
     (case Remove_unlink i s of
        (Inl e, s') \<Rightarrow> (Ret (Inl e), s')
      | (Inr r, s') \<Rightarrow> cleanup_or_add E r s')"

section \<open>Stopping the supervisor\<close>

text \<open>
  A Go map is iterated in an unspecified order: \<open>rs\<close> lists the references in the order the
  loop visits them. The errors of the calls are dropped.
\<close>

definition stop_jobs :: "os_env \<Rightarrow> ref list \<Rightarrow> supervisor \<Rightarrow> supervisor" where
  "stop_jobs E rs s = fold (\<lambda>r s. snd (on_job r (InitStop E (10 * time_Second)) s)) rs s"

text \<open>\<^verbatim>\<open>wg.Wait()\<close>: each of the goroutines waits for one job.\<close>

definition wait_jobs :: "ref list \<Rightarrow> supervisor \<Rightarrow> unit outcome" where
  "wait_jobs rs s = (if \<forall>r \<in> set rs. job_Wait (job_at s r) = Ret () then Ret () else Block)"

fun cleanup_jobs :: "os_env \<Rightarrow> ref list \<Rightarrow> supervisor \<Rightarrow> unit outcome \<times> supervisor" where
  "cleanup_jobs E [] s = (Ret (), s)"
| "cleanup_jobs E (r # rs) s =
     (case on_job_outcome r (job_Cleanup E) s of
        (Ret _, s') \<Rightarrow> cleanup_jobs E rs s'
      | (Panic m, s') \<Rightarrow> (Panic m, s')
      | (Block, s') \<Rightarrow> (Block, s'))"

text \<open>
  \<open>others\<close> is what the other goroutines do (processes end and are reported, timers fire,
  readers close) while \<^verbatim>\<open>StopSupervisor\<close> waits with the lock held.
\<close>

definition StopSupervisor ::
  "os_env \<Rightarrow> ref list \<Rightarrow> (supervisor \<Rightarrow> supervisor) \<Rightarrow> ref list \<Rightarrow> supervisor \<Rightarrow>
     unit outcome \<times> supervisor" where
  "StopSupervisor E rs others rs' s =
     (let s1 = stop_jobs E rs s; s2 = others s1 in
      case wait_jobs rs s2 of
        Ret _ \<Rightarrow> cleanup_jobs E rs' s2
      | Panic m \<Rightarrow> (Panic m, s2)
      | Block \<Rightarrow> (Block, s2))"

end
