(* ===== verification/Acl.thy ===== *)
theory Acl
  imports Go_Strings
begin

text \<open>
  The access control of \<^verbatim>\<open>src/pkg/acl/acl.go\<close>: super users with full or read access and
  the owner of each object. \<open>access_policy\<close> is the interface the server relies on;
  it is interpreted on the definitions of this theory.
\<close>

section \<open>State and operations\<close>

type_synonym user_id = string
type_synonym object_id = string
type_synonym access_type = int

definition Unknown :: access_type where "Unknown = 0"
definition FullAccess :: access_type where "FullAccess = 1"
definition ReadAccess :: access_type where "ReadAccess = 2"

definition access_String :: "access_type \<Rightarrow> string" where
  "access_String t =
     (if t = FullAccess then ''full'' else if t = ReadAccess then ''read'' else ''unknown'')"

record access_request =
  Subject :: user_id
  Object :: object_id
  Action :: access_type

record access_control =
  superUsers :: "user_id set"
  superReadUsers :: "user_id set"
  owners :: "object_id \<rightharpoonup> user_id"

definition acl_New :: access_control where
  "acl_New = \<lparr>superUsers = {}, superReadUsers = {}, owners = Map.empty\<rparr>"

definition AddSuperUsers :: "string list \<Rightarrow> access_type \<Rightarrow> (access_control, unit) sm" where
  "AddSuperUsers ids access c =
     (if access = FullAccess then
        (Inr (), c\<lparr>superUsers := foldl (\<lambda>s u. insert u s) (superUsers c) ids\<rparr>)
      else if access = ReadAccess then
        (Inr (), c\<lparr>superReadUsers := foldl (\<lambda>s u. insert u s) (superReadUsers c) ids\<rparr>)
      else (Inl (Errorf (''unknown access type: '' @ access_String access)), c))"

definition SetOwner :: "object_id \<Rightarrow> user_id \<Rightarrow> (access_control, unit) sm" where
  "SetOwner ob us c =
     (let u = trim_space us in
      if u = [] then (Inl (ErrorfQ ''invalid user: '' u), c)
      else let o' = trim_space ob in
        if o' = [] then (Inl (ErrorfQ ''invalid object: '' u), c)
        else (Inr (), c\<lparr>owners := (owners c)(o' \<mapsto> u)\<rparr>))"

definition acl_Remove :: "object_id \<Rightarrow> (access_control, unit) sm" where
  "acl_Remove ob c =
     (case owners c ob of
        None \<Rightarrow> (Inl (Errorf ''object not found''), c)
      | Some _ \<Rightarrow> (Inr (), c\<lparr>owners := (owners c)(ob := None)\<rparr>))"

definition Check :: "access_request \<Rightarrow> access_control \<Rightarrow> bool" where
  "Check r c =
     (case owners c (Object r) of
        None \<Rightarrow> False
      | Some u \<Rightarrow>
          if u = Subject r then True
          else if Subject r \<in> superUsers c then True
          else if Action r = ReadAccess then Subject r \<in> superReadUsers c
          else False)"

section \<open>What the operations do\<close>

lemma access_consts [simp]: "FullAccess \<noteq> ReadAccess" "ReadAccess \<noteq> FullAccess"
  by (simp_all add: FullAccess_def ReadAccess_def)

lemma foldl_insert: "foldl (\<lambda>s u. insert u s) S ids = S \<union> set ids"
  by (induction ids arbitrary: S) auto

lemma AddSuperUsers_full:
  "AddSuperUsers ids FullAccess c = (Inr (), c\<lparr>superUsers := superUsers c \<union> set ids\<rparr>)"
  by (simp add: AddSuperUsers_def foldl_insert)

lemma AddSuperUsers_read:
  "AddSuperUsers ids ReadAccess c = (Inr (), c\<lparr>superReadUsers := superReadUsers c \<union> set ids\<rparr>)"
  by (simp add: AddSuperUsers_def foldl_insert)

text \<open>The grant as a relation, independent of the order of the tests in the code.\<close>

definition granted :: "access_control \<Rightarrow> user_id \<Rightarrow> object_id \<Rightarrow> access_type \<Rightarrow> bool" where
  "granted c u ob a \<longleftrightarrow>
     ob \<in> dom (owners c) \<and>
     (owners c ob = Some u \<or> u \<in> superUsers c \<or> (a = ReadAccess \<and> u \<in> superReadUsers c))"

text \<open>
  The access check implements the documented rule: access to an object needs an owner
  entry for it, and is given to the owner, to a super user with full access, and, for
  reading only, to a super user with read access.
\<close>

lemma Check_iff_granted: "Check r c \<longleftrightarrow> granted c (Subject r) (Object r) (Action r)"
  by (auto simp: Check_def granted_def split: option.splits)

lemma owners_SetOwner:
  "owners (snd (SetOwner ob u c)) =
     (if trim_space u = [] \<or> trim_space ob = [] then owners c
      else (owners c)(trim_space ob \<mapsto> trim_space u))"
  by (simp add: SetOwner_def Let_def)

lemma supers_SetOwner [simp]:
  "superUsers (snd (SetOwner ob u c)) = superUsers c"
  "superReadUsers (snd (SetOwner ob u c)) = superReadUsers c"
  by (simp_all add: SetOwner_def Let_def)

lemma owners_acl_Remove: "owners (snd (acl_Remove ob c)) = (owners c)(ob := None)"
  by (auto simp: acl_Remove_def split: option.splits)

lemma supers_acl_Remove [simp]:
  "superUsers (snd (acl_Remove ob c)) = superUsers c"
  "superReadUsers (snd (acl_Remove ob c)) = superReadUsers c"
  by (simp_all add: acl_Remove_def split: option.splits)

section \<open>The interface\<close>

text \<open>
  What a client of an access policy may rely on. \<open>owner\<close> is the abstract content;
  \<open>norm\<close> is the normalisation the provider applies to the names it stores.
\<close>

locale access_policy =
  fixes allowed :: "'c \<Rightarrow> user_id \<Rightarrow> object_id \<Rightarrow> access_type \<Rightarrow> bool"
    and own :: "object_id \<Rightarrow> user_id \<Rightarrow> 'c \<Rightarrow> 'c"
    and disown :: "object_id \<Rightarrow> 'c \<Rightarrow> 'c"
    and owner :: "'c \<Rightarrow> object_id \<Rightarrow> user_id option"
    and norm :: "string \<Rightarrow> string"
  assumes needs_owner: "allowed c u ob a \<Longrightarrow> owner c ob \<noteq> None"
    and owner_allowed: "owner c ob = Some u \<Longrightarrow> allowed c u ob a"
    and full_is_most: "allowed c u ob FullAccess \<Longrightarrow> allowed c u ob a"
    and owner_own: "norm ob \<noteq> [] \<Longrightarrow> norm u \<noteq> [] \<Longrightarrow>
      owner (own ob u c) = (owner c)(norm ob \<mapsto> norm u)"
    and own_invalid: "norm ob = [] \<or> norm u = [] \<Longrightarrow> own ob u c = c"
    and owner_disown: "owner (disown ob c) = (owner c)(ob := None)"
    and allowed_frame: "owner (own ob u c) ob' = owner c ob' \<Longrightarrow>
      allowed (own ob u c) v ob' a = allowed c v ob' a"
    and disown_frame: "ob' \<noteq> ob \<Longrightarrow> allowed (disown ob c) v ob' a = allowed c v ob' a"
begin

lemma disown_revokes: "\<not> allowed (disown ob c) u ob a"
  using needs_owner[of "disown ob c" u ob a] by (auto simp: owner_disown)

lemma own_grants:
  "norm ob \<noteq> [] \<Longrightarrow> norm u \<noteq> [] \<Longrightarrow> allowed (own ob u c) (norm u) (norm ob) a"
  by (rule owner_allowed) (simp add: owner_own)

lemma own_other:
  assumes "ob' \<noteq> norm ob"
  shows "allowed (own ob u c) v ob' a = allowed c v ob' a"
proof (cases "norm ob = [] \<or> norm u = []")
  case True
  then show ?thesis by (simp add: own_invalid)
next
  case False
  with assms show ?thesis by (intro allowed_frame) (simp add: owner_own)
qed

lemma own_disown_roundtrip:
  assumes "norm ob = ob" and "owner c ob = None"
  shows "owner (disown ob (own ob u c)) = owner c"
proof (cases "norm ob = [] \<or> norm u = []")
  case True
  with assms show ?thesis by (auto simp: own_invalid owner_disown)
next
  case False
  with assms show ?thesis by (auto simp: owner_own owner_disown)
qed

end

definition acl_allowed :: "access_control \<Rightarrow> user_id \<Rightarrow> object_id \<Rightarrow> access_type \<Rightarrow> bool" where
  "acl_allowed c u ob a = Check \<lparr>Subject = u, Object = ob, Action = a\<rparr> c"

definition acl_own :: "object_id \<Rightarrow> user_id \<Rightarrow> access_control \<Rightarrow> access_control" where
  "acl_own ob u c = snd (SetOwner ob u c)"

definition acl_disown :: "object_id \<Rightarrow> access_control \<Rightarrow> access_control" where
  "acl_disown ob c = snd (acl_Remove ob c)"

lemma acl_allowed_iff:
  "acl_allowed c u ob a \<longleftrightarrow>
     (\<exists>w. owners c ob = Some w \<and>
        (u = w \<or> u \<in> superUsers c \<or> (a = ReadAccess \<and> u \<in> superReadUsers c)))"
  by (auto simp: acl_allowed_def Check_def split: option.splits)

interpretation acl: access_policy acl_allowed acl_own acl_disown owners trim_space
proof unfold_locales
  fix c ob u
  show "trim_space ob = [] \<or> trim_space u = [] \<Longrightarrow> acl_own ob u c = c"
    by (auto simp: acl_own_def SetOwner_def Let_def)
qed (auto simp: acl_allowed_iff acl_own_def acl_disown_def owners_SetOwner owners_acl_Remove)

end
