(* ===== verification/Log_Stream.thy ===== *)
theory Log_Stream
  imports Job_States Rpc "HOL-Library.Sublist"
begin

text \<open>
  Reading the output of a job: \<^verbatim>\<open>outputReader.Read\<close> of \<^verbatim>\<open>src/pkg/job/logreader.go\<close> and the
  streaming loop of \<^verbatim>\<open>Logs\<close> in \<^verbatim>\<open>src/pkg/server/server.go\<close>. The loop runs
  against what it observes: one \<open>read_obs\<close> per iteration. A finite list of observations is
  the fuel of the loop; \<open>logs_loop_terminates\<close> says how many are enough.
\<close>

section \<open>Reading\<close>

text \<open>
  In one iteration: whether the context was cancelled, the content of the file at the time
  of the read, how many bytes the call was willing to return, whether the read failed,
  whether \<^verbatim>\<open>done\<close> was closed when it was tested after the read, and whether the send
  succeeded.
\<close>

record read_obs =
  ob_cancelled :: bool
  ob_content :: string
  ob_chunk :: nat
  ob_fault :: "string option"
  ob_done :: bool
  ob_sent :: bool

text \<open>
  \<^verbatim>\<open>(*os.File).Read\<close> with a buffer of \<open>n\<close> bytes at offset \<open>pos\<close>: at least one byte if
  there is one, at most \<open>n\<close>, and \<^verbatim>\<open>io.EOF\<close> at the end.
\<close>

definition file_read :: "string \<Rightarrow> nat \<Rightarrow> nat \<Rightarrow> nat \<Rightarrow> string \<times> go_error option" where
  "file_read c pos n k =
     (if n = 0 then ([], None)
      else if length c \<le> pos then ([], Some EOF)
      else (take (min n (max 1 k)) (drop pos c), None))"

definition reader_Read ::
  "output_reader \<Rightarrow> nat \<Rightarrow> read_obs \<Rightarrow> (string \<times> go_error option) \<times> output_reader" where
  "reader_Read r n ob =
     (case ob_fault ob of
        Some e \<Rightarrow> (([], Some (OsErr e)), r)
      | None \<Rightarrow>
          (case file_read (ob_content ob) (rd_pos r) n (ob_chunk ob) of (data, err) \<Rightarrow>
             let r' = r\<lparr>rd_pos := rd_pos r + length data\<rparr> in
             if err \<noteq> Some EOF then ((data, err), r')
             else if ob_done ob then ((data, Some ErrEOFJobDone), r')
             else ((data, err), r')))"

definition err_is :: "go_error option \<Rightarrow> go_error \<Rightarrow> bool" where
  "err_is err t = (case err of None \<Rightarrow> False | Some e \<Rightarrow> errors_Is e t)"

section \<open>The streaming loop\<close>

definition logs_buf :: nat where
  "logs_buf = 1024"

datatype logs_result = LogsReturn "rpc_status option" | LogsPanic | LogsRunning

text \<open>
  The tests after a read; \<open>None\<close> means that the loop goes on to send. The follow flag is
  read through the pointer \<^verbatim>\<open>req.Options\<close>, whose absence (\<open>None\<close>) is a panic.
\<close>

definition logs_check :: "bool option \<Rightarrow> string \<Rightarrow> go_error option \<Rightarrow> logs_result option" where
  "logs_check follow data err =
     (if data \<noteq> [] then None
      else case follow of
          None \<Rightarrow> Some LogsPanic
        | Some fl \<Rightarrow>
            if \<not> fl then Some (LogsReturn None)
            else if \<not> err_is err EOF
              then Some (LogsReturn (Some (Status Internal (Errorf ''failed to get job output''))))
            else if err_is err ErrEOFJobDone then Some (LogsReturn None)
            else None)"

fun logs_loop ::
  "bool option \<Rightarrow> output_reader \<Rightarrow> read_obs list \<Rightarrow> logs_result \<times> string list \<times> output_reader" where
  "logs_loop follow r [] = (LogsRunning, [], r)"
| "logs_loop follow r (ob # obs) =
     (if ob_cancelled ob
      then (LogsReturn (Some (Status Canceled (Errorf ''context canceled''))), [], r)
      else case reader_Read r logs_buf ob of ((data, err), r') \<Rightarrow>
        (case logs_check follow data err of
           Some res \<Rightarrow> (res, [], r')
         | None \<Rightarrow>
             if ob_sent ob
             then (case logs_loop follow r' obs of (res, out, r'') \<Rightarrow> (res, data # out, r''))
             else (LogsReturn (Some (Status Internal (Errorf ''failed to send job output''))), [], r')))"

section \<open>One read\<close>

lemma file_read_prefix:
  assumes "file_read c pos n k = (data, err)" and "prefix c F"
  shows "data = take (length data) (drop pos F)" and "data \<noteq> [] \<Longrightarrow> pos + length data \<le> length c"
  using assms by (auto simp: file_read_def min_def prefix_def split: if_splits)

lemma reader_Read_prefix:
  assumes "reader_Read r n ob = ((data, err), r')" and "prefix (ob_content ob) F"
  shows "data = take (length data) (drop (rd_pos r) F)" and "rd_pos r' = rd_pos r + length data"
    and "data \<noteq> [] \<Longrightarrow> rd_pos r' \<le> length (ob_content ob)"
proof -
  have "(data = [] \<and> r' = r) \<or> (\<exists>err'. file_read (ob_content ob) (rd_pos r) n (ob_chunk ob) = (data, err') \<and>
      r' = r\<lparr>rd_pos := rd_pos r + length data\<rparr>)"
    using assms(1) by (auto simp: reader_Read_def Let_def split: option.splits prod.splits if_splits)
  then show "data = take (length data) (drop (rd_pos r) F)" and "rd_pos r' = rd_pos r + length data"
    and "data \<noteq> [] \<Longrightarrow> rd_pos r' \<le> length (ob_content ob)"
    using file_read_prefix[OF _ assms(2)] by auto
qed

lemma reader_Read_end:
  assumes "reader_Read r n ob = ((data, err), r')" and "ob_fault ob = None" and "0 < n" and "data = []"
  shows "length (ob_content ob) \<le> rd_pos r" and "r' = r"
    and "err = Some (if ob_done ob then ErrEOFJobDone else EOF)"
  using assms
  by (auto simp: reader_Read_def file_read_def Let_def split: if_splits)

lemma err_is_simps [simp]:
  "\<not> err_is None t" "err_is (Some ErrEOFJobDone) EOF" "err_is (Some EOF) EOF"
  "err_is (Some ErrEOFJobDone) ErrEOFJobDone" "\<not> err_is (Some EOF) ErrEOFJobDone"
  by (simp_all add: err_is_def)

section \<open>One iteration\<close>

lemma logs_loop_stepE:
  assumes "logs_loop follow r (ob # obs) = (res, out, r')"
  obtains
    (cancelled) "ob_cancelled ob" "out = []"
      "res = LogsReturn (Some (Status Canceled (Errorf ''context canceled'')))"
  | (checked) data err where "reader_Read r logs_buf ob = ((data, err), r')"
      "logs_check follow data err = Some res" "out = []"
  | (unsent) "\<not> ob_sent ob" "out = []"
      "res = LogsReturn (Some (Status Internal (Errorf ''failed to send job output'')))"
  | (sent) data err r1 out2 where "reader_Read r logs_buf ob = ((data, err), r1)"
      "logs_check follow data err = None" "logs_loop follow r1 obs = (res, out2, r')"
      "out = data # out2"
proof -
  obtain data err r1 where rd: "reader_Read r logs_buf ob = ((data, err), r1)"
    by (metis prod.exhaust)
  show thesis
  proof (cases "ob_cancelled ob")
    case True
    with assms show thesis by (intro cancelled) auto
  next
    case False
    show thesis
    proof (cases "logs_check follow data err")
      case (Some res')
      with False assms rd show thesis by (intro checked[of data err]) auto
    next
      case None
      note nc = this
      show thesis
      proof (cases "ob_sent ob")
        case True
        with False nc assms rd show thesis
          by (auto split: prod.splits intro!: sent)
      next
        case unsent_ob: False
        with False nc assms rd show thesis by (intro unsent) auto
      qed
    qed
  qed
qed

lemma logs_check_nil: "logs_check follow data err = Some res \<Longrightarrow> data = []"
  by (auto simp: logs_check_def split: if_splits)

lemma logs_check_ok:
  assumes "logs_check follow data err = Some (LogsReturn None)"
  shows "data = []" and "follow = Some False \<or> err = Some ErrEOFJobDone \<or>
    (follow = Some True \<and> err_is err EOF \<and> err_is err ErrEOFJobDone)"
  using assms by (auto simp: logs_check_def split: if_splits option.splits)

section \<open>What a stream delivers\<close>

lemma logs_loop_prefix:
  assumes "\<forall>ob\<in>set obs. prefix (ob_content ob) F" and "logs_loop follow r obs = (res, out, r')"
  shows "prefix (concat out) (drop (rd_pos r) F)"
  using assms
proof (induction obs arbitrary: r out)
  case (Cons ob obs)
  from Cons.prems(2) show ?case
  proof (cases rule: logs_loop_stepE)
    case (sent data err r1 out2)
    have pre: "prefix (ob_content ob) F" using Cons.prems(1) by simp
    note one = reader_Read_prefix[OF sent(1) pre]
    have "prefix (concat out2) (drop (rd_pos r1) F)"
      using Cons.IH[OF _ sent(3)] Cons.prems(1) by simp
    then obtain z where "drop (length data) (drop (rd_pos r) F) = concat out2 @ z"
      by (auto simp: prefix_def one(2) add.commute)
    then have "drop (rd_pos r) F = data @ concat out2 @ z"
      using one(1) by (metis append_take_drop_id)
    then show ?thesis by (simp add: sent prefix_def)
  qed simp_all
qed simp

text \<open>
  Whatever happens (short reads, read faults, a cancelled context, a failing send), the
  client is never sent anything but a prefix of the output from the position of the
  reader on, in order, without gaps and without repetition.
\<close>

lemma logs_loop_sends_prefix:
  assumes "\<forall>ob\<in>set obs. prefix (ob_content ob) F" and "logs_loop follow r obs = (res, out, r')"
  shows "prefix (concat out) (drop (rd_pos r) F)"
  using assms by (rule logs_loop_prefix)

definition demo_obs :: "string \<Rightarrow> bool \<Rightarrow> read_obs" where
  "demo_obs c d = \<lparr>ob_cancelled = False, ob_content = c, ob_chunk = 1024, ob_fault = None,
     ob_done = d, ob_sent = True\<rparr>"

definition demo_reader :: output_reader where
  "demo_reader = \<lparr>rd_path = ''/j/o'', rd_pos = 0\<rparr>"

lemmas logs_eval = reader_Read_def file_read_def logs_check_def logs_buf_def demo_obs_def
  demo_reader_def Let_def

lemma logs_loop_complete_from:
  assumes "\<forall>ob\<in>set obs. prefix (ob_content ob) F \<and> ob_fault ob = None"
    and "sorted_wrt (\<lambda>a b. prefix (ob_content a) (ob_content b)) obs"
    and "\<forall>ob\<in>set obs. rd_pos r \<le> length (ob_content ob)"
    and "logs_loop (Some f) r obs = (LogsReturn None, out, r')"
  shows "length out < length obs \<and> concat out = drop (rd_pos r) (ob_content (obs ! length out)) \<and>
    (f \<longrightarrow> ob_done (obs ! length out))"
  using assms
proof (induction obs arbitrary: r out)
  case (Cons ob obs)
  from Cons.prems(4) show ?case
  proof (cases rule: logs_loop_stepE)
    case (checked data err)
    from logs_check_ok[OF checked(2)] have "data = []" by blast
    from reader_Read_end[OF checked(1) _ _ this] Cons.prems(1,3) checked(2) \<open>data = []\<close> checked(3)
    show ?thesis by (auto simp: logs_buf_def logs_check_def split: if_splits)
  next
    case (sent data err r1 out2)
    have pre: "prefix (ob_content ob) F" using Cons.prems(1) by simp
    note one = reader_Read_prefix[OF sent(1) pre]
    have le: "rd_pos r1 \<le> length (ob_content ob')" if "ob' \<in> set obs" for ob'
    proof (cases "data = []")
      case True
      with one(2) Cons.prems(3) that show ?thesis by simp
    next
      case False
      from Cons.prems(2) that have "prefix (ob_content ob) (ob_content ob')" by simp
      then have "length (ob_content ob) \<le> length (ob_content ob')" by (rule prefix_length_le)
      with one(3)[OF False] show ?thesis by simp
    qed
    have IH: "length out2 < length obs \<and>
        concat out2 = drop (rd_pos r1) (ob_content (obs ! length out2)) \<and>
        (f \<longrightarrow> ob_done (obs ! length out2))"
      using Cons.IH[OF _ _ _ sent(3)] Cons.prems(1,2) le by simp
    let ?c = "ob_content (obs ! length out2)"
    have "prefix (ob_content ob) ?c"
      using Cons.prems(2) IH by simp
    from reader_Read_prefix(1)[OF sent(1) this]
    have "drop (rd_pos r) ?c = data @ drop (length data) (drop (rd_pos r) ?c)"
      by (metis append_take_drop_id)
    also have "\<dots> = data @ concat out2"
      using IH one(2) by (simp add: add.commute)
    finally show ?thesis using IH by (simp add: sent)
  qed simp_all
qed simp

text \<open>
  A stream that ends without an error is complete as of its last read: everything in
  the file at that read has been sent; and in follow mode the job was done when the
  reader tested it after that read. (The number of chunks sent is the index of the last
  iteration.)
\<close>

lemma logs_loop_complete:
  assumes "\<forall>ob\<in>set obs. prefix (ob_content ob) F \<and> ob_fault ob = None"
    and "sorted_wrt (\<lambda>a b. prefix (ob_content a) (ob_content b)) obs"
    and "logs_loop (Some f) \<lparr>rd_path = p, rd_pos = 0\<rparr> obs = (LogsReturn None, out, r')"
  shows "length out < length obs \<and> concat out = ob_content (obs ! length out) \<and>
    (f \<longrightarrow> ob_done (obs ! length out))"
  using logs_loop_complete_from[OF assms(1,2) _ assms(3)] by simp

text \<open>
  C28. The loop ends: once the file no longer grows past \<open>F\<close>, and, in follow mode, the job
  is done, the number of unread bytes plus one iterations are enough.
\<close>

theorem logs_loop_terminates:
  assumes "\<forall>ob\<in>set obs. prefix (ob_content ob) F \<and> (f \<longrightarrow> ob_done ob)"
    and "length F - rd_pos r < length obs"
  shows "fst (logs_loop (Some f) r obs) \<noteq> LogsRunning"
  using assms
proof (induction obs arbitrary: r)
  case (Cons ob obs)
  obtain res out r' where run: "logs_loop (Some f) r (ob # obs) = (res, out, r')"
    by (metis prod.exhaust)
  then show ?case
  proof (cases rule: logs_loop_stepE)
    case (checked data err)
    with run show ?thesis by (auto simp: logs_check_def split: if_splits)
  next
    case (sent data err r1 out2)
    have pre: "prefix (ob_content ob) F" using Cons.prems(1) by simp
    note one = reader_Read_prefix[OF sent(1) pre]
    have ne: "data \<noteq> []"
    proof
      assume "data = []"
      with sent(2) have f: f and eof: "err_is err EOF" "\<not> err_is err ErrEOFJobDone"
        by (auto simp: logs_check_def split: if_splits)
      show False
      proof (cases "ob_fault ob")
        case None
        from reader_Read_end(3)[OF sent(1) None _ \<open>data = []\<close>] Cons.prems(1) f eof
        show False by (simp add: logs_buf_def)
      next
        case (Some e)
        with sent(1) eof show False by (auto simp: reader_Read_def err_is_def)
      qed
    qed
    from pre have "length (ob_content ob) \<le> length F" by (rule prefix_length_le)
    with one(3)[OF ne] one(2) ne have "length F - rd_pos r1 < length F - rd_pos r"
      by (cases data) auto
    with Cons.prems(2) have "length F - rd_pos r1 < length obs" by simp
    with Cons.IH Cons.prems(1) have "fst (logs_loop (Some f) r1 obs) \<noteq> LogsRunning" by simp
    with run sent(3) show ?thesis by simp
  qed (use run in auto)
qed simp

theorem logs_loop_terminates_witness:
  "fst (logs_loop (Some True) demo_reader [demo_obs ''a'' True, demo_obs ''a'' True]) \<noteq> LogsRunning"
  by (rule logs_loop_terminates[where F = "''a''"]) (simp_all add: demo_obs_def demo_reader_def)

section \<open>The read and the test of the channel\<close>

text \<open>
  An iteration reads the file at one moment and tests \<^verbatim>\<open>done\<close> at a later one. A history
  lists the content of the file and the state of the channel over time: the content only
  grows, and does not change once the channel is closed. A schedule gives, for each
  iteration, the moments of its read and of its test.
\<close>

definition output_history :: "(string \<times> bool) list \<Rightarrow> bool" where
  "output_history h \<longleftrightarrow>
     sorted_wrt (\<lambda>a b. prefix (fst a) (fst b) \<and> (snd a \<longrightarrow> snd b \<and> fst b = fst a)) h"

definition schedule_ok :: "(string \<times> bool) list \<Rightarrow> (nat \<times> nat) list \<Rightarrow> bool" where
  "schedule_ok h sch \<longleftrightarrow>
     sorted (concat (List.map (\<lambda>(i, k). [i, k]) sch)) \<and>
     list_all (\<lambda>(i, k). i < length h \<and> k < length h) sch"

definition observe :: "(string \<times> bool) list \<Rightarrow> (nat \<times> nat) list \<Rightarrow> read_obs list" where
  "observe h sch = List.map (\<lambda>(i, k). demo_obs (fst (h ! i)) (snd (h ! k))) sch"

lemma history_pair:
  assumes "output_history h" and "i \<le> k" and "k < length h"
  shows "prefix (fst (h ! i)) (fst (h ! k)) \<and> (snd (h ! i) \<longrightarrow> fst (h ! k) = fst (h ! i))"
proof (cases "i = k")
  case False
  then have "i < k" using assms(2) by simp
  from sorted_wrt_nth_less[OF assms(1)[unfolded output_history_def] this assms(3)]
  show ?thesis by blast
qed simp

lemmas history_prefix = history_pair [THEN conjunct1] history_pair [THEN conjunct2, rule_format]

lemma read_in_schedule:
  "y \<in> set sch \<Longrightarrow> fst y \<in> set (concat (List.map (\<lambda>(i, k). [i, k]) sch))"
  by (induction sch) auto

lemma schedule_reads_sorted:
  "schedule_ok h sch \<Longrightarrow> sorted_wrt (\<lambda>a b. fst a \<le> fst b) sch"
proof (induction sch)
  case (Cons x sch)
  obtain i k where x: "x = (i, k)" by (cases x)
  have "i \<le> fst y" if "y \<in> set sch" for y
  proof -
    have "fst y \<in> set (concat (List.map (\<lambda>(i, k). [i, k]) sch))"
      using that by (rule read_in_schedule)
    with Cons.prems show ?thesis by (auto simp: schedule_ok_def x)
  qed
  moreover have "schedule_ok h sch" using Cons.prems by (auto simp: schedule_ok_def x)
  ultimately show ?case using Cons.IH by (auto simp: x)
qed simp

lemma observe_growing:
  assumes "output_history h" and "schedule_ok h sch"
  shows "sorted_wrt (\<lambda>a b. prefix (ob_content a) (ob_content b)) (observe h sch)"
proof -
  have "sorted_wrt (\<lambda>a b. prefix (fst (h ! fst a)) (fst (h ! fst b))) sch"
  proof (rule sorted_wrt_mono_rel[OF _ schedule_reads_sorted[OF assms(2)]])
    fix a b assume "b \<in> set sch" "fst a \<le> fst b"
    then have "fst b < length h" using assms(2) by (auto simp: schedule_ok_def list_all_iff)
    with \<open>fst a \<le> fst b\<close> show "prefix (fst (h ! fst a)) (fst (h ! fst b))"
      by (intro history_prefix(1)[OF assms(1)])
  qed
  then show ?thesis
    by (simp add: observe_def sorted_wrt_map demo_obs_def case_prod_beta)
qed

text \<open>
  A followed stream that ends by itself has sent the whole output of the job,
  provided its last read took place after \<^verbatim>\<open>done\<close> was closed.
\<close>

lemma follow_complete_after_done:
  assumes "output_history h" and "schedule_ok h sch"
    and run: "logs_loop (Some True) \<lparr>rd_path = p, rd_pos = 0\<rparr> (observe h sch) = (LogsReturn None, out, r')"
    and late: "snd (h ! fst (sch ! length out))"
  shows "concat out = fst (last h)"
proof -
  have in_h: "fst x < length h" if "x \<in> set sch" for x
    using assms(2) that by (auto simp: schedule_ok_def list_all_iff)
  have 1: "\<forall>ob\<in>set (observe h sch). prefix (ob_content ob) (fst (last h)) \<and> ob_fault ob = None"
  proof
    fix ob assume "ob \<in> set (observe h sch)"
    then obtain x where x: "x \<in> set sch" "ob = demo_obs (fst (h ! fst x)) (snd (h ! snd x))"
      by (auto simp: observe_def)
    have "prefix (fst (h ! fst x)) (fst (h ! (length h - 1)))"
      using in_h[OF x(1)] by (intro history_prefix(1)[OF assms(1)]) auto
    moreover have "h \<noteq> []" using in_h[OF x(1)] by auto
    ultimately show "prefix (ob_content ob) (fst (last h)) \<and> ob_fault ob = None"
      by (simp add: x(2) demo_obs_def last_conv_nth)
  qed
  from logs_loop_complete[OF 1 observe_growing[OF assms(1,2)] run]
  have len: "length out < length sch" and out: "concat out = fst (h ! fst (sch ! length out))"
    by (auto simp: observe_def demo_obs_def case_prod_beta)
  have "fst (sch ! length out) < length h" using in_h len by simp
  then have "fst (h ! (length h - 1)) = fst (h ! fst (sch ! length out))"
    using late by (intro history_prefix(2)[OF assms(1)]) auto
  with out \<open>fst (sch ! length out) < length h\<close> show ?thesis
    by (subst last_conv_nth) auto
qed


end
