(* ===== verification/Server.thy ===== *)
theory Server
  imports Supervisor Acl Log_Stream
begin

text \<open>
  The service, \<^verbatim>\<open>src/pkg/server/server.go\<close>: each method takes the identity of the client
  from the context, asks the access control, calls the supervisor and translates the error.
  A method returns a status or a response, may panic (a request whose \<^verbatim>\<open>Limits\<close> or
  \<^verbatim>\<open>Options\<close> are absent) and may wait (a removal, for the readers of the output).
\<close>

record jobServer =
  srv_jobs :: supervisor
  srv_auth :: access_control

type_synonym 'a rpc = "jobServer \<Rightarrow> (rpc_status + 'a) outcome \<times> jobServer"

section \<open>Errors and identities\<close>

definition job_not_found :: rpc_status where
  "job_not_found = Status NotFound (Errorf ''job not found'')"

definition invalid_client :: rpc_status where
  "invalid_client = Status Unauthenticated (Errorf ''invalid client ID'')"

text \<open>The switch on the error of the supervisor that every method has.\<close>

definition to_status :: "go_error \<Rightarrow> rpc_status" where
  "to_status e = (if errors_Is e ErrNotFound then job_not_found else Status Internal e)"

definition srv_reply :: "(go_error + 'a) \<Rightarrow> (rpc_status + 'a) outcome" where
  "srv_reply r = (case r of Inl e \<Rightarrow> Ret (Inl (to_status e)) | Inr x \<Rightarrow> Ret (Inr x))"

definition hasReadAccess :: "jobServer \<Rightarrow> string \<Rightarrow> string \<Rightarrow> bool" where
  "hasReadAccess s cid jid = Check \<lparr>Subject = cid, Object = jid, Action = ReadAccess\<rparr> (srv_auth s)"

definition hasFullAccess :: "jobServer \<Rightarrow> string \<Rightarrow> string \<Rightarrow> bool" where
  "hasFullAccess s cid jid = Check \<lparr>Subject = cid, Object = jid, Action = FullAccess\<rparr> (srv_auth s)"

section \<open>Methods\<close>

definition toJobLimits :: "pb_limits option \<Rightarrow> exec_limits outcome" where
  "toJobLimits l =
     (case l of
        None \<Rightarrow> Panic ''invalid memory address or nil pointer dereference''
      | Some p \<Rightarrow> Ret \<lparr>CPU = Cpus p, MaxRAMBytes = Memory p, MaxDiskIOBytes = Io p\<rparr>)"

definition srv_Start :: "os_env \<Rightarrow> context_t \<Rightarrow> start_request \<Rightarrow> string rpc" where
  "srv_Start E ctx req s =
     (let (cid, ok) = authID ctx in
      if \<not> ok then (Ret (Inl invalid_client), s)
      else case toJobLimits (req_Limits req) of
        Panic m \<Rightarrow> (Panic m, s)
      | Block \<Rightarrow> (Block, s)
      | Ret lim \<Rightarrow>
          (case sup_Start E (req_Command req) (req_Args req) lim (srv_jobs s) of
             (Inl e, js) \<Rightarrow> (Ret (Inl (to_status e)), s\<lparr>srv_jobs := js\<rparr>)
           | (Inr jid, js) \<Rightarrow>
               (Ret (Inr jid), s\<lparr>srv_jobs := js, srv_auth := snd (SetOwner jid cid (srv_auth s))\<rparr>)))"

definition srv_Stop :: "os_env \<Rightarrow> context_t \<Rightarrow> string \<Rightarrow> stop_mode \<Rightarrow> unit rpc" where
  "srv_Stop E ctx jid mode s =
     (let (cid, ok) = authID ctx in
      if \<not> ok then (Ret (Inl invalid_client), s)
      else if \<not> hasFullAccess s cid jid then (Ret (Inl job_not_found), s)
      else case sup_Stop E jid (mode = STOP_MODE_GRACEFUL) (srv_jobs s) of
        (r, js) \<Rightarrow> (srv_reply r, s\<lparr>srv_jobs := js\<rparr>))"

definition srv_Remove :: "os_env \<Rightarrow> context_t \<Rightarrow> string \<Rightarrow> unit rpc" where
  "srv_Remove E ctx jid s =
     (let (cid, ok) = authID ctx in
      if \<not> ok then (Ret (Inl invalid_client), s)
      else if \<not> hasFullAccess s cid jid then (Ret (Inl job_not_found), s)
      else case sup_Remove E jid (srv_jobs s) of
        (Ret (Inl e), js) \<Rightarrow> (Ret (Inl (to_status e)), s\<lparr>srv_jobs := js\<rparr>)
      | (Ret (Inr _), js) \<Rightarrow>
          (Ret (Inr ()), s\<lparr>srv_jobs := js, srv_auth := snd (acl_Remove jid (srv_auth s))\<rparr>)
      | (Panic m, js) \<Rightarrow> (Panic m, s\<lparr>srv_jobs := js\<rparr>)
      | (Block, js) \<Rightarrow> (Block, s\<lparr>srv_jobs := js\<rparr>))"

definition fromJobStatus :: "status \<Rightarrow> pb_status" where
  "fromJobStatus st =
     (if st = StatusActive then STATUS_ACTIVE
      else if st = StatusEnded then STATUS_ENDED
      else if st = StatusStopping then STATUS_STOPPING
      else if st = StatusStopped then STATUS_STOPPED
      else STATUS_UNSPECIFIED)"

definition srv_Inspect :: "context_t \<Rightarrow> string \<Rightarrow> job_details rpc" where
  "srv_Inspect ctx jid s =
     (let (cid, ok) = authID ctx in
      if \<not> ok then (Ret (Inl invalid_client), s)
      else if \<not> hasReadAccess s cid jid then (Ret (Inl job_not_found), s)
      else case sup_Inspect jid (srv_jobs s) of
        (Inl e, js) \<Rightarrow> (Ret (Inl (to_status e)), s\<lparr>srv_jobs := js\<rparr>)
      | (Inr (st, c, cmd), js) \<Rightarrow>
          (Ret (Inr \<lparr>det_status = fromJobStatus st, det_exit_code = c, det_command = cmd\<rparr>),
           s\<lparr>srv_jobs := js\<rparr>))"

text \<open>\<^verbatim>\<open>Logs\<close> up to the loop: the reader it opened.\<close>

definition srv_Logs_open :: "os_env \<Rightarrow> context_t \<Rightarrow> string \<Rightarrow> (ref \<times> output_reader) rpc" where
  "srv_Logs_open E ctx jid s =
     (let (cid, ok) = authID ctx in
      if \<not> ok then (Ret (Inl invalid_client), s)
      else if \<not> hasReadAccess s cid jid then (Ret (Inl job_not_found), s)
      else case sup_Logs E jid (srv_jobs s) of (r, js) \<Rightarrow> (srv_reply r, s\<lparr>srv_jobs := js\<rparr>))"

text \<open>
  The whole method, against the observations of the loop; \<open>others\<close> is what the rest of the
  program does to the state while the loop runs. The deferred \<^verbatim>\<open>Close\<close> runs on every
  return and also when the loop panics.
\<close>

definition srv_Logs ::
  "os_env \<Rightarrow> context_t \<Rightarrow> string \<Rightarrow> bool option \<Rightarrow> read_obs list \<Rightarrow> (jobServer \<Rightarrow> jobServer) \<Rightarrow>
     jobServer \<Rightarrow> logs_result \<times> string list \<times> jobServer" where
  "srv_Logs E ctx jid follow obs others s =
     (case srv_Logs_open E ctx jid s of
        (Ret (Inl st), s') \<Rightarrow> (LogsReturn (Some st), [], s')
      | (Ret (Inr (r, rd)), s') \<Rightarrow>
          (case logs_loop follow rd obs of (res, out, rd') \<Rightarrow>
             let s2 = others s' in
             if res = LogsRunning then (LogsRunning, out, s2)
             else case on_job_outcome r (reader_Close E rd') (srv_jobs s2) of
               (Ret _, js) \<Rightarrow> (res, out, s2\<lparr>srv_jobs := js\<rparr>)
             | (_, js) \<Rightarrow> (LogsPanic, out, s2\<lparr>srv_jobs := js\<rparr>))
      | (_, s') \<Rightarrow> (LogsPanic, [], s'))"

definition StopServer ::
  "os_env \<Rightarrow> ref list \<Rightarrow> (supervisor \<Rightarrow> supervisor) \<Rightarrow> ref list \<Rightarrow> jobServer \<Rightarrow> unit outcome \<times> jobServer" where
  "StopServer E rs others rs' s =
     (case StopSupervisor E rs others rs' (srv_jobs s) of (r, js) \<Rightarrow> (r, s\<lparr>srv_jobs := js\<rparr>))"

section \<open>Construction\<close>

record server_config =
  WorkRoot :: string
  su_FullAccess :: "string list"
  su_ReadAccess :: "string list"
  tls_CAPath :: string
  tls_CertPath :: string
  tls_KeyPath :: string
  tls_ReloadSec :: int
  ids_UID :: string
  ids_GID :: string
  Address :: string

definition srv_New :: "server_config \<Rightarrow> world \<Rightarrow> go_error + jobServer" where
  "srv_New cfg w =
     (case AddSuperUsers (su_FullAccess cfg) FullAccess acl_New of
        (Inl e, _) \<Rightarrow> Inl (Errorf ''failed to read config'')
      | (Inr _, a1) \<Rightarrow>
          (case AddSuperUsers (su_ReadAccess cfg) ReadAccess a1 of
             (Inl e, _) \<Rightarrow> Inl (Errorf ''failed to read config'')
           | (Inr _, auth) \<Rightarrow>
               (case atoi (ids_UID cfg) of
                  None \<Rightarrow> Inl (Errorf ''invalid uid configured'')
                | Some uid \<Rightarrow>
                    (case atoi (ids_GID cfg) of
                       None \<Rightarrow> Inl (Errorf ''invalid gid configured'')
                     | Some gid \<Rightarrow> Inr \<lparr>srv_jobs = sup_New uid gid w, srv_auth = auth\<rparr>))))"

section \<open>Dispatch\<close>

text \<open>The requests of the service, without the stream of \<^verbatim>\<open>Logs\<close>.\<close>

datatype request =
    ReqStart start_request
  | ReqStop string stop_mode
  | ReqRemove string
  | ReqInspect string
  | ReqLogs string

datatype response =
    RespStart string
  | RespStop
  | RespRemove
  | RespInspect job_details
  | RespReader ref output_reader

definition resp :: "('a \<Rightarrow> response) \<Rightarrow> (rpc_status + 'a) outcome \<Rightarrow> (rpc_status + response) outcome" where
  "resp f r = (case r of Ret x \<Rightarrow> Ret (map_sum id f x) | Panic m \<Rightarrow> Panic m | Block \<Rightarrow> Block)"

fun srv_handle :: "os_env \<Rightarrow> context_t \<Rightarrow> request \<Rightarrow> response rpc" where
  "srv_handle E ctx (ReqStart q) s = apfst (resp RespStart) (srv_Start E ctx q s)"
| "srv_handle E ctx (ReqStop i m) s = apfst (resp (\<lambda>_. RespStop)) (srv_Stop E ctx i m s)"
| "srv_handle E ctx (ReqRemove i) s = apfst (resp (\<lambda>_. RespRemove)) (srv_Remove E ctx i s)"
| "srv_handle E ctx (ReqInspect i) s = apfst (resp RespInspect) (srv_Inspect ctx i s)"
| "srv_handle E ctx (ReqLogs i) s = apfst (resp (\<lambda>(q, rd). RespReader q rd)) (srv_Logs_open E ctx i s)"

fun req_job :: "request \<Rightarrow> string option" where
  "req_job (ReqStart q) = None"
| "req_job (ReqStop i m) = Some i"
| "req_job (ReqRemove i) = Some i"
| "req_job (ReqInspect i) = Some i"
| "req_job (ReqLogs i) = Some i"

text \<open>The access a request needs, as the handlers ask for it.\<close>

fun req_action :: "request \<Rightarrow> access_type" where
  "req_action (ReqInspect i) = ReadAccess"
| "req_action (ReqLogs i) = ReadAccess"
| "req_action _ = FullAccess"

end
