(* ===== verification/Job_Concurrency.thy ===== *)
theory Job_Concurrency
  imports Job_States
begin

text \<open>
  A job among its goroutines: the callers of its methods, the goroutine that waits for the
  process, the timers, and the open log readers. Every method is one step, enabled when the
  mutex is free, except \<^verbatim>\<open>Cleanup\<close>: it keeps the mutex while it waits for the
  readers, so it takes one step to start and one to finish. The process itself exits in a
  step of the environment.
\<close>

section \<open>States and steps\<close>

text \<open>
  \<open>Alive\<close>: running; \<open>Dead c\<close>: ended with exit code \<open>c\<close>, not waited for;
  \<open>Collected c\<close>: \<^verbatim>\<open>cmd.Wait\<close> has returned; \<open>Reported c\<close>: the waiting goroutine
  has run \<^verbatim>\<open>j.exited()\<close>, its last action.
\<close>

datatype pstate = Alive | Dead int | Collected int | Reported int

text \<open>
  \<open>cleaning\<close>: a call of \<^verbatim>\<open>Cleanup\<close> holds the mutex. \<open>fired\<close>: goroutines of
  fired timers that have not called \<^verbatim>\<open>Stop\<close> yet. An open reader carries its follow flag.
\<close>

record jsys =
  sj :: job
  sw :: world
  cleaning :: bool
  proc :: pstate
  sreaders :: "(output_reader \<times> bool) list"
  fired :: nat
  panicked :: bool

datatype jevent =
    EvInitStop int
  | EvStop
  | EvLogs bool
  | EvCleanup
  | EvCleanupDone
  | EvDie int
  | EvWait
  | EvExited
  | EvFire nat
  | EvTimerStop
  | EvEnd nat
  | EvCancel nat

definition remove_nth :: "nat \<Rightarrow> 'a list \<Rightarrow> 'a list" where
  "remove_nth i xs = take i xs @ drop (Suc i) xs"

text \<open>
  A reader without the follow flag can reach its end at any time; one with it reaches its
  end only when the channel \<^verbatim>\<open>done\<close> is closed (\<open>EvEnd\<close>). Both end when the client goes
  away, a send fails or a read fails (\<open>EvCancel\<close>).
\<close>

inductive jstep :: "os_env \<Rightarrow> jsys \<Rightarrow> jevent \<Rightarrow> jsys \<Rightarrow> bool" for E where
  init_stop: "jstep E s (EvInitStop d) (s\<lparr>sj := j, sw := w\<rparr>)"
    if "\<not> cleaning s" and "InitStop E d (sj s, sw s) = (r, (j, w))"
| stop: "jstep E s EvStop (s\<lparr>sj := j, sw := w\<rparr>)"
    if "\<not> cleaning s" and "job_Stop E (sj s, sw s) = (r, (j, w))"
| logs: "jstep E s (EvLogs follow) (s\<lparr>sj := j, sw := w, sreaders := sreaders s @ [(rd, follow)]\<rparr>)"
    if "\<not> cleaning s" and "job_Logs E (sj s, sw s) = (Inr rd, (j, w))"
| logs_err: "jstep E s (EvLogs follow) (s\<lparr>sj := j, sw := w\<rparr>)"
    if "\<not> cleaning s" and "job_Logs E (sj s, sw s) = (Inl e, (j, w))"
| cleanup: "jstep E s EvCleanup (s\<lparr>cleaning := True\<rparr>)" if "\<not> cleaning s"
| cleanup_done: "jstep E s EvCleanupDone (s\<lparr>sj := j, sw := w, cleaning := False\<rparr>)"
    if "cleaning s" and "job_Cleanup E (sj s, sw s) = (Ret r, (j, w))"
| die: "jstep E s (EvDie c) (s\<lparr>proc := Dead c\<rparr>)" if "proc s = Alive"
| wait: "jstep E s EvWait
      (s\<lparr>sj := (sj s)\<lparr>job_cmd := sf_wait (defSysFun E) c (job_cmd (sj s))\<rparr>, proc := Collected c\<rparr>)"
    if "proc s = Dead c"
| exited: "jstep E s EvExited
      (s\<lparr>sj := j, sw := w, proc := Reported c, panicked := panicked s \<or> panics r\<rparr>)"
    if "\<not> cleaning s" and "proc s = Collected c" and "job_exited E (sj s, sw s) = (r, (j, w))"
| fire: "jstep E s (EvFire t) (s\<lparr>sj := disarm t (sj s), fired := Suc (fired s)\<rparr>)"
    if "t \<in> fst ` set (armed (sj s))"
| timer: "jstep E s EvTimerStop (s\<lparr>sj := j, sw := w, fired := fired s - 1\<rparr>)"
    if "\<not> cleaning s" and "0 < fired s" and "timer_stop E (sj s, sw s) = (r, (j, w))"
| end_reader: "jstep E s (EvEnd i)
      (s\<lparr>sj := j, sw := w, sreaders := remove_nth i (sreaders s), panicked := panicked s \<or> panics r\<rparr>)"
    if "i < length (sreaders s)" and "\<not> snd (sreaders s ! i) \<or> done_closed (sj s)"
      and "reader_Close E (fst (sreaders s ! i)) (sj s, sw s) = (r, (j, w))"
| cancel: "jstep E s (EvCancel i)
      (s\<lparr>sj := j, sw := w, sreaders := remove_nth i (sreaders s), panicked := panicked s \<or> panics r\<rparr>)"
    if "i < length (sreaders s)"
      and "reader_Close E (fst (sreaders s ! i)) (sj s, sw s) = (r, (j, w))"

text \<open>The state in which \<^verbatim>\<open>New\<close> returns a job.\<close>

definition fresh_job :: "job \<Rightarrow> bool" where
  "fresh_job j \<longleftrightarrow>
     job_handler j = activeHandler \<and> outLock j = 0 \<and> logReaders j = 0 \<and> \<not> done_closed j \<and>
     ProcessState (job_cmd j) = None \<and> armed j = [] \<and> stopTimer j = None"

definition jsys_init :: "job \<Rightarrow> world \<Rightarrow> jsys" where
  "jsys_init j w =
     \<lparr>sj = j, sw = w, cleaning = False, proc = Alive, sreaders = [], fired = 0, panicked = False\<rparr>"

inductive jreach :: "os_env \<Rightarrow> jsys \<Rightarrow> bool" for E where
  start: "fresh_job j \<Longrightarrow> jreach E (jsys_init j w)"
| step: "jreach E s \<Longrightarrow> jstep E s e s' \<Longrightarrow> jreach E s'"

inductive_cases jstep_stopE: "jstep E s EvStop s'"
inductive_cases jstep_cleanup_doneE: "jstep E s EvCleanupDone s'"
inductive_cases jstep_exitedE: "jstep E s EvExited s'"

section \<open>The invariant\<close>

definition before_report :: "pstate \<Rightarrow> bool" where
  "before_report p \<longleftrightarrow> (\<forall>c. p \<noteq> Reported c)"

definition exit_state :: "pstate \<Rightarrow> int option" where
  "exit_state p = (case p of Collected c \<Rightarrow> Some c | Reported c \<Rightarrow> Some c | _ \<Rightarrow> None)"

text \<open>
  Both reader counters count the open readers; the recorded exit state is that of the
  process; the channel is open until the exit has been reported; a job is ended, or stopped
  with its process gone, only with a closed channel; a removed job has no readers.
\<close>

definition jinv :: "jsys \<Rightarrow> bool" where
  "jinv s \<longleftrightarrow>
     \<not> panicked s \<and>
     outLock (sj s) = int (length (sreaders s)) \<and>
     logReaders (sj s) = of_nat (length (sreaders s)) \<and>
     ProcessState (job_cmd (sj s)) = exit_state (proc s) \<and>
     (before_report (proc s) \<longrightarrow> \<not> done_closed (sj s)) \<and>
     (running (job_handler (sj s)) \<longrightarrow> before_report (proc s)) \<and>
     (job_handler (sj s) = endedHandler \<longrightarrow> \<not> before_report (proc s) \<and> done_closed (sj s)) \<and>
     (job_handler (sj s) = stoppedHandler \<and> \<not> before_report (proc s) \<longrightarrow> done_closed (sj s)) \<and>
     (job_handler (sj s) = zombieHandler \<longrightarrow> sreaders s = [])"

lemma before_report_simps [simp]:
  "before_report Alive" "before_report (Dead c)" "before_report (Collected c)"
  "\<not> before_report (Reported c)"
  by (simp_all add: before_report_def)

lemma exit_state_simps [simp]:
  "exit_state Alive = None" "exit_state (Dead c) = None" "exit_state (Collected c) = Some c"
  "exit_state (Reported c) = Some c"
  by (simp_all add: exit_state_def)

lemma jinv_init: "fresh_job j \<Longrightarrow> jinv (jsys_init j w)"
  by (simp add: jinv_def jsys_init_def fresh_job_def)

lemma length_remove_nth: "i < length xs \<Longrightarrow> length (remove_nth i xs) = length xs - 1"
  by (simp add: remove_nth_def)

text \<open>Each method, reduced to what it changes of the job.\<close>

lemma InitStop_result:
  assumes "InitStop E d (j, w) = (r, (j', w'))"
  shows "j' = j \<or> (job_handler j = activeHandler \<and>
     (j' = arm_timer d j \<or> j' = setHandler stoppingHandler (arm_timer d j)))"
  using assms
  by (cases "job_handler j = activeHandler")
    (auto simp: InitStop_active InitStop_other split: prod.splits sum.splits)

lemma job_Stop_result:
  assumes "job_Stop E (j, w) = (r, (j', w'))"
  shows "j' = j \<or> (running (job_handler j) \<and>
     (j' = before_kill j \<or> j' = setHandler stoppedHandler (before_kill j)))"
  using assms
  by (cases "running (job_handler j)")
    (auto simp: job_Stop_running job_Stop_other split: prod.splits sum.splits)

lemma timer_stop_result:
  assumes "timer_stop E (j, w) = (r, (j', w'))"
  shows "j' = j \<or> (running (job_handler j) \<and>
     (j' = before_kill j \<or> j' = setHandler stoppedHandler (before_kill j)))"
proof -
  obtain r' where "job_Stop E (j, w) = (r', (j', w'))"
    using assms by (cases "job_Stop E (j, w)") (auto simp: timer_stop_def sm_try_def)
  then show ?thesis by (rule job_Stop_result)
qed

lemma job_Logs_result:
  assumes "job_Logs E (j, w) = (r, (j', w'))"
  shows "(case r of Inl _ \<Rightarrow> j' = j
     | Inr _ \<Rightarrow> job_handler j \<noteq> zombieHandler \<and>
         j' = j\<lparr>outLock := outLock j + 1, logReaders := logReaders j + 1\<rparr>)"
  using assms by (auto simp: job_Logs_eq split: prod.splits sum.splits if_splits)

lemma job_Cleanup_result:
  assumes "job_Cleanup E (j, w) = (Ret r, (j', w'))"
  shows "(case r of Inl _ \<Rightarrow> j' = j
     | Inr _ \<Rightarrow> job_handler j \<noteq> zombieHandler \<and> outLock j = 0 \<and> j' = setHandler zombieHandler j)"
  using assms by (auto simp: job_Cleanup_eq split: prod.splits sum.splits if_splits)

lemma reader_Close_result:
  assumes "reader_Close E rd (j, w) = (r, (j', w'))"
  shows "j' = j\<lparr>logReaders := logReaders j - 1, outLock := outLock j - 1\<rparr> \<and>
     (panics r \<longleftrightarrow> outLock j \<le> 0)"
  using assms by (auto simp: reader_Close_def Let_def split: prod.splits if_splits)

lemma job_exited_result:
  assumes "job_exited E (j, w) = (r, (j', w'))" and "\<not> done_closed j"
  shows "\<not> panics r \<and>
     (if closes_done (job_handler j)
      then j' = setHandler (exited_handler (job_handler j))
                 ((before_kill (record_exit j))\<lparr>done_closed := True\<rparr>)
      else j' = record_exit j)"
  using assms by (auto simp: job_exited_eq Let_def split: if_splits)

lemmas method_results = InitStop_result job_Stop_result timer_stop_result job_Logs_result
  job_Cleanup_result reader_Close_result

lemma jinv_fields_eq:
  assumes "jinv s" and "outLock j = outLock (sj s)" and "logReaders j = logReaders (sj s)"
    and "job_cmd j = job_cmd (sj s)" and "done_closed j = done_closed (sj s)"
    and "job_handler j = job_handler (sj s)"
  shows "jinv (s\<lparr>sj := j\<rparr>)"
  using assms by (simp add: jinv_def)

lemma jinv_close:
  assumes inv: "jinv s" and i: "i < length (sreaders s)"
    and cl: "reader_Close E rd (sj s, sw s) = (r, (j, w))"
  shows "jinv (s\<lparr>sj := j, sw := w, sreaders := remove_nth i (sreaders s),
    panicked := panicked s \<or> panics r\<rparr>)"
proof -
  from reader_Close_result[OF cl] inv i have j: "j = (sj s)\<lparr>logReaders := logReaders (sj s) - 1,
      outLock := outLock (sj s) - 1\<rparr>" and np: "\<not> panics r"
    by (auto simp: jinv_def)
  from i obtain n where n: "length (sreaders s) = Suc n" by (cases "length (sreaders s)") auto
  with i have len: "length (remove_nth i (sreaders s)) = n" by (simp add: length_remove_nth)
  from i have "sreaders s \<noteq> []" by auto
  with inv np len n show ?thesis by (auto simp: jinv_def j)
qed

lemma jinv_sw [simp]: "jinv (s\<lparr>sw := w\<rparr>) = jinv s"
  by (simp add: jinv_def)

lemma jinv_running_change:
  assumes "jinv s" and "running (job_handler (sj s))" and "running h \<or> h = stoppedHandler"
    and "outLock j = outLock (sj s)" and "logReaders j = logReaders (sj s)"
    and "job_cmd j = job_cmd (sj s)" and "done_closed j = done_closed (sj s)"
    and "job_handler j = h"
  shows "jinv (s\<lparr>sj := j\<rparr>)"
  using assms by (auto simp: jinv_def running_def)

lemma jinv_exited:
  assumes inv: "jinv s" and p: "proc s = Collected c"
    and ex: "job_exited E (sj s, sw s) = (r, (j, w))"
  shows "jinv (s\<lparr>sj := j, sw := w, proc := Reported c, panicked := panicked s \<or> panics r\<rparr>)"
proof -
  have nd: "\<not> done_closed (sj s)" using inv p by (auto simp: jinv_def)
  from job_exited_result[OF ex nd] inv p show ?thesis
    by (cases "job_handler (sj s)") (auto simp: jinv_def closes_done_def)
qed

lemma jstep_inv: "jstep E s e s' \<Longrightarrow> jinv s \<Longrightarrow> jinv s'"
proof (induction rule: jstep.induct)
  case (init_stop s d r j w)
  from InitStop_result[OF init_stop(2)] init_stop(3) show ?case
    by (auto intro: jinv_fields_eq jinv_running_change[where h = stoppingHandler])
next
  case (stop s r j w)
  from job_Stop_result[OF stop(2)] stop(3) show ?case
    by (auto intro: jinv_fields_eq jinv_running_change[where h = stoppedHandler])
next
  case (logs s rd j w follow)
  from job_Logs_result[OF logs(2)] logs(3) show ?case
    by (auto simp: jinv_def)
next
  case (logs_err s e j w follow)
  from job_Logs_result[OF logs_err(2)] logs_err(3) show ?case
    by (auto intro: jinv_fields_eq)
next
  case (cleanup s)
  then show ?case by (simp add: jinv_def)
next
  case (cleanup_done s r j w)
  from job_Cleanup_result[OF cleanup_done(2)] cleanup_done(3) show ?case
    by (auto simp: jinv_def split: sum.splits)
next
  case (die s c)
  then show ?case by (auto simp: jinv_def)
next
  case (wait s c)
  then show ?case by (auto simp: jinv_def)
next
  case (exited s c r j w)
  then show ?case by (intro jinv_exited)
next
  case (fire t s)
  then show ?case by (simp add: jinv_def)
next
  case (timer s r j w)
  from timer_stop_result[OF timer(3)] timer(4) show ?case
    by (auto simp: jinv_def running_def)
next
  case (end_reader i s r j w)
  then show ?case by (intro jinv_close)
next
  case (cancel i s r j w)
  then show ?case by (intro jinv_close)
qed

lemma jreach_inv: "jreach E s \<Longrightarrow> jinv s"
  by (induction rule: jreach.induct) (auto intro: jinv_init jstep_inv)

section \<open>Runs\<close>

fun jrun :: "os_env \<Rightarrow> jsys \<Rightarrow> jevent list \<Rightarrow> jsys \<Rightarrow> bool" where
  "jrun E s [] s' \<longleftrightarrow> s' = s"
| "jrun E s (e # es) s' \<longleftrightarrow> (\<exists>t. jstep E s e t \<and> jrun E t es s')"

lemma jrun_reach: "jreach E s \<Longrightarrow> jrun E s es s' \<Longrightarrow> jreach E s'"
  by (induction es arbitrary: s) (auto intro: jreach.step)

text \<open>A job of an environment without faults, for the examples.\<close>

definition demo_job :: job where
  "demo_job = (new_job ''id'' 0 0)\<lparr>jobDir := ''/j'', outFilePath := ''/j/o'', cgroupOuter := ''/c''\<rparr>"

definition demo_world :: world where
  "demo_world = \<lparr>fs = [(''/j'', Dir), (''/j/o'', File []), (''/c'', Dir)], trace = []\<rparr>"

lemma fresh_demo: "fresh_job demo_job"
  by (simp add: fresh_job_def demo_job_def new_job_def no_cmd_def)

lemma reach_demo: "jreach quiet_env (jsys_init demo_job demo_world)"
  by (rule jreach.start [OF fresh_demo])

lemma os_do_quiet_signal [simp]:
  "os_do quiet_env (SSignal g) w = (Inr (), w\<lparr>trace := trace w @ [SSignal g]\<rparr>)"
  by (simp add: os_do_def os_call_def quiet_env_def sm_defs Let_def)

section \<open>Safety\<close>

text \<open>
  C1. In no interleaving of the callers, the waiting goroutine, the timers and the log
  readers does a method of a job panic: \<^verbatim>\<open>close(done)\<close> never meets a closed channel, and
  closing a reader never takes the wait group below zero.
\<close>

theorem job_never_panics:
  assumes "jreach E s"
  shows "\<not> panicked s \<and> outLock (sj s) = int (length (sreaders s)) \<and>
    logReaders (sj s) = of_nat (length (sreaders s))"
  using jreach_inv[OF assms] by (simp add: jinv_def)

theorem job_never_panics_witness:
  "\<exists>s. jreach quiet_env s \<and> \<not> panicked s \<and> outLock (sj s) = 0"
proof -
  have "\<not> panicked (jsys_init demo_job demo_world) \<and>
      outLock (sj (jsys_init demo_job demo_world)) = int (length (sreaders (jsys_init demo_job demo_world)))"
    using job_never_panics[OF reach_demo] by blast
  then show ?thesis using reach_demo by (auto simp: jsys_init_def)
qed

text \<open>The order of the handlers is kept by every step.\<close>

lemma exited_handler_le: "h \<le> exited_handler h"
  by (cases h) (simp_all add: less_eq_handler_def)

lemma running_le_stopped: "running h \<Longrightarrow> h \<le> stoppedHandler"
  by (auto simp: running_def)

lemma job_exited_handler:
  assumes "job_exited E (j, w) = (r, (j', w'))"
  shows "job_handler j \<le> job_handler j'"
  using assms exited_handler_le[of "job_handler j"]
  by (auto simp: job_exited_eq Let_def split: if_splits)

text \<open>
  The life cycle of a job is one-way: every step of every goroutine moves its state up
  in the order active, stopping, stopped or ended, removed. A stopped or ended job never
  runs again, a removed one stays removed, and an ended job never becomes a stopped one.
\<close>

lemma job_lifecycle_monotone:
  assumes "jstep E s e s'"
  shows "job_handler (sj s) \<le> job_handler (sj s')"
  using assms
proof (cases rule: jstep.cases)
  case (init_stop d j w r)
  with InitStop_result[OF init_stop(4)] show ?thesis by auto
next
  case (stop j w r)
  with job_Stop_result[OF stop(4)] show ?thesis by (auto intro: running_le_stopped)
next
  case (logs follow rd j w)
  with job_Logs_result[OF logs(4)] show ?thesis by auto
next
  case (logs_err follow e' j w)
  with job_Logs_result[OF logs_err(4)] show ?thesis by auto
next
  case (cleanup_done j w r)
  with job_Cleanup_result[OF cleanup_done(4)] show ?thesis by (auto split: sum.splits)
next
  case (exited c r j w)
  with job_exited_handler show ?thesis by auto
next
  case (timer j w r)
  with timer_stop_result[OF timer(5)] show ?thesis by (auto intro: running_le_stopped)
next
  case (end_reader i r j w)
  with reader_Close_result[OF end_reader(5)] show ?thesis by auto
next
  case (cancel i r j w)
  with reader_Close_result[OF cancel(4)] show ?thesis by auto
qed auto

lemma demo_stop:
  "jstep quiet_env (jsys_init demo_job demo_world) EvStop
     ((jsys_init demo_job demo_world)\<lparr>sj := setHandler stoppedHandler demo_job,
        sw := demo_world\<lparr>trace := [SSignal SIGKILL]\<rparr>\<rparr>)"
proof (rule jstep.stop)
  have "job_handler demo_job = activeHandler" by (simp add: demo_job_def new_job_def)
  then show "job_Stop quiet_env (sj (jsys_init demo_job demo_world), sw (jsys_init demo_job demo_world))
      = (Inr (), (setHandler stoppedHandler demo_job, demo_world\<lparr>trace := [SSignal SIGKILL]\<rparr>))"
    by (simp add: jsys_init_def job_Stop_running before_kill_def demo_world_def)
qed (simp add: jsys_init_def)


definition demo_collected :: jsys where
  "demo_collected = (jsys_init demo_job demo_world)
     \<lparr>sj := demo_job\<lparr>job_cmd := (job_cmd demo_job)\<lparr>ProcessState := Some 77\<rparr>\<rparr>, proc := Collected 77\<rparr>"

lemma reach_demo_collected: "jreach quiet_env demo_collected"
proof -
  let ?s = "jsys_init demo_job demo_world"
  have "jstep quiet_env ?s (EvDie 77) (?s\<lparr>proc := Dead 77\<rparr>)"
    by (rule jstep.die) (simp add: jsys_init_def)
  moreover have "jstep quiet_env (?s\<lparr>proc := Dead 77\<rparr>) EvWait demo_collected"
    using jstep.wait[of "?s\<lparr>proc := Dead 77\<rparr>" 77 quiet_env]
    by (simp add: demo_collected_def jsys_init_def)
  ultimately show ?thesis using reach_demo by (blast intro: jreach.step)
qed

lemma demo_reported:
  "\<exists>s. jreach quiet_env s \<and> job_handler (sj s) = endedHandler"
proof -
  obtain r j w where ex: "job_exited quiet_env (sj demo_collected, sw demo_collected) = (r, (j, w))"
    by (metis prod.exhaust)
  let ?t = "demo_collected\<lparr>sj := j, sw := w, proc := Reported 77,
         panicked := panicked demo_collected \<or> panics r\<rparr>"
  have "jstep quiet_env demo_collected EvExited ?t"
    by (rule jstep.exited[OF _ _ ex]) (simp_all add: demo_collected_def jsys_init_def)
  then have "jreach quiet_env ?t"
    by (rule jreach.step[OF reach_demo_collected])
  moreover have "job_handler j = endedHandler"
    using job_exited_result[OF ex]
    by (simp add: demo_collected_def demo_job_def new_job_def closes_done_def)
  ultimately show ?thesis by (intro exI[of _ ?t]) simp
qed


text \<open>
  C19. Removal never pulls the output from under a reader: a removed job has no open
  reader and gives out no new one, so the directory is deleted only when nobody reads it.
\<close>

theorem removed_job_has_no_readers:
  assumes "jreach E s" and "job_handler (sj s) = zombieHandler"
  shows "sreaders s = [] \<and> job_Logs E (sj s, sw s) = (Inl (Errorf ''job is removed''), (sj s, sw s))"
  using jreach_inv[OF assms(1)] assms(2) by (simp add: jinv_def job_Logs_eq)

lemma demo_removed:
  "\<exists>s. jreach quiet_env s \<and> job_handler (sj s) = zombieHandler \<and> proc s = Alive"
proof -
  let ?s = "(jsys_init demo_job demo_world)\<lparr>cleaning := True\<rparr>"
  have 1: "jstep quiet_env (jsys_init demo_job demo_world) EvCleanup ?s"
    by (rule jstep.cleanup) (simp add: jsys_init_def)
  obtain w where w: "job_Cleanup quiet_env (sj ?s, sw ?s) = (Ret (Inr ()), (setHandler zombieHandler demo_job, w))"
    by (simp add: job_Cleanup_eq jsys_init_def demo_job_def new_job_def os_do_def os_call_def
        quiet_env_def sm_defs Let_def)
  let ?t = "?s\<lparr>sj := setHandler zombieHandler demo_job, sw := w, cleaning := False\<rparr>"
  have "jstep quiet_env ?s EvCleanupDone ?t"
    by (rule jstep.cleanup_done[OF _ w]) simp
  then have "jreach quiet_env ?t"
    by (rule jreach.step[OF jreach.step[OF reach_demo 1]])
  then show ?thesis by (intro exI[of _ ?t]) (simp add: jsys_init_def)
qed

theorem removed_job_has_no_readers_witness:
  "\<exists>s. jreach quiet_env s \<and> job_handler (sj s) = zombieHandler \<and> sreaders s = []"
  using demo_removed removed_job_has_no_readers by blast

end
