(* ===== verification/Job_New.thy ===== *)
theory Job_New
  imports Job_Concurrency
begin

text \<open>
  What \<^verbatim>\<open>New\<close> of \<^verbatim>\<open>src/pkg/job/job.go\<close> guarantees: the job it returns, what is left
  behind when it fails, and the command line it gives to the shim.
\<close>

section \<open>Fields that creation does not change\<close>

text \<open>A predicate on the job alone is kept by every call that only changes the world.\<close>

lemma sm_pres_const [pres]: "sm_pres (\<lambda>_. c) m"
  by (simp add: sm_pres_def)

text \<open>The fields that are final once the options have been applied.\<close>

definition job_core :: "job \<Rightarrow> job" where
  "job_core j =
     j\<lparr>jobDir := [], workDir := [], outFilePath := [], cgroupOuter := [], cgroupInner := [],
       job_cmd := no_cmd\<rparr>"

text \<open>Set-up keeps the core and the directories and does not touch the process state.\<close>

definition set_up :: "job \<Rightarrow> job \<times> world \<Rightarrow> bool" where
  "set_up j0 s \<longleftrightarrow> job_core (fst s) = job_core j0 \<and> jobDir (fst s) = jobDir j0 \<and>
     workDir (fst s) = workDir j0 \<and> outFilePath (fst s) = outFilePath j0 \<and>
     ProcessState (job_cmd (fst s)) = ProcessState (job_cmd j0)"

lemma set_up_refl [simp]: "set_up j (j, w)"
  by (simp add: set_up_def)

lemma pres_set_up_world [pres]: "sm_pres (set_up j0) (on_world m)"
  unfolding set_up_def by (rule pres_on_world) (simp add: pres)

lemma outer_cgroup_set_up: "sm_pres (set_up j0) (outer_cgroup E)"
proof -
  have 1: "sm_pres (set_up j0) (\<lambda>s. case findCgroupMount E (snd s) of (r, w) \<Rightarrow> (Inr r, (fst s, w)))"
    by (auto simp: sm_pres_def set_up_def split: prod.splits)
  have 2: "sm_pres (set_up j0) (set_job (\<lambda>j. j\<lparr>cgroupOuter := p\<rparr>))" for p
    by (rule pres_set_job) (simp add: set_up_def job_core_def)
  show ?thesis
    unfolding outer_cgroup_def Let_def case_prod_beta by (intro pres 2 1[unfolded case_prod_beta])
qed

lemma inner_cgroup_set_up: "sm_pres (set_up j0) (inner_cgroup E)"
proof -
  have 1: "sm_pres (set_up j0) (set_job (\<lambda>j. j\<lparr>cgroupInner := path_Join [cgroupOuter j, ''inner'']\<rparr>))"
    by (rule pres_set_job) (simp add: set_up_def job_core_def)
  show ?thesis unfolding inner_cgroup_def by (intro pres 1)
qed

lemma setupCgroup_set_up: "sm_pres (set_up j0) (setupCgroup E)"
  unfolding setupCgroup_def by (intro pres outer_cgroup_set_up inner_cgroup_set_up)

lemma spawn_set_up: "ProcessState (job_cmd j0) = None \<Longrightarrow> sm_pres (set_up j0) (spawn (defSysFun E) E)"
proof -
  assume none: "ProcessState (job_cmd j0) = None"
  have 1: "sm_pres (set_up j0) (set_job (\<lambda>j. j\<lparr>job_cmd := c\<rparr>))" if "ProcessState c = None" for c
    by (rule pres_set_job) (simp add: set_up_def job_core_def that none)
  show ?thesis unfolding spawn_def Let_def defSysFun_calls by (intro pres 1) simp
qed

lemma launch_set_up: "ProcessState (job_cmd j0) = None \<Longrightarrow> sm_pres (set_up j0) (launch E)"
  unfolding launch_def by (intro pres setupCgroup_set_up spawn_set_up)

lemma guarded_start_set_up:
  assumes "ProcessState (job_cmd j) = None"
  shows "set_up j (snd (guarded_start E (j, w)))"
proof -
  have "sm_pres (set_up j) (guarded_start E)"
    unfolding guarded_start_def rmJobDirs_def using assms by (intro pres launch_set_up)
  then show ?thesis by (rule sm_presD) simp
qed

section \<open>The directories\<close>

definition job_dir_of :: "job \<Rightarrow> string" where
  "job_dir_of j = path_Join [baseJobDir j, ID j]"

lemma initJobDirs_result:
  assumes "initJobDirs E (j, w) = (r, (j', w'))"
  shows "(case r of Inl _ \<Rightarrow> j' = j
     | Inr _ \<Rightarrow> j' = j\<lparr>jobDir := job_dir_of j, workDir := path_Join [job_dir_of j, ''workDir''],
         outFilePath := path_Join [path_Join [job_dir_of j, ''out''], ''output'']\<rparr>)"
proof -
  define m where "m = sm_then (sm_try (os_do E (SRemoveAll (job_dir_of j))))
          (sm_then (os_do E (SMkdirAll (path_Join [job_dir_of j, ''out''])))
          (sm_then (sm_onerr (os_do E (SMkdirAll (path_Join [job_dir_of j, ''workDir''])))
                      (sm_try (os_do E (SRemoveAll (job_dir_of j)))))
                   (sm_onerr (os_do E (SChown (path_Join [job_dir_of j, ''workDir'']) (UID (ids j)) (GID (ids j))))
                      (sm_try (os_do E (SRemoveAll (job_dir_of j)))))))"
  have "initJobDirs E (j, w) = sm_then (on_world m) (set_job (\<lambda>j'. j'\<lparr>jobDir := job_dir_of j,
      workDir := path_Join [job_dir_of j, ''workDir''],
      outFilePath := path_Join [path_Join [job_dir_of j, ''out''], ''output'']\<rparr>)) (j, w)"
    by (simp add: initJobDirs_def with_job_def Let_def m_def job_dir_of_def)
  with assms show ?thesis
    by (auto simp: sm_then_def sm_bind_def on_world_def set_job_def split: prod.splits sum.splits)
qed

section \<open>A successful creation\<close>

lemma spawn_cmd:
  assumes "spawn (defSysFun E) E (j, w) = (Inr (), (j', w'))"
  shows "j' = j\<lparr>job_cmd := \<lparr>cmd_Path = shimPath j, cmd_Args = shimPath j # cmdArgs j,
    cmd_Dir = workDir j, ProcessState = None\<rparr>\<rparr>"
  using assms
  by (auto simp: spawn_def Let_def sm_then_def sm_bind_def job_sm_defs split: prod.splits sum.splits)

lemma launch_cmd:
  assumes "launch E (j, w) = (Inr (), (j', w'))"
  shows "cmd_Path (job_cmd j') = shimPath j' \<and> cmd_Args (job_cmd j') = shimPath j' # cmdArgs j' \<and>
    cmd_Dir (job_cmd j') = workDir j'"
proof -
  obtain j1 w1 w2 where s: "spawn (defSysFun E) E (j1, w1) = (Inr (), (j', w2))"
    using assms
    by (auto simp: launch_def sm_then_def sm_bind_def sm_finally_def sm_try_def on_world_def
        split: prod.splits sum.splits)
  show ?thesis unfolding spawn_cmd[OF s] by (simp add: cmdArgs_def)
qed

lemma guarded_start_cmd:
  assumes "guarded_start E (j, w) = (Inr (), (j', w'))"
  shows "cmd_Path (job_cmd j') = shimPath j' \<and> cmd_Args (job_cmd j') = shimPath j' # cmdArgs j' \<and>
    cmd_Dir (job_cmd j') = workDir j'"
proof -
  obtain j1 w1 where "launch E (j1, w1) = (Inr (), (j', w'))"
    using assms
    by (auto simp: guarded_start_def with_job_def sm_then_def sm_bind_def sm_onerr_def
        split: prod.splits sum.splits)
  then show ?thesis by (rule launch_cmd)
qed

definition created :: "os_env \<Rightarrow> string \<Rightarrow> string list \<Rightarrow> exec_limits \<Rightarrow> exec_identity \<Rightarrow> world \<Rightarrow> job" where
  "created E cmd args lim i w =
     (new_job (os_xid E (trace w)) (os_uid E) (os_gid E))
       \<lparr>limits := lim, ids := i, Command := cmd, job_Args := args\<rparr>"

lemma createJob_options:
  "(apply_options [opt_CPU (CPU lim), opt_Mem (MaxRAMBytes lim), opt_IO (MaxDiskIOBytes lim),
      opt_UID (UID i), opt_GID (GID i)] (new_job x u g))\<lparr>Command := cmd, job_Args := args\<rparr>
    = (new_job x u g)\<lparr>limits := lim, ids := i, Command := cmd, job_Args := args\<rparr>"
  by (simp add: apply_options_def option_defs new_job_def no_limits_def)

lemma createJob_cases:
  assumes "createJob E cmd args lim i w = (r, w')"
  obtains
    (init_error) e s where "initJobDirs E (created E cmd args lim i w, w) = (Inl e, s)"
      "r = Inl (Wrapf ''failed to create job'' e)" "w' = snd s"
  | (start_error) e j2 w2 s where "initJobDirs E (created E cmd args lim i w, w) = (Inr (), (j2, w2))"
      "guarded_start E (j2\<lparr>job_handler := activeHandler\<rparr>, w2) = (Inl e, s)" "r = Inl e" "w' = snd s"
  | (ok) j2 w2 j3 where "initJobDirs E (created E cmd args lim i w, w) = (Inr (), (j2, w2))"
      "guarded_start E (j2\<lparr>job_handler := activeHandler\<rparr>, w2) = (Inr (), (j3, w'))" "r = Inr j3"
proof -
  let ?j1 = "created E cmd args lim i w"
  have eq: "createJob E cmd args lim i w =
      (case sm_wrap ''failed to create job'' (initJobDirs E) (?j1, w) of
         (Inl e, s) \<Rightarrow> (Inl e, snd s)
       | (Inr _, (j2, w2)) \<Rightarrow>
           (case guarded_start E (j2\<lparr>job_handler := activeHandler\<rparr>, w2) of
              (Inl e, s) \<Rightarrow> (Inl e, snd s)
            | (Inr _, (j3, w3)) \<Rightarrow> (Inr j3, w3)))"
    unfolding createJob_def job_New_def Let_def createJob_options created_def ..
  obtain r1 j2 w2 where i: "initJobDirs E (?j1, w) = (r1, (j2, w2))" by (metis prod.exhaust)
  show thesis
  proof (cases r1)
    case (Inl e)
    show thesis
      by (rule init_error[of e "(j2, w2)"]) (use assms i Inl in \<open>auto simp: eq sm_wrap_def\<close>)
  next
    case (Inr u)
    note r1 = this
    obtain r2 j3 w3 where g: "guarded_start E (j2\<lparr>job_handler := activeHandler\<rparr>, w2) = (r2, (j3, w3))"
      by (metis prod.exhaust)
    show thesis
    proof (cases r2)
      case (Inl e)
      show thesis
        by (rule start_error[of j2 w2 e "(j3, w3)"]) (use assms i g r1 Inl in \<open>auto simp: eq sm_wrap_def\<close>)
    next
      case (Inr u')
      show thesis
        by (rule ok[of j2 w2 j3]) (use assms i g r1 Inr in \<open>auto simp: eq sm_wrap_def\<close>)
    qed
  qed
qed

lemma createJob_result:
  assumes "createJob E cmd args lim i w = (Inr j, w')"
  shows "fresh_job j \<and> ID j = os_xid E (trace w) \<and> Command j = cmd \<and> job_Args j = args \<and>
    limits j = lim \<and> ids j = i \<and> jobDir j = path_Join [defaultBasePath, ID j] \<and>
    cmd_Path (job_cmd j) = defaultShimPath \<and> cmd_Args (job_cmd j) = defaultShimPath # cmdArgs j \<and>
    cmd_Dir (job_cmd j) = path_Join [jobDir j, ''workDir'']"
  using assms
proof (cases rule: createJob_cases)
  case (ok j2 w2 j3)
  note j2 = initJobDirs_result[OF ok(1), simplified]
  let ?j2 = "j2\<lparr>job_handler := activeHandler\<rparr>"
  have none: "ProcessState (job_cmd ?j2) = None"
    by (simp add: j2 created_def new_job_def no_cmd_def)
  have up: "set_up ?j2 (j3, w')"
    using guarded_start_set_up[OF none, of E w2] ok(2) by simp
  note cmd = guarded_start_cmd[OF ok(2)]
  from up have core: "job_core j3 = job_core ?j2" and dirs: "jobDir j3 = jobDir ?j2"
    "workDir j3 = workDir ?j2" "ProcessState (job_cmd j3) = None"
    using none by (simp_all add: set_up_def)
  have f: "ID j3 = ID ?j2" "Command j3 = Command ?j2" "job_Args j3 = job_Args ?j2"
    "limits j3 = limits ?j2" "ids j3 = ids ?j2" "shimPath j3 = shimPath ?j2"
    "job_handler j3 = activeHandler" "outLock j3 = outLock ?j2" "logReaders j3 = logReaders ?j2"
    "done_closed j3 = done_closed ?j2" "armed j3 = armed ?j2" "stopTimer j3 = stopTimer ?j2"
    using arg_cong[OF core, of ID] arg_cong[OF core, of Command] arg_cong[OF core, of job_Args]
      arg_cong[OF core, of limits] arg_cong[OF core, of ids] arg_cong[OF core, of shimPath]
      arg_cong[OF core, of job_handler] arg_cong[OF core, of outLock]
      arg_cong[OF core, of logReaders] arg_cong[OF core, of done_closed]
      arg_cong[OF core, of armed] arg_cong[OF core, of stopTimer]
    by (simp_all only: job_core_def job.simps job.surjective simp_thms) simp_all
  show ?thesis
    using ok(3) f dirs cmd
    by (simp add: j2 created_def new_job_def fresh_job_def job_dir_of_def)
qed simp_all

lemma createJob_id: "createJob E cmd args lim i w = (Inr j, w') \<Longrightarrow> ID j = os_xid E (trace w)"
  using createJob_result by blast

text \<open>
  A job that was created is active, has no readers, no timer and an open channel; it
  has the generated identifier, the command, the limits and the identity that were asked
  for; its directory is the one of that identifier below the base directory; and the
  process that was started is the shim, in the working directory of the job, with the
  command line that describes the job.
\<close>

lemma createJob_ok:
  assumes "createJob E cmd args lim i w = (Inr j, w')"
  shows "fresh_job j \<and> ID j = os_xid E (trace w) \<and> Command j = cmd \<and> job_Args j = args \<and>
    limits j = lim \<and> ids j = i \<and> jobDir j = path_Join [defaultBasePath, ID j] \<and>
    cmd_Path (job_cmd j) = defaultShimPath \<and> cmd_Args (job_cmd j) = defaultShimPath # cmdArgs j \<and>
    cmd_Dir (job_cmd j) = path_Join [jobDir j, ''workDir'']"
  by (rule createJob_result[OF assms])

section \<open>A demonstration environment\<close>

text \<open>An environment with a cgroup mount, in which one given call fails.\<close>

definition mounts_env :: "syscall list \<Rightarrow> string \<Rightarrow> os_env" where
  "mounts_env bad child =
     \<lparr>os_fault = (\<lambda>_ c. if c \<in> set bad then Some (''EIO'', []) else None),
      os_read = (\<lambda>_ c. case c of SReadProc _ \<Rightarrow> ''cgroup2 /cg cgroup2 rw'' | SReadPipe \<Rightarrow> child | _ \<Rightarrow> []),
      os_xid = (\<lambda>_. ''x''), os_uid = 0, os_gid = 0, os_pid = 1\<rparr>"

definition empty_world :: world where
  "empty_world = \<lparr>fs = [], trace = []\<rparr>"

definition root_ids :: exec_identity where
  "root_ids = \<lparr>UID = 0, GID = 0\<rparr>"

text \<open>The calls of a creation in this environment, by evaluation.\<close>

lemma demo_createJob_evaluates:
  "\<not> isl (fst (createJob (mounts_env [] []) ''ls'' [''-l''] no_limits root_ids empty_world))"
  by code_simp

lemma demo_createJob:
  "\<exists>j w. createJob (mounts_env [] []) ''ls'' [''-l''] no_limits root_ids empty_world = (Inr j, w)"
  using demo_createJob_evaluates
  by (cases "createJob (mounts_env [] []) ''ls'' [''-l''] no_limits root_ids empty_world") (case_tac a, auto)

section \<open>A failed creation\<close>

lemma path_clean_nonempty [simp]: "path_clean p \<noteq> []"
  by (simp add: path_clean_def Let_def)

lemma snd_try_then: "snd (sm_then (sm_try a) (sm_try b) s) = snd (b (snd (a s)))"
  by (simp add: sm_then_def sm_bind_def sm_try_def)

lemma snd_rmJobDirs: "snd (rmJobDirs E (j, w)) = (j, snd (os_call E (SRemoveAll (jobDir j)) w))"
  by (simp add: rmJobDirs_def with_job_def)

lemma guarded_start_error:
  assumes "guarded_start E (j, w) = (Inl e, (j', w'))" and "ProcessState (job_cmd j) = None"
  shows "\<exists>w1. w' = snd (os_call E (SRemoveAll (jobDir j)) w1)"
proof -
  obtain r w1 where c: "os_do E (SCreate (outFilePath j)) w = (r, w1)" by (metis prod.exhaust)
  show ?thesis
  proof (cases r)
    case (Inl e1)
    with assms(1) c have "(j', w') = snd (rmJobDirs E (j, w1))"
      by (simp add: guarded_start_def with_job_def sm_then_def sm_bind_def sm_onerr_def on_world_def
          sm_try_def)
    then show ?thesis by (auto simp: snd_rmJobDirs)
  next
    case (Inr u)
    obtain r2 j2 w2 where l: "launch E (j, w1) = (r2, (j2, w2))" by (metis prod.exhaust)
    have "set_up j (j2, w2)"
      using sm_presD[OF launch_set_up[OF assms(2), of E], of "(j, w1)"] l by simp
    then have dir: "jobDir j2 = jobDir j" by (simp add: set_up_def)
    show ?thesis
    proof (cases r2)
      case (Inl e2)
      with assms(1) c Inr l
      have "(j', w') = snd (sm_then (sm_try (on_world (os_do E (SClose (outFilePath j)))))
          (sm_try (rmJobDirs E)) (j2, w2))"
        by (simp add: guarded_start_def with_job_def sm_onerr_def sm_bind_def on_world_def
            sm_then_def[of "sm_onerr _ _"])
      then show ?thesis by (auto simp: snd_try_then snd_rmJobDirs dir)
    next
      case (Inr u2)
      with assms(1) c \<open>r = Inr u\<close> l show ?thesis
        by (simp add: guarded_start_def with_job_def sm_then_def sm_bind_def sm_onerr_def on_world_def)
    qed
  qed
qed

text \<open>
  C31. When a creation fails after the directories of the job were made, the last thing it
  does is to remove them; and unless that removal itself fails, nothing is left below the
  directory of the job.
\<close>

theorem failed_creation_removes_directories:
  assumes "createJob E cmd args lim i w = (Inl e, w')"
    and "\<forall>e'. e \<noteq> Wrapf ''failed to create job'' e'"
    and "jd = path_Join [defaultBasePath, os_xid E (trace w)]"
  shows "last (trace w') = SRemoveAll jd \<and>
    (os_fault E (butlast (trace w')) (SRemoveAll jd) = None \<longrightarrow>
      (\<forall>q. under jd q \<longrightarrow> map_of (fs w') q = None))"
  using assms(1)
proof (cases rule: createJob_cases)
  case (start_error e2 j2 w2 s)
  note j2 = initJobDirs_result[OF start_error(1), simplified]
  have jd: "jobDir (j2\<lparr>job_handler := activeHandler\<rparr>) = jd"
    by (simp add: j2 job_dir_of_def created_def new_job_def assms(3))
  have none: "ProcessState (job_cmd (j2\<lparr>job_handler := activeHandler\<rparr>)) = None"
    by (simp add: j2 created_def new_job_def no_cmd_def)
  obtain w1 where w': "w' = snd (os_call E (SRemoveAll jd) w1)"
    using guarded_start_error[of E "j2\<lparr>job_handler := activeHandler\<rparr>" w2 e2 "fst s" w'] none jd
      start_error(2,4) by (cases s) auto
  have ne: "jd \<noteq> []"
    by (simp add: assms(3) path_Join_def defaultBasePath_def)
  have "map_of (fs w') q = None" if "os_fault E (trace w1) (SRemoveAll jd) = None" "under jd q" for q
    using that ne by (simp add: w' os_call_def Let_def map_of_remove_below)
  then show ?thesis by (simp add: w')
qed (use assms(2) in auto)

lemma demo_failed:
  "fst (createJob (mounts_env [] ''boom'') ''ls'' [] no_limits root_ids empty_world)
     = Inl (ErrorfQ ''failed to start the process: '' ''boom'')"
  by code_simp

theorem failed_creation_removes_directories_witness:
  "\<exists>w. createJob (mounts_env [] ''boom'') ''ls'' [] no_limits root_ids empty_world
       = (Inl (ErrorfQ ''failed to start the process: '' ''boom''), w) \<and>
     map_of (fs w) (path_Join [defaultBasePath, ''x'']) = None"
proof -
  obtain w where w: "createJob (mounts_env [] ''boom'') ''ls'' [] no_limits root_ids empty_world
       = (Inl (ErrorfQ ''failed to start the process: '' ''boom''), w)"
    using demo_failed by (metis prod.collapse)
  from failed_creation_removes_directories[OF w _ refl] w show ?thesis
    by (simp add: mounts_env_def)
qed

section \<open>The control group of a failed creation\<close>

text \<open>A directory survives every call but its removal.\<close>

definition is_dir :: "string \<Rightarrow> world \<Rightarrow> bool" where
  "is_dir q w \<longleftrightarrow> map_of (fs w) q = Some Dir"

fun removes :: "syscall \<Rightarrow> string \<Rightarrow> bool" where
  "removes (SRemoveAll p) q \<longleftrightarrow> p \<noteq> [] \<and> under p q"
| "removes (SRemove p) q \<longleftrightarrow> p = q"
| "removes _ q \<longleftrightarrow> False"

lemma mk_dirs_keeps_dir: "map_of f q = Some Dir \<Longrightarrow> map_of (snd (mk_dirs ds f)) q = Some Dir"
  by (induction ds f rule: mk_dirs.induct) (auto split: option.splits fnode.splits)

lemma mk_dirs_makes:
  "fst (mk_dirs ds f) = Inr () \<Longrightarrow> q \<in> set ds \<Longrightarrow> map_of (snd (mk_dirs ds f)) q = Some Dir"
  by (induction ds f rule: mk_dirs.induct)
    (auto simp: mk_dirs_keeps_dir split: option.splits fnode.splits)

lemma fs_effect_keeps_dir:
  "map_of f q = Some Dir \<Longrightarrow> \<not> removes c q \<Longrightarrow> map_of (snd (fs_effect c f)) q = Some Dir"
  by (cases c)
    (auto simp: mk_dirs_keeps_dir map_of_remove_below fs_remove_def fs_exists_def fs_create_def
      fs_open_create_def fs_open_append_def fs_write_def sm_ret_def
      split: option.splits fnode.splits)

lemma fs_partial_keeps_dir:
  "map_of f q = Some Dir \<Longrightarrow> \<not> removes c q \<Longrightarrow> map_of (fs_partial c ps f) q = Some Dir"
  by (cases c) (auto simp: mk_dirs_keeps_dir map_of_filter_key)

lemma pres_is_dir [pres]: "\<not> removes c q \<Longrightarrow> sm_pres (is_dir q) (os_call E c)"
  using fs_effect_keeps_dir[of _ q c] fs_partial_keeps_dir[of _ q c]
  by (auto simp: sm_pres_def is_dir_def os_call_def Let_def split: option.splits prod.splits sum.splits)
    (metis snd_conv)+

lemma os_do_dir: "\<not> removes c q \<Longrightarrow> is_dir q w \<Longrightarrow> is_dir q (snd (os_do E c w))"
  using sm_presD[OF pres_is_dir] by auto

lemma echo_keeps_dir [pres]: "sm_pres (is_dir q) (echo E txt f)"
  by (intro pres) simp_all

lemma limits_keep_dir [pres]:
  "sm_pres (is_dir q) (io_limit E j)" "sm_pres (is_dir q) (ram_limit E j)" "sm_pres (is_dir q) (cpu_limit E j)"
proof -
  have "sm_pres (is_dir q) (\<lambda>s. (parse_lsblk out, s))" for out
    by (simp add: sm_pres_def)
  then show "sm_pres (is_dir q) (io_limit E j)" "sm_pres (is_dir q) (ram_limit E j)"
    "sm_pres (is_dir q) (cpu_limit E j)"
    unfolding io_limit_def ram_limit_def cpu_limit_def listBlockDevs_def Let_def
    by (auto intro!: pres)
qed

lemma os_do_MkdirAll_dir:
  assumes "os_do E (SMkdirAll p) w = (Inr (), w')"
  shows "is_dir p w'"
proof -
  have "fst (os_call E (SMkdirAll p) w) = Inr (projr (fst (os_call E (SMkdirAll p) w)))"
    "w' = snd (os_call E (SMkdirAll p) w)"
    using assms os_do_fst[of E "SMkdirAll p" w] os_do_snd[of E "SMkdirAll p" w]
    by (auto split: sum.splits)
  then show ?thesis
    using mk_dirs_makes[of "ancestors p" "fs w" p]
    by (auto simp: os_call_def Let_def is_dir_def ancestors_def split: option.splits prod.splits sum.splits)
qed

lemma inner_cgroup_dir:
  assumes "inner_cgroup E (j, w) = (Inr (), (j', w'))"
  shows "is_dir (cgroupInner j') w'"
proof -
  let ?j = "j\<lparr>cgroupInner := path_Join [cgroupOuter j, ''inner'']\<rparr>"
  let ?rest = "sm_then (sm_wrap ''failed to setup cgroup''
        (echo E ''+io +cpu +memory'' (path_Join [cgroupOuter ?j, ''cgroup.subtree_control''])))
      (sm_then (io_limit E ?j) (sm_then (ram_limit E ?j) (cpu_limit E ?j)))"
  have j': "j' = ?j" and run: "sm_then (sm_wrap ''failed to create cgroup'' (os_do E (SMkdirAll (cgroupInner ?j)))) ?rest w = (Inr (), w')"
    using assms
    by (auto simp: inner_cgroup_def sm_then_def[of "set_job _"] sm_bind_def set_job_def with_job_def
        on_world_def split: prod.splits)
  then obtain w1 where m: "os_do E (SMkdirAll (cgroupInner ?j)) w = (Inr (), w1)" and r: "?rest w1 = (Inr (), w')"
    by (auto simp: sm_then_def[of "sm_wrap _ (os_do _ _)"] sm_bind_def sm_wrap_def
        split: prod.splits sum.splits)
  have "sm_pres (is_dir (cgroupInner ?j)) ?rest" by (intro pres) simp_all
  then have "is_dir (cgroupInner ?j) (snd (?rest w1))"
    by (rule sm_presD) (rule os_do_MkdirAll_dir[OF m])
  then show ?thesis unfolding r j' by (simp only: snd_conv)
qed

lemma setupCgroup_dir:
  assumes "setupCgroup E (j, w) = (Inr (), (j', w'))"
  shows "is_dir (cgroupInner j') w'"
proof -
  obtain j1 w1 where "inner_cgroup E (j1, w1) = (Inr (), (j', w'))"
    using assms
    by (auto simp: setupCgroup_def sm_bind_def sm_onerr_def split: prod.splits sum.splits if_splits)
  then show ?thesis by (rule inner_cgroup_dir)
qed

end
