(* ===== verification/Supervisor_Steps.thy ===== *)
theory Supervisor_Steps
  imports Supervisor Job_New
begin

text \<open>
  The supervisor under concurrent use: its critical sections interleave with one another
  and with what the goroutines of its jobs do. The invariant says that no job is lost and
  that a job whose process may still run is registered.
\<close>

section \<open>What a job method keeps\<close>

text \<open>Identity is kept, and a job that is not running does not start to run again.\<close>

definition follows :: "job \<Rightarrow> job \<Rightarrow> bool" where
  "follows j j' \<longleftrightarrow> ID j' = ID j \<and> (running (job_handler j') \<longrightarrow> running (job_handler j)) \<and>
     (job_handler j = zombieHandler \<longrightarrow> job_handler j' = zombieHandler)"

lemma follows_refl [simp]: "follows j j"
  by (simp add: follows_def)

lemma follows_InitStop: "InitStop E d (j, w) = (r, (j', w')) \<Longrightarrow> follows j j'"
  by (cases "job_handler j = activeHandler")
    (auto simp: InitStop_active InitStop_other follows_def split: prod.splits sum.splits)

lemma follows_Stop: "job_Stop E (j, w) = (r, (j', w')) \<Longrightarrow> follows j j'"
  by (cases "running (job_handler j)")
    (auto simp: job_Stop_running job_Stop_other follows_def split: prod.splits sum.splits)

lemma follows_Logs: "job_Logs E (j, w) = (r, (j', w')) \<Longrightarrow> follows j j'"
  by (auto simp: job_Logs_eq follows_def split: prod.splits sum.splits if_splits)

lemma follows_Cleanup: "job_Cleanup E (j, w) = (r, (j', w')) \<Longrightarrow> follows j j'"
  by (auto simp: job_Cleanup_eq follows_def split: prod.splits sum.splits if_splits)

lemma follows_exited:
  assumes "job_exited E (j, w) = (r, (j', w'))"
  shows "follows j j'"
proof -
  have i: "ID j' = ID j" using assms
    by (cases "job_handler j") (auto simp: job_exited_eq closes_done_def Let_def split: if_splits)
  have z: "job_handler j' = zombieHandler" if "job_handler j = zombieHandler"
    using job_exited_later[OF assms] that by (auto simp: less_eq_handler_def)
  have "running (job_handler j)" if "running (job_handler j')"
    using job_exited_later[OF assms] that by simp
  with i z show ?thesis by (simp add: follows_def)
qed

lemma follows_timer: "timer_stop E (j, w) = (r, (j', w')) \<Longrightarrow> follows j j'"
  using follows_Stop[of E j w "fst (job_Stop E (j, w))" j' w'] prod.collapse[of "job_Stop E (j, w)"]
  by (simp add: timer_stop_def sm_try_def)

lemma follows_Close: "reader_Close E rd (j, w) = (r, (j', w')) \<Longrightarrow> follows j j'"
  by (auto simp: reader_Close_def Let_def follows_def split: prod.splits)

lemma follows_fire: "follows j (disarm t j)"
  by (simp add: follows_def)

lemma follows_wait: "follows j (j\<lparr>job_cmd := c\<rparr>)"
  by (simp add: follows_def)

lemmas follows_rules = follows_InitStop follows_Stop follows_Logs follows_Cleanup follows_exited
  follows_timer follows_Close follows_fire follows_wait

section \<open>Steps\<close>

text \<open>
  A configuration: the supervisor and the references held by a \<^verbatim>\<open>Remove\<close> or a \<^verbatim>\<open>Cleanup\<close>
  that is past its first critical section. \<^verbatim>\<open>xid\<close> generates identifiers that are unique.
\<close>

inductive sup_step :: "os_env \<Rightarrow> supervisor \<times> ref list \<Rightarrow> supervisor \<times> ref list \<Rightarrow> bool" for E where
  start: "sup_step E (s, p) (s', p)"
    if "sup_Start E cmd args lim s = (r, s')"
      and "\<forall>r j. store s r = Some j \<longrightarrow> ID j \<noteq> os_xid E (trace (sup_world s))"
| stop: "sup_step E (s, p) (s', p)" if "sup_Stop E i g s = (r, s')"
| logs: "sup_step E (s, p) (s', p)" if "sup_Logs E i s = (r, s')"
| unlink: "sup_step E (s, p) (s', r # p)" if "Remove_unlink i s = (Inr r, s')"
| unlink_err: "sup_step E (s, p) (s', p)" if "Remove_unlink i s = (Inl e, s')"
| hold: "sup_step E (s, p) (s', r # p)" if "sup_lookup_remove i s = (Inr r, s')"
| finish: "sup_step E (s, p) (s', remove1 r p)"
    if "r \<in> set p" and "cleanup_or_add E r s = (Ret res, s')"
| exited: "sup_step E (s, p) (put_job r j' w' s, p)"
    if "store s r = Some j" and "job_exited E (j, sup_world s) = (res, (j', w'))"
| waited: "sup_step E (s, p) (put_job r (j\<lparr>job_cmd := (job_cmd j)\<lparr>ProcessState := Some c\<rparr>\<rparr>) (sup_world s) s, p)"
    if "store s r = Some j" and "ProcessState (job_cmd j) = None"
| fired: "sup_step E (s, p) (put_job r (disarm t j) (sup_world s) s, p)"
    if "store s r = Some j" and "t \<in> fst ` set (armed j)"
| timer: "sup_step E (s, p) (put_job r j' w' s, p)"
    if "store s r = Some j" and "timer_stop E (j, sup_world s) = (res', (j', w'))"
| closed: "sup_step E (s, p) (put_job r j' w' s, p)"
    if "store s r = Some j" and "reader_Close E rd (j, sup_world s) = (res'', (j', w'))"

inductive sup_reach :: "os_env \<Rightarrow> supervisor \<times> ref list \<Rightarrow> bool" for E where
  init: "sup_reach E (sup_New uid gid w, [])"
| step: "sup_reach E c \<Longrightarrow> sup_step E c c' \<Longrightarrow> sup_reach E c'"

section \<open>The invariant\<close>

definition linked :: "supervisor \<Rightarrow> ref \<Rightarrow> bool" where
  "linked s r \<longleftrightarrow> (\<exists>j. store s r = Some j \<and> map_of (jobs s) (ID j) = Some r)"

definition keys_ok :: "supervisor \<Rightarrow> bool" where
  "keys_ok s \<longleftrightarrow> distinct_keys (jobs s) \<and>
     (\<forall>i r. map_of (jobs s) i = Some r \<longrightarrow> (\<exists>j. store s r = Some j \<and> ID j = i))"

definition refs_ok :: "supervisor \<Rightarrow> bool" where
  "refs_ok s \<longleftrightarrow>
     (\<forall>r j. store s r = Some j \<longrightarrow> r < next_ref s) \<and>
     (\<forall>r r' j j'. store s r = Some j \<longrightarrow> store s r' = Some j' \<longrightarrow> ID j = ID j' \<longrightarrow> r = r')"

definition accounted :: "supervisor \<Rightarrow> ref list \<Rightarrow> ref \<Rightarrow> job \<Rightarrow> bool" where
  "accounted s p r j \<longleftrightarrow> map_of (jobs s) (ID j) = Some r \<or>
     (r \<in> set p \<and> \<not> running (job_handler j)) \<or> job_handler j = zombieHandler"

definition sup_inv :: "supervisor \<times> ref list \<Rightarrow> bool" where
  "sup_inv c \<longleftrightarrow> (case c of (s, p) \<Rightarrow>
     keys_ok s \<and> refs_ok s \<and> (\<forall>r \<in> set p. store s r \<noteq> None) \<and>
     (\<forall>r j. store s r = Some j \<longrightarrow> accounted s p r j))"

lemma sup_invI:
  assumes "distinct_keys (jobs s)"
    and "\<And>i r. map_of (jobs s) i = Some r \<Longrightarrow> \<exists>j. store s r = Some j \<and> ID j = i"
    and "\<And>r j. store s r = Some j \<Longrightarrow> r < next_ref s"
    and "\<And>r r' j j'. store s r = Some j \<Longrightarrow> store s r' = Some j' \<Longrightarrow> ID j = ID j' \<Longrightarrow> r = r'"
    and "\<And>r. r \<in> set p \<Longrightarrow> store s r \<noteq> None"
    and "\<And>r j. store s r = Some j \<Longrightarrow> accounted s p r j"
  shows "sup_inv (s, p)"
  unfolding sup_inv_def prod.case keys_ok_def refs_ok_def using assms by blast

lemma sup_invD:
  assumes "sup_inv (s, p)"
  shows sup_inv_distinct: "distinct_keys (jobs s)"
    and sup_inv_lookup: "\<And>i r. map_of (jobs s) i = Some r \<Longrightarrow> \<exists>j. store s r = Some j \<and> ID j = i"
    and sup_inv_fresh: "\<And>r j. store s r = Some j \<Longrightarrow> r < next_ref s"
    and sup_inv_ids: "\<And>r r' j j'. store s r = Some j \<Longrightarrow> store s r' = Some j' \<Longrightarrow> ID j = ID j' \<Longrightarrow> r = r'"
    and sup_inv_held: "\<And>r. r \<in> set p \<Longrightarrow> store s r \<noteq> None"
    and sup_inv_accounted: "\<And>r j. store s r = Some j \<Longrightarrow> accounted s p r j"
  using assms unfolding sup_inv_def prod.case keys_ok_def refs_ok_def by blast+

lemma sup_inv_init: "sup_inv (sup_New uid gid w, [])"
  by (rule sup_invI) (simp_all add: sup_New_def)

text \<open>A step of one job.\<close>

lemma put_job_fields [simp]:
  "jobs (put_job r j w s) = jobs s" "sup_ids (put_job r j w s) = sup_ids s"
  "store (put_job r j w s) = (store s)(r \<mapsto> j)" "next_ref (put_job r j w s) = next_ref s"
  "sup_world (put_job r j w s) = w"
  by (simp_all add: put_job_def)

lemma sup_inv_job:
  assumes inv: "sup_inv (s, p)" and j: "store s r = Some j" and f: "follows j j'"
  shows "sup_inv (put_job r j' w s, p)"
proof (rule sup_invI)
  note I = sup_invD[OF inv]
  have i: "ID j' = ID j" and run: "running (job_handler j') \<Longrightarrow> running (job_handler j)"
    and z: "job_handler j = zombieHandler \<Longrightarrow> job_handler j' = zombieHandler"
    using f by (auto simp: follows_def)
  show "distinct_keys (jobs (put_job r j' w s))" using I(1) by simp
  show "\<exists>k. store (put_job r j' w s) q = Some k \<and> ID k = n"
    if "map_of (jobs (put_job r j' w s)) n = Some q" for n q
    using I(2)[of n q] that j i by auto
  show "q < next_ref (put_job r j' w s)" if "store (put_job r j' w s) q = Some k" for q k
    using I(3)[of q] I(3)[OF j] that by (auto split: if_splits)
  show "q = q'" if "store (put_job r j' w s) q = Some k" "store (put_job r j' w s) q' = Some k'"
    "ID k = ID k'" for q q' k k'
    using that I(4)[OF j, of q' k'] I(4)[OF _ j, of q k] I(4)[of q k q' k'] i by (auto split: if_splits)
  show "store (put_job r j' w s) q \<noteq> None" if "q \<in> set p" for q
    using I(5)[OF that] by simp
  show "accounted (put_job r j' w s) p q k" if "store (put_job r j' w s) q = Some k" for q k
    using that I(6)[of q k] I(6)[OF j] i run z by (auto simp: accounted_def split: if_splits)
qed

lemma job_at_Some [simp]: "store s r = Some j \<Longrightarrow> job_at s r = j"
  by (simp add: job_at_def)

text \<open>An operation on a registered job that calls one method.\<close>

lemma sup_inv_with_ref:
  assumes inv: "sup_inv (s, p)" and run: "with_ref i (\<lambda>r. on_job r m) s = (res, s')"
    and m: "\<And>j w x j' w'. m (j, w) = (x, (j', w')) \<Longrightarrow> follows j j'"
  shows "sup_inv (s', p)"
proof (cases "map_of (jobs s) i")
  case None
  with run inv show ?thesis by (simp add: with_ref_def)
next
  case (Some r)
  from sup_inv_lookup[OF inv Some] obtain j where j: "store s r = Some j" by blast
  obtain x j' w' where mj: "m (j, sup_world s) = (x, (j', w'))" by (metis prod.exhaust)
  have "s' = put_job r j' w' s" using run Some j mj by (simp add: with_ref_def on_job_def)
  with sup_inv_job[OF inv j m[OF mj]] show ?thesis by simp
qed

lemma sup_inv_world: "sup_inv (s\<lparr>sup_world := w\<rparr>, p) = sup_inv (s, p)"
  by (simp add: sup_inv_def keys_ok_def refs_ok_def accounted_def)

text \<open>A new job gets a new reference.\<close>

lemma sup_inv_new:
  assumes inv: "sup_inv (s, p)" and new: "\<And>r k. store s r = Some k \<Longrightarrow> ID k \<noteq> ID j"
  shows "sup_inv ((put_job (next_ref s) j w s)
    \<lparr>jobs := AList.update (ID j) (next_ref s) (jobs s), next_ref := Suc (next_ref s)\<rparr>, p)"
    (is "sup_inv (?s, p)")
proof (rule sup_invI)
  note I = sup_invD[OF inv]
  let ?r = "next_ref s"
  have st: "store ?s = (store s)(?r \<mapsto> j)" "jobs ?s = AList.update (ID j) ?r (jobs s)"
    "next_ref ?s = Suc ?r" by simp_all
  have none: "store s ?r = None" using I(3)[of ?r] by (cases "store s ?r") auto
  show "distinct_keys (jobs ?s)" using I(1) by simp
  show "\<exists>k. store ?s q = Some k \<and> ID k = n" if "map_of (jobs ?s) n = Some q" for n q
    using that I(2)[of n q] none unfolding st by (auto split: if_splits)
  show "q < next_ref ?s" if "store ?s q = Some k" for q k
    using that I(3)[of q k] unfolding st by (auto split: if_splits)
  show "q = q'" if "store ?s q = Some k" "store ?s q' = Some k'" "ID k = ID k'" for q q' k k'
    using that I(4)[of q k q' k'] new[of q k] new[of q' k'] unfolding st by (auto split: if_splits)
  show "store ?s q \<noteq> None" if "q \<in> set p" for q
    using I(5)[OF that] unfolding st by simp
  show "accounted ?s p q k" if "store ?s q = Some k" for q k
    using that I(6)[of q k] new[of q k] unfolding accounted_def st by (auto split: if_splits)
qed

lemma sup_inv_Start:
  assumes inv: "sup_inv (s, p)" and run: "sup_Start E cmd args lim s = (res, s')"
    and new: "\<forall>r j. store s r = Some j \<longrightarrow> ID j \<noteq> os_xid E (trace (sup_world s))"
  shows "sup_inv (s', p)"
proof (cases "createJob E cmd args lim (sup_ids s) (sup_world s)")
  case (Pair x w)
  show ?thesis
  proof (cases x)
    case (Inl e)
    with run Pair inv show ?thesis by (auto simp: sup_Start_def sup_inv_world)
  next
    case (Inr j)
    have "ID j = os_xid E (trace (sup_world s))"
      using createJob_id[of E cmd args lim "sup_ids s" "sup_world s" j w] Pair Inr by simp
    with sup_inv_new[OF inv, of j w] new run Pair Inr show ?thesis by (auto simp: sup_Start_def)
  qed
qed

text \<open>The first and the last critical section of a removal.\<close>

lemma sup_inv_hold:
  assumes inv: "sup_inv (s, p)" and "store s r \<noteq> None"
  shows "sup_inv (s, r # p)"
proof (rule sup_invI)
  note I = sup_invD[OF inv]
  show "accounted s (r # p) q k" if "store s q = Some k" for q k
    using I(6)[OF that] by (auto simp: accounted_def)
  show "store s q \<noteq> None" if "q \<in> set (r # p)" for q
    using that assms(2) I(5) by auto
qed (use sup_invD[OF inv] in auto)

lemma sup_inv_unlink:
  assumes inv: "sup_inv (s, p)" and run: "Remove_unlink i s = (Inr r, s')"
  shows "sup_inv (s', r # p)"
proof -
  note I = sup_invD[OF inv]
  from run have r: "map_of (jobs s) i = Some r" and c: "\<not> running (job_handler (job_at s r))"
    and s': "s' = s\<lparr>jobs := AList.delete i (jobs s)\<rparr>"
    by (auto simp: Remove_unlink_def with_ref_def split: option.splits if_splits)
  from I(2)[OF r] obtain j where j: "store s r = Some j" "ID j = i" by blast
  have st: "store s' = store s" "next_ref s' = next_ref s" "jobs s' = AList.delete i (jobs s)"
    by (simp_all add: s')
  show ?thesis
  proof (rule sup_invI)
    show "distinct_keys (jobs s')" using I(1) by (simp add: st)
    show "\<exists>k. store s' q = Some k \<and> ID k = n" if "map_of (jobs s') n = Some q" for n q
      using that I(2)[of n q] by (auto simp: st split: if_splits)
    show "q < next_ref s'" if "store s' q = Some k" for q k
      using that I(3)[of q k] by (simp add: st)
    show "q = q'" if "store s' q = Some k" "store s' q' = Some k'" "ID k = ID k'" for q q' k k'
      using that I(4)[of q k q' k'] by (simp add: st)
    show "store s' q \<noteq> None" if "q \<in> set (r # p)" for q
      using that I(5)[of q] j by (auto simp: st)
    show "accounted s' (r # p) q k" if "store s' q = Some k" for q k
      using that I(6)[of q k] I(4)[of q k r j] j c
      by (cases "q = r") (auto simp: accounted_def st)
  qed
qed

lemma sup_inv_finish:
  assumes inv: "sup_inv (s, p)" and r: "r \<in> set p" and run: "cleanup_or_add E r s = (Ret res, s')"
  shows "sup_inv (s', remove1 r p)"
proof -
  from sup_inv_held[OF inv r] obtain j where j: "store s r = Some j" by blast
  obtain x j' w' where c: "job_Cleanup E (j, sup_world s) = (x, (j', w'))" by (metis prod.exhaust)
  let ?s = "put_job r j' w' s"
  have inv': "sup_inv (?s, p)" by (rule sup_inv_job[OF inv j follows_Cleanup[OF c]])
  note I = sup_invD[OF inv']
  have x: "x = Ret res" and s': "s' = (if isl res then sup_add r ?s else ?s)"
    using run j c by (auto simp: cleanup_or_add_def on_job_outcome_def split: outcome.splits sum.splits)
  show ?thesis
  proof (cases res)
    case (Inl e)
    have fields: "store s' = store ?s" "next_ref s' = next_ref s" "jobs s' = AList.update (ID j') r (jobs s)"
      using Inl by (simp_all add: s' sup_add_def job_at_def)
    show ?thesis
    proof (rule sup_invI)
      show "distinct_keys (jobs s')" using I(1) by (simp add: fields)
      show "\<exists>k. store s' q = Some k \<and> ID k = n" if "map_of (jobs s') n = Some q" for n q
        using that I(2)[of n q] by (auto simp: fields split: if_splits)
      show "q < next_ref s'" if "store s' q = Some k" for q k
        using that I(3)[of q k] by (simp add: fields)
      show "q = q'" if "store s' q = Some k" "store s' q' = Some k'" "ID k = ID k'" for q q' k k'
        using that I(4)[of q k q' k'] by (simp add: fields)
      show "store s' q \<noteq> None" if "q \<in> set (remove1 r p)" for q
        using I(5)[of q] set_remove1_subset[of r p] that unfolding fields by blast
      show "accounted s' (remove1 r p) q k" if "store s' q = Some k" for q k
        using that I(6)[of q k] I(4)[of q k r j']
        by (cases "q = r") (auto simp: accounted_def fields split: if_splits)
    qed
  next
    case (Inr u)
    have s'': "s' = ?s" using Inr by (simp add: s')
    have z: "job_handler j' = zombieHandler"
      using c x Inr by (auto simp: job_Cleanup_eq split: if_splits prod.splits sum.splits)
    show ?thesis unfolding s''
    proof (rule sup_invI)
      show "store ?s q \<noteq> None" if "q \<in> set (remove1 r p)" for q
        using I(5)[of q] set_remove1_subset[of r p] that by blast
      show "accounted ?s (remove1 r p) q k" if "store ?s q = Some k" for q k
        using that I(6)[of q k] z by (cases "q = r") (auto simp: accounted_def)
    qed (fact I(1), erule I(2), erule I(3), erule (2) I(4))
  qed
qed

theorem sup_step_inv: "sup_step E c c' \<Longrightarrow> sup_inv c \<Longrightarrow> sup_inv c'"
proof (induction rule: sup_step.induct)
  case (stop i g s r s' p)
  then show ?case
    by (cases g) (auto simp: sup_Stop_def intro: sup_inv_with_ref[OF _ _ follows_InitStop] sup_inv_with_ref[OF _ _ follows_Stop])
next
  case (logs i s r s' p)
  obtain res where "with_ref i (\<lambda>r. on_job r (job_Logs E)) s = (res, s')"
    using logs(1)
    by (cases "map_of (jobs s) i")
      (auto simp: sup_Logs_def with_ref_def sm_bind_def sm_ret_def split: prod.splits sum.splits)
  from sup_inv_with_ref[OF logs(2) this follows_Logs] show ?case .
next
  case (hold i s r s' p)
  then have "map_of (jobs s) i = Some r" "s' = s"
    by (auto simp: sup_lookup_remove_def with_ref_def sm_ret_def split: option.splits)
  with sup_inv_lookup[OF hold(2)] sup_inv_hold[OF hold(2)] show ?case by fastforce
next
  case (unlink_err i s e s' p)
  then have "s' = s" by (auto simp: Remove_unlink_def with_ref_def split: option.splits if_splits)
  with unlink_err show ?case by simp
next
  case (start cmd args lim s r s' p)
  then show ?case by (blast intro: sup_inv_Start)
next
  case (unlink i s r s' p)
  then show ?case by (blast intro: sup_inv_unlink)
next
  case (finish r p s res s')
  then show ?case by (blast intro: sup_inv_finish)
next
  case (exited s r j res j' w' p)
  then show ?case by (blast intro: sup_inv_job follows_exited)
next
  case (waited s r j p c)
  then show ?case by (blast intro: sup_inv_job follows_wait)
next
  case (fired s r j t p)
  then show ?case by (blast intro: sup_inv_job follows_fire)
next
  case (timer s r j res j' w' p)
  then show ?case by (blast intro: sup_inv_job follows_timer)
next
  case (closed s r j rd res j' w' p)
  then show ?case by (blast intro: sup_inv_job follows_Close)
qed

lemma sup_reach_inv: "sup_reach E c \<Longrightarrow> sup_inv c"
  by (induction rule: sup_reach.induct) (auto intro: sup_inv_init sup_step_inv)

end
