(* ===== verification/Supervisor_Facts.thy ===== *)
theory Supervisor_Facts
  imports Supervisor_Steps
begin

text \<open>
  What each operation of the supervisor does, on every branch; that operations on one job do
  not disturb another; and when stopping the supervisor returns. The interface that the
  server relies on is the locale \<open>job_registry\<close>, interpreted on the supervisor.
\<close>

section \<open>No job is lost\<close>

text \<open>
  C6. In every reachable state of the supervisor, under any interleaving of its critical
  sections with the goroutines of its jobs, a job that was started is registered under its
  own identifier, or a removal of it is in progress, or it has been removed; and a job
  whose process may still run is registered, so that a client can stop it.
\<close>

theorem no_job_is_lost:
  assumes "sup_reach E (s, p)" and "store s r = Some j"
  shows "(map_of (jobs s) (ID j) = Some r \<or> r \<in> set p \<or> job_handler j = zombieHandler) \<and>
    (running (job_handler j) \<longrightarrow> map_of (jobs s) (ID j) = Some r)"
  using sup_inv_accounted[OF sup_reach_inv[OF assms(1)] assms(2)] by (auto simp: accounted_def)

definition demo_start :: "supervisor" where
  "demo_start = snd (sup_Start (mounts_env [] []) ''ls'' [''-l''] no_limits (sup_New 0 0 empty_world))"

lemma demo_start_result:
  "\<exists>w j. demo_start = \<lparr>jobs = [(''x'', 0)], sup_ids = root_ids, store = (\<lambda>_. None)(0 \<mapsto> j),
     next_ref = 1, sup_world = w\<rparr> \<and> fresh_job j \<and> ID j = ''x'' \<and>
     sup_Start (mounts_env [] []) ''ls'' [''-l''] no_limits (sup_New 0 0 empty_world) = (Inr ''x'', demo_start)"
proof -
  obtain j w where c: "createJob (mounts_env [] []) ''ls'' [''-l''] no_limits root_ids empty_world = (Inr j, w)"
    using demo_createJob by blast
  note j = createJob_result[OF c]
  have i: "ID j = ''x''" using j by (simp add: mounts_env_def)
  show ?thesis
    using j i c
    by (auto simp: demo_start_def sup_Start_def sup_New_def put_job_def root_ids_def[symmetric])
qed

lemma demo_start_job: "\<exists>j. store demo_start 0 = Some j \<and> fresh_job j \<and> ID j = ''x''"
proof -
  obtain w j where d: "demo_start = \<lparr>jobs = [(''x'', 0)], sup_ids = root_ids, store = (\<lambda>_. None)(0 \<mapsto> j),
      next_ref = 1, sup_world = w\<rparr>" and j: "fresh_job j" "ID j = ''x''"
    using demo_start_result by blast
  have "store demo_start 0 = Some j" unfolding d by simp
  with j show ?thesis by blast
qed

lemma demo_start_reach: "sup_reach (mounts_env [] []) (demo_start, [])"
proof -
  have "sup_step (mounts_env [] []) (sup_New 0 0 empty_world, []) (demo_start, [])"
    using demo_start_result by (auto intro!: sup_step.start simp: sup_New_def)
  with sup_reach.init show ?thesis by (rule sup_reach.step)
qed

theorem no_job_is_lost_witness:
  "\<exists>j. store demo_start 0 = Some j \<and> map_of (jobs demo_start) (ID j) = Some 0"
proof -
  obtain j where j: "store demo_start 0 = Some j" "fresh_job j"
    using demo_start_job by blast
  from no_job_is_lost[OF demo_start_reach j(1)] j show ?thesis by (auto simp: fresh_job_def)
qed

section \<open>Entries and references\<close>

definition sup_entry :: "supervisor \<Rightarrow> string \<Rightarrow> job option" where
  "sup_entry s i = (case map_of (jobs s) i of None \<Rightarrow> None | Some r \<Rightarrow> store s r)"

definition sup_sane :: "supervisor \<Rightarrow> bool" where
  "sup_sane s \<longleftrightarrow> keys_ok s \<and> refs_ok s"

lemma sup_sane_inv: "sup_inv (s, p) \<Longrightarrow> sup_sane s"
  by (simp add: sup_inv_def sup_sane_def)

lemma sup_saneD:
  assumes "sup_sane s" and "map_of (jobs s) i = Some r"
  obtains j where "store s r = Some j" "ID j = i"
  using assms unfolding sup_sane_def keys_ok_def by blast

lemma sup_sane_distinct:
  "sup_sane s \<Longrightarrow> map_of (jobs s) i = Some r \<Longrightarrow> map_of (jobs s) i' = Some r \<Longrightarrow> i = i'"
  by (metis sup_saneD option.inject)

lemma sup_sane_put:
  assumes "sup_sane s" and "store s r = Some j" and "ID j' = ID j"
  shows "sup_sane (put_job r j' w s)"
  unfolding sup_sane_def keys_ok_def refs_ok_def
proof (intro conjI allI impI)
  show "distinct_keys (jobs (put_job r j' w s))" using assms(1) by (simp add: sup_sane_def keys_ok_def)
  show "\<exists>k. store (put_job r j' w s) q = Some k \<and> ID k = i"
    if "map_of (jobs (put_job r j' w s)) i = Some q" for i q
    using that assms sup_saneD[OF assms(1), of i q] by (cases "q = r") auto
  show "q < next_ref (put_job r j' w s)" if "store (put_job r j' w s) q = Some k" for q k
    using that assms by (auto simp: sup_sane_def refs_ok_def split: if_splits)
  show "q = q'" if "store (put_job r j' w s) q = Some k" "store (put_job r j' w s) q' = Some k'"
    "ID k = ID k'" for q q' k k'
    using that assms by (auto simp: sup_sane_def refs_ok_def split: if_splits)
qed

lemma entry_put:
  assumes "sup_sane s" and "map_of (jobs s) i = Some r" and "i' \<noteq> i"
  shows "sup_entry (put_job r j w s) i' = sup_entry s i'"
  using sup_sane_distinct[OF assms(1,2)] assms(3)
  by (auto simp: sup_entry_def split: option.splits)

section \<open>Starting and inspecting\<close>

lemma sup_Start_frame:
  assumes "sup_Start E cmd args lim s = (Inr i, s')"
  shows "i = os_xid E (trace (sup_world s))"
    and "i' \<noteq> i \<Longrightarrow> map_of (jobs s') i' = map_of (jobs s) i'"
    and "r \<noteq> next_ref s \<Longrightarrow> store s' r = store s r"
    and "\<exists>j. map_of (jobs s') i = Some (next_ref s) \<and> store s' (next_ref s) = Some j \<and> ID j = i \<and>
      fresh_job j \<and> next_ref s' = Suc (next_ref s)"
proof -
  obtain j w where c: "createJob E cmd args lim (sup_ids s) (sup_world s) = (Inr j, w)" and i: "i = ID j"
    and s': "s' = (put_job (next_ref s) j w s)
      \<lparr>jobs := AList.update (ID j) (next_ref s) (jobs s), next_ref := Suc (next_ref s)\<rparr>"
    using assms by (auto simp: sup_Start_def split: prod.splits sum.splits)
  note j = createJob_result[OF c]
  show "i = os_xid E (trace (sup_world s))" using j i by simp
  show "i' \<noteq> i \<Longrightarrow> map_of (jobs s') i' = map_of (jobs s) i'" by (simp add: s' i)
  show "r \<noteq> next_ref s \<Longrightarrow> store s' r = store s r" by (simp add: s')
  show "\<exists>j. map_of (jobs s') i = Some (next_ref s) \<and> store s' (next_ref s) = Some j \<and> ID j = i \<and>
      fresh_job j \<and> next_ref s' = Suc (next_ref s)"
    using j by (simp add: s' i)
qed

lemma sup_Start_entry:
  assumes sane: "sup_sane s" and st: "sup_Start E cmd args lim s = (Inr i, s')"
  shows "\<exists>j. fresh_job j \<and> ID j = i \<and> (\<forall>n. sup_entry s' n = (if n = i then Some j else sup_entry s n))"
proof -
  obtain j where j: "map_of (jobs s') i = Some (next_ref s)" "store s' (next_ref s) = Some j" "ID j = i" "fresh_job j"
    using sup_Start_frame(4)[OF st] by blast
  have "sup_entry s' n = sup_entry s n" if "n \<noteq> i" for n
  proof (cases "map_of (jobs s) n")
    case (Some r)
    with sane obtain k where "store s r = Some k" by (rule sup_saneD)
    then have "r \<noteq> next_ref s" using sane by (auto simp: sup_sane_def refs_ok_def)
    with Some that show ?thesis using sup_Start_frame(2,3)[OF st] by (simp add: sup_entry_def)
  qed (use that sup_Start_frame(2)[OF st] in \<open>simp add: sup_entry_def\<close>)
  with j show ?thesis by (intro exI[of _ j]) (simp add: sup_entry_def)
qed

lemma sup_entry_new:
  assumes "sup_sane s" and "\<forall>r j. store s r = Some j \<longrightarrow> ID j \<noteq> x"
  shows "sup_entry s x = None"
  using assms by (fastforce simp: sup_entry_def elim: sup_saneD split: option.splits)

lemma sup_sane_Start:
  assumes sane: "sup_sane s" and st: "sup_Start E cmd args lim s = (Inr i, s')"
    and new: "\<forall>r j. store s r = Some j \<longrightarrow> ID j \<noteq> i"
  shows "sup_sane s'"
proof -
  obtain j where j: "map_of (jobs s') i = Some (next_ref s)" "store s' (next_ref s) = Some j" "ID j = i"
    "next_ref s' = Suc (next_ref s)" using sup_Start_frame(4)[OF st] by blast
  note fr = sup_Start_frame(2,3)[OF st]
  have old: "q < next_ref s" if "store s q = Some k" for q k
    using sane that by (auto simp: sup_sane_def refs_ok_def)
  have "distinct_keys (jobs s')"
    using sane st by (auto simp: sup_Start_def sup_sane_def keys_ok_def split: prod.splits sum.splits)
  moreover have "\<exists>k. store s' q = Some k \<and> ID k = n" if "map_of (jobs s') n = Some q" for n q
  proof (cases "n = i")
    case False
    with that fr(1) have m: "map_of (jobs s) n = Some q" by simp
    with sane obtain k where k: "store s q = Some k" "ID k = n" by (rule sup_saneD)
    with fr(2)[of q] old[of q k] show ?thesis by auto
  qed (use that j in auto)
  moreover have "q < next_ref s'" if "store s' q = Some k" for q k
    using that fr(2)[of q] old[of q k] j by (cases "q = next_ref s") auto
  moreover have "q = q'" if "store s' q = Some k" "store s' q' = Some k'" "ID k = ID k'" for q q' k k'
  proof -
    have s0: "store s p = Some m" if "store s' p = Some m" "p \<noteq> next_ref s" for p m
      using that fr(2) by simp
    show ?thesis
    proof (cases "q = next_ref s \<or> q' = next_ref s")
      case True
      then show ?thesis using that s0[of q k] s0[of q' k'] new j
        by (cases "q = next_ref s"; cases "q' = next_ref s") auto
    next
      case False
      with that s0 have "store s q = Some k" "store s q' = Some k'" by auto
      with sane that(3) show ?thesis unfolding sup_sane_def refs_ok_def by blast
    qed
  qed
  ultimately have "keys_ok s'" and "refs_ok s'" unfolding keys_ok_def refs_ok_def by blast+
  then show ?thesis by (simp add: sup_sane_def)
qed

text \<open>
  A job that was started can be inspected at once: it is active, with exit code zero
  and the command line it was started with. Starting it changes nothing for the other
  identifiers, whether they are registered or not.
\<close>

lemma started_job_is_active:
  assumes "sup_Start E cmd args lim s = (Inr i, s')" and "sup_inv (s, p)"
  shows "sup_Inspect i s' = (Inr (StatusActive, 0, strings_Join (cmd # args) '' ''), s') \<and>
    (\<forall>i' r. i' \<noteq> i \<and> map_of (jobs s) i' = Some r \<longrightarrow>
       map_of (jobs s') i' = Some r \<and> store s' r = store s r) \<and>
    (\<forall>i'. i' \<noteq> i \<and> map_of (jobs s) i' = None \<longrightarrow> map_of (jobs s') i' = None)"
proof -
  obtain j w where c: "createJob E cmd args lim (sup_ids s) (sup_world s) = (Inr j, w)" and i: "i = ID j"
    and s': "s' = (put_job (next_ref s) j w s)
      \<lparr>jobs := AList.update (ID j) (next_ref s) (jobs s), next_ref := Suc (next_ref s)\<rparr>"
    using assms(1) by (auto simp: sup_Start_def split: prod.splits sum.splits)
  note j = createJob_result[OF c]
  have new: "r \<noteq> next_ref s" if "map_of (jobs s) i' = Some r" for i' r
    using sup_inv_lookup[OF assms(2) that] sup_inv_fresh[OF assms(2)] by fastforce
  have st: "job_Status j = (StatusActive, 0)"
    using j by (simp add: job_Status_def fresh_job_def)
  have "sup_Inspect i s' = (Inr (StatusActive, 0, strings_Join (cmd # args) '' ''), s')"
    using j st by (simp add: sup_Inspect_def with_ref_def s' i job_at_def)
  then show ?thesis using new by (auto simp: s' i)
qed

section \<open>Removing\<close>

lemma on_job_Cleanup:
  assumes "store s r = Some j"
  shows "on_job_outcome r (job_Cleanup E) s =
    (if job_handler j = zombieHandler then (Ret (Inl (Errorf ''job is removed'')), put_job r j (sup_world s) s)
     else if outLock j \<noteq> 0 then (Block, put_job r j (sup_world s) s)
     else case os_do E (SRemoveAll (jobDir j)) (sup_world s) of
       (Inl e, w) \<Rightarrow> (Ret (Inl e), put_job r j w s)
     | (Inr _, w) \<Rightarrow> (Ret (Inr ()), put_job r (setHandler zombieHandler j) w s))"
  using assms by (simp add: on_job_outcome_def job_Cleanup_eq split: prod.splits sum.splits)

lemma store_put_same: "store s r = Some j \<Longrightarrow> store (put_job r j w s) = store s"
  by (auto simp: fun_upd_idem)

lemma map_of_relink:
  "map_of m i = Some r \<Longrightarrow> map_of (AList.update i r (AList.delete i m)) = map_of m"
  by (auto simp: fun_upd_idem)

lemma os_do_RemoveAll_gone:
  assumes "os_do E (SRemoveAll d) w = (Inr u, w')" and "d \<noteq> []" and "under d q"
  shows "map_of (fs w') q = None"
proof -
  obtain x where "fst (os_call E (SRemoveAll d) w) = Inr x" "w' = snd (os_call E (SRemoveAll d) w)"
    using assms(1) os_do_fst[of E "SRemoveAll d" w] os_do_snd[of E "SRemoveAll d" w]
    by (auto split: sum.splits)
  with removeAll_gone[OF this(1) assms(2,3)] show ?thesis by simp
qed

lemma Remove_result:
  assumes "sup_sane s" and "sup_Remove E i s = (Ret res, s')"
  shows "case res of
      Inl e \<Rightarrow> map_of (jobs s') = map_of (jobs s) \<and> store s' = store s
    | Inr u \<Rightarrow> \<exists>r j. map_of (jobs s) i = Some r \<and> store s r = Some j \<and> \<not> running (job_handler j) \<and>
        outLock j = 0 \<and> map_of (jobs s') = (map_of (jobs s))(i := None) \<and>
        store s' = (store s)(r \<mapsto> setHandler zombieHandler j) \<and>
        (jobDir j \<noteq> [] \<longrightarrow> (\<forall>q. under (jobDir j) q \<longrightarrow> map_of (fs (sup_world s')) q = None))"
proof (cases "map_of (jobs s) i")
  case None
  with assms(2) show ?thesis by (auto simp: sup_Remove_def Remove_unlink_def with_ref_def)
next
  case (Some r)
  from assms(1) Some obtain j where j: "store s r = Some j" "ID j = i" by (rule sup_saneD)
  show ?thesis
  proof (cases "running (job_handler j)")
    case True
    with assms(2) Some j show ?thesis by (auto simp: sup_Remove_def Remove_unlink_def with_ref_def)
  next
    case False
    let ?s = "s\<lparr>jobs := AList.delete i (jobs s)\<rparr>"
    have j': "store ?s r = Some j" using j by simp
    have eq: "sup_Remove E i s = cleanup_or_add E r ?s"
      using Some j False by (simp add: sup_Remove_def Remove_unlink_def with_ref_def)
    obtain x s1 where c: "on_job_outcome r (job_Cleanup E) ?s = (Ret x, s1)"
      using assms(2) unfolding eq cleanup_or_add_def
      by (auto split: prod.splits outcome.splits sum.splits)
    show ?thesis
    proof (cases x)
      case (Inl e)
      have s1: "store s1 = store s" "jobs s1 = jobs ?s"
        using c Inl j unfolding on_job_Cleanup[OF j']
        by (auto simp: fun_upd_idem split: if_splits prod.splits sum.splits)
      have "res = Inl e" "s' = sup_add r s1"
        using assms(2) c Inl unfolding eq cleanup_or_add_def by auto
      with s1 j map_of_relink[OF Some] show ?thesis by (simp add: sup_add_def job_at_def)
    next
      case (Inr u)
      have "res = Inr ()" "s' = s1"
        using assms(2) c Inr unfolding eq cleanup_or_add_def by auto
      moreover obtain w where "os_do E (SRemoveAll (jobDir j)) (sup_world s) = (Inr (), w)"
        "s1 = put_job r (setHandler zombieHandler j) w ?s" "outLock j = 0"
        using c Inr unfolding on_job_Cleanup[OF j'] by (auto split: if_splits prod.splits sum.splits)
      ultimately show ?thesis
        using Some j False os_do_RemoveAll_gone by auto
    qed
  qed
qed

text \<open>
  C21. A removal is all or nothing. When it returns an error, the registered jobs and the
  state of each of them are what they were: a job whose clean-up failed is registered again.
  When it succeeds, the job had been registered and its process had ended, it is now
  unlinked and marked as removed, no entry of its directory is left, and nothing has changed
  for any other job.
\<close>

theorem Remove_all_or_nothing:
  assumes "sup_sane s" and "sup_Remove E i s = (Ret res, s')"
  shows "case res of
      Inl e \<Rightarrow> map_of (jobs s') = map_of (jobs s) \<and> store s' = store s
    | Inr u \<Rightarrow> \<exists>r j. map_of (jobs s) i = Some r \<and> store s r = Some j \<and> \<not> running (job_handler j) \<and>
        outLock j = 0 \<and> map_of (jobs s') = (map_of (jobs s))(i := None) \<and>
        store s' = (store s)(r \<mapsto> setHandler zombieHandler j) \<and>
        (jobDir j \<noteq> [] \<longrightarrow> (\<forall>q. under (jobDir j) q \<longrightarrow> map_of (fs (sup_world s')) q = None))"
  using assms by (rule Remove_result)

definition demo_ended :: supervisor where
  "demo_ended =
     \<lparr>jobs = [(''x'', 0)], sup_ids = root_ids,
      store = (\<lambda>_. None)(0 \<mapsto> (new_job ''x'' 0 0)\<lparr>job_handler := endedHandler, jobDir := ''/tmp/jobs/x''\<rparr>),
      next_ref = 1, sup_world = \<lparr>fs = [(''/tmp/jobs/x'', Dir), (''/tmp/jobs/x/out'', Dir)], trace = []\<rparr>\<rparr>"

lemma demo_ended_inv: "sup_inv (demo_ended, [])"
  by (rule sup_invI) (auto simp: demo_ended_def accounted_def new_job_def distinct_keys_def split: if_splits)

theorem Remove_all_or_nothing_witness:
  "\<exists>s'. sup_Remove quiet_env ''x'' demo_ended = (Ret (Inr ()), s') \<and> map_of (jobs s') ''x'' = None \<and>
     map_of (fs (sup_world s')) ''/tmp/jobs/x/out'' = None"
proof -
  have ok: "fst (sup_Remove quiet_env ''x'' demo_ended) = Ret (Inr ())" by code_simp
  then obtain s' where r: "sup_Remove quiet_env ''x'' demo_ended = (Ret (Inr ()), s')"
    by (metis prod.collapse)
  have u: "under ''/tmp/jobs/x'' ''/tmp/jobs/x/out''" by code_simp
  have j: "jobDir k = ''/tmp/jobs/x''" if "store demo_ended q = Some k" for q k
    using that by (auto simp: demo_ended_def split: if_splits)
  from Remove_all_or_nothing[OF sup_sane_inv[OF demo_ended_inv] r] u j r show ?thesis by fastforce
qed

section \<open>The interface of the server\<close>

text \<open>The operations the server calls on a job by its identifier.\<close>

datatype sup_op = OpStop bool | OpRemove | OpInspect | OpLogs

datatype sup_reply =
    RepDone
  | RepDetails status "32 word" string
  | RepReader ref output_reader

fun sup_call :: "os_env \<Rightarrow> sup_op \<Rightarrow> string \<Rightarrow> supervisor \<Rightarrow> (go_error + sup_reply) outcome \<times> supervisor" where
  "sup_call E (OpStop g) i s =
     (case sup_Stop E i g s of (r, s') \<Rightarrow> (Ret (map_sum id (\<lambda>_. RepDone) r), s'))"
| "sup_call E OpRemove i s =
     (case sup_Remove E i s of
        (Ret r, s') \<Rightarrow> (Ret (map_sum id (\<lambda>_. RepDone) r), s')
      | (Panic m, s') \<Rightarrow> (Panic m, s')
      | (Block, s') \<Rightarrow> (Block, s'))"
| "sup_call E OpInspect i s =
     (case sup_Inspect i s of (r, s') \<Rightarrow> (Ret (map_sum id (\<lambda>(st, c, t). RepDetails st c t) r), s'))"
| "sup_call E OpLogs i s =
     (case sup_Logs E i s of (r, s') \<Rightarrow> (Ret (map_sum id (\<lambda>(q, rd). RepReader q rd) r), s'))"

text \<open>
  What a client of the registry may rely on: a call on a name that is not registered fails
  with the sentinel and changes nothing; the sentinel means nothing else; and a call on one
  name leaves the entries of the others, and their jobs, as they are.
\<close>

locale job_registry =
  fixes call :: "'op \<Rightarrow> string \<Rightarrow> 's \<Rightarrow> (go_error + 'r) outcome \<times> 's"
    and entry :: "'s \<Rightarrow> string \<Rightarrow> 'j option"
    and sane :: "'s \<Rightarrow> bool"
  assumes missing: "sane s \<Longrightarrow> entry s i = None \<Longrightarrow> call op i s = (Ret (Inl ErrNotFound), s)"
    and sentinel: "sane s \<Longrightarrow> entry s i \<noteq> None \<Longrightarrow> call op i s = (Ret (Inl e), s') \<Longrightarrow> \<not> errors_Is e ErrNotFound"
    and others: "sane s \<Longrightarrow> call op i s = (r, s') \<Longrightarrow> i' \<noteq> i \<Longrightarrow> entry s' i' = entry s i'"
    and stays_sane: "sane s \<Longrightarrow> call op i s = (r, s') \<Longrightarrow> sane s'"
begin

lemma not_found_iff:
  assumes "sane s"
  shows "(\<exists>e. fst (call op i s) = Ret (Inl e) \<and> errors_Is e ErrNotFound) \<longleftrightarrow> entry s i = None"
proof
  assume "\<exists>e. fst (call op i s) = Ret (Inl e) \<and> errors_Is e ErrNotFound"
  then show "entry s i = None" using sentinel[OF assms, of i op] by (cases "call op i s") (metis fst_conv)
next
  assume "entry s i = None"
  then show "\<exists>e. fst (call op i s) = Ret (Inl e) \<and> errors_Is e ErrNotFound" using missing[OF assms] by simp
qed

text \<open>
  A series of calls on names other than \<open>i\<close>, also such that still wait, leaves the entry
  of \<open>i\<close> alone.
\<close>

lemma series_keeps:
  assumes "sane s" and "i \<notin> snd ` set cs"
  shows "entry (fold (\<lambda>(op, k) s. snd (call op k s)) cs s) i = entry s i"
  using assms
proof (induction cs arbitrary: s)
  case (Cons c cs)
  obtain op k where c: "c = (op, k)" by (cases c)
  obtain r s' where r: "call op k s = (r, s')" by (metis prod.exhaust)
  have "entry s' i = entry s i" using others[OF Cons.prems(1) r] Cons.prems(2) c by auto
  moreover have "entry (fold (\<lambda>(op, k) s. snd (call op k s)) cs s') i = entry s' i"
    using Cons.IH[OF stays_sane[OF Cons.prems(1) r]] Cons.prems(2) by auto
  ultimately show ?case using r c by simp
qed simp

end

section \<open>The supervisor provides the interface\<close>

text \<open>An error of a job is never the sentinel.\<close>

lemma job_errors:
  "InitStop E d (j, w) = (Inl e, s) \<Longrightarrow> \<not> errors_Is e ErrNotFound"
  "job_Stop E (j, w) = (Inl e, s) \<Longrightarrow> \<not> errors_Is e ErrNotFound"
  "job_Logs E (j, w) = (Inl e, s) \<Longrightarrow> \<not> errors_Is e ErrNotFound"
  "job_Cleanup E (j, w) = (Ret (Inl e), s) \<Longrightarrow> \<not> errors_Is e ErrNotFound"
proof -
  have n: "\<not> errors_Is (not_running_error h) ErrNotFound" for h by (cases h) simp_all
  have o: "\<not> errors_Is e' ErrNotFound" if "os_do E c w = (Inl e', w')" for c e' w'
    using os_do_error[of E c w e'] that by auto
  show "InitStop E d (j, w) = (Inl e, s) \<Longrightarrow> \<not> errors_Is e ErrNotFound"
    using n o by (cases "job_handler j = activeHandler")
      (auto simp: InitStop_active InitStop_other split: prod.splits sum.splits)
  show "job_Stop E (j, w) = (Inl e, s) \<Longrightarrow> \<not> errors_Is e ErrNotFound"
    using n o by (cases "running (job_handler j)")
      (auto simp: job_Stop_running job_Stop_other split: prod.splits sum.splits)
  show "job_Logs E (j, w) = (Inl e, s) \<Longrightarrow> \<not> errors_Is e ErrNotFound"
    using o by (auto simp: job_Logs_eq split: prod.splits sum.splits if_splits)
  show "job_Cleanup E (j, w) = (Ret (Inl e), s) \<Longrightarrow> \<not> errors_Is e ErrNotFound"
    using o by (auto simp: job_Cleanup_eq split: prod.splits sum.splits if_splits)
qed

lemma call_other_cases:
  assumes "sup_call E op i s = (res, s')" and "map_of (jobs s) i = Some r" and "store s r = Some j"
  obtains (called) j' w where "s' = put_job r j' w s" "follows j j'"
  | (unlinked) j' w where "s' = put_job r j' w (s\<lparr>jobs := AList.delete i (jobs s)\<rparr>)" "follows j j'"
  | (relinked) j' w where "follows j j'"
      "s' = sup_add r (put_job r j' w (s\<lparr>jobs := AList.delete i (jobs s)\<rparr>))"
proof (cases op)
  case (OpStop g)
  let ?m = "if g then InitStop E (30 * time_Second) else job_Stop E"
  obtain x j' w where m: "?m (j, sup_world s) = (x, (j', w))" by (metis prod.exhaust)
  have "follows j j'" using m follows_InitStop follows_Stop by (auto split: if_splits)
  moreover have "s' = put_job r j' w s"
    using assms m OpStop by (auto simp: sup_Stop_def with_ref_def on_job_def split: if_splits)
  ultimately show thesis using called by blast
next
  case OpInspect
  have "s' = put_job r j (sup_world s) s"
    using assms OpInspect
    by (auto simp: sup_Inspect_def with_ref_def put_job_def fun_upd_idem split: prod.splits)
  then show thesis using called[of j] by simp
next
  case OpLogs
  obtain x j' w where m: "job_Logs E (j, sup_world s) = (x, (j', w))" by (metis prod.exhaust)
  have "s' = put_job r j' w s"
    using assms m OpLogs
    by (auto simp: sup_Logs_def with_ref_def on_job_def sm_bind_def sm_ret_def split: sum.splits prod.splits)
  then show thesis using called follows_Logs[OF m] by blast
next
  case OpRemove
  let ?s = "s\<lparr>jobs := AList.delete i (jobs s)\<rparr>"
  show thesis
  proof (cases "running (job_handler j)")
    case True
    have "s' = put_job r j (sup_world s) s"
      using assms OpRemove True
      by (auto simp: sup_Remove_def Remove_unlink_def with_ref_def put_job_def fun_upd_idem)
    then show thesis using called[of j] by simp
  next
    case False
    obtain x j' w where m: "job_Cleanup E (j, sup_world s) = (x, (j', w))" by (metis prod.exhaust)
    have "s' = put_job r j' w ?s \<or> s' = sup_add r (put_job r j' w ?s)"
      using assms OpRemove False m
      by (auto simp: sup_Remove_def Remove_unlink_def with_ref_def cleanup_or_add_def on_job_outcome_def
          split: outcome.splits sum.splits)
    then show thesis using unlinked relinked follows_Cleanup[OF m] by blast
  qed
qed

lemma sup_sane_delete: "sup_sane s \<Longrightarrow> sup_sane (s\<lparr>jobs := AList.delete i (jobs s)\<rparr>)"
  by (auto simp: sup_sane_def keys_ok_def refs_ok_def split: if_splits)

lemma sup_sane_add:
  assumes "sup_sane s" and "store s r = Some j"
  shows "sup_sane (sup_add r s)"
  using assms
  by (auto simp: sup_sane_def keys_ok_def refs_ok_def sup_add_def split: if_splits)

lemma entry_delete: "i' \<noteq> i \<Longrightarrow> sup_entry (s\<lparr>jobs := AList.delete i (jobs s)\<rparr>) i' = sup_entry s i'"
  by (simp add: sup_entry_def cong: option.case_cong)

lemma entry_put_unlinked:
  assumes "sup_sane s" and "map_of (jobs s) i = Some r" and "i' \<noteq> i"
  shows "sup_entry (put_job r j w (s\<lparr>jobs := AList.delete i (jobs s)\<rparr>)) i' = sup_entry s i'"
  using entry_put[OF assms, of j w] assms(3) by (simp add: sup_entry_def cong: option.case_cong)

lemma sup_entry_None: "sup_sane s \<Longrightarrow> sup_entry s i = None \<longleftrightarrow> map_of (jobs s) i = None"
  by (auto simp: sup_entry_def elim: sup_saneD split: option.splits)

lemma sup_call_missing:
  "map_of (jobs s) i = None \<Longrightarrow> sup_call E op i s = (Ret (Inl ErrNotFound), s)"
  by (cases op)
    (simp_all add: sup_Stop_def sup_Remove_def Remove_unlink_def sup_Inspect_def sup_Logs_def with_ref_def)

lemma sup_call_sane:
  assumes "sup_sane s" and "sup_call E op i s = (r, s')"
  shows "sup_sane s'"
proof (cases "map_of (jobs s) i")
  case None
  with assms show ?thesis by (simp add: sup_call_missing)
next
  case (Some q)
  from assms(1) Some obtain j where j: "store s q = Some j" by (rule sup_saneD)
  let ?s = "s\<lparr>jobs := AList.delete i (jobs s)\<rparr>"
  have st: "store ?s q = Some j" using j by simp
  have d: "sup_sane (put_job q j' w ?s)" if "follows j j'" for j' w
    using sup_sane_put[OF sup_sane_delete[OF assms(1)] st] that by (simp add: follows_def)
  from assms(2) Some j show ?thesis
  proof (cases rule: call_other_cases)
    case (called j' w)
    with sup_sane_put[OF assms(1) j] show ?thesis by (simp add: follows_def)
  next
    case (unlinked j' w)
    with d show ?thesis by simp
  next
    case (relinked j' w)
    with d sup_sane_add[of "put_job q j' w ?s" q j'] show ?thesis by simp
  qed
qed

lemma sup_call_others:
  assumes sane: "sup_sane s" and c: "sup_call E op i s = (r, s')" and ne: "i' \<noteq> i"
  shows "sup_entry s' i' = sup_entry s i'"
proof (cases "map_of (jobs s) i")
  case None
  with c show ?thesis by (simp add: sup_call_missing)
next
  case (Some q)
  from sane Some obtain j where j: "store s q = Some j" "ID j = i" by (rule sup_saneD)
  let ?s = "s\<lparr>jobs := AList.delete i (jobs s)\<rparr>"
  from c Some j(1) show ?thesis
  proof (cases rule: call_other_cases)
    case (called j' w)
    with entry_put[OF sane Some ne] show ?thesis by simp
  next
    case (unlinked j' w)
    with entry_put_unlinked[OF sane Some ne] show ?thesis by simp
  next
    case (relinked j' w)
    have "ID (job_at (put_job q j' w ?s) q) = i"
      using relinked(1) j by (simp add: follows_def job_at_def)
    then have "sup_entry s' i' = sup_entry (put_job q j' w ?s) i'"
      using ne unfolding relinked(2) by (simp add: sup_entry_def sup_add_def cong: option.case_cong)
    with entry_put_unlinked[OF sane Some ne] show ?thesis by simp
  qed
qed

text \<open>A job that is still registered after a call on it has moved forward only.\<close>

lemma sup_call_entry:
  assumes sane: "sup_sane s" and c: "sup_call E op i s = (res, s')" and e: "sup_entry s' i = Some k"
  shows "\<exists>j. sup_entry s i = Some j \<and> follows j k"
proof (cases "map_of (jobs s) i")
  case None
  with c e show ?thesis by (simp add: sup_call_missing sup_entry_def)
next
  case (Some r)
  from sane Some obtain j where j: "store s r = Some j" "ID j = i" by (rule sup_saneD)
  have old: "sup_entry s i = Some j" using Some j by (simp add: sup_entry_def)
  from c Some j(1) show ?thesis
  proof (cases rule: call_other_cases)
    case (called j' w)
    with e Some have "k = j'" by (simp add: sup_entry_def)
    with called old show ?thesis by blast
  next
    case (unlinked j' w)
    with e show ?thesis by (simp add: sup_entry_def)
  next
    case (relinked j' w)
    then have "ID j' = i" using j by (simp add: follows_def)
    with e relinked(2) have "k = j'" by (simp add: sup_entry_def sup_add_def job_at_def)
    with relinked(1) old show ?thesis by blast
  qed
qed

lemma map_sum_Inl: "map_sum id f r = Inl e \<longleftrightarrow> r = Inl e"
  by (cases r) simp_all

lemma sup_call_error:
  assumes sane: "sup_sane s" and c: "sup_call E op i s = (Ret (Inl e), s')" and m: "map_of (jobs s) i = Some q"
  shows "\<not> errors_Is e ErrNotFound"
proof -
  from sane m obtain j where j: "store s q = Some j" by (rule sup_saneD)
  show ?thesis
  proof (cases op)
    case (OpStop g)
    then show ?thesis
      using c m j job_errors(1)[where j = j and E = E] job_errors(2)[where j = j and E = E]
      by (cases g)
        (force simp: sup_Stop_def with_ref_def on_job_def map_sum_Inl split: prod.splits)+
  next
    case OpRemove
    then show ?thesis
      using c m j job_errors(4)[where j = j and E = E]
      by (auto simp: sup_Remove_def Remove_unlink_def with_ref_def cleanup_or_add_def on_job_outcome_def
          split: prod.splits outcome.splits sum.splits if_splits)
  next
    case OpInspect
    then show ?thesis using c m j by (auto simp: sup_Inspect_def with_ref_def split: prod.splits)
  next
    case OpLogs
    then show ?thesis
      using c m j job_errors(3)[where j = j and E = E]
      by (auto simp: sup_Logs_def with_ref_def on_job_def sm_bind_def sm_ret_def
          split: prod.splits sum.splits)
  qed
qed

interpretation registry: job_registry "sup_call E" sup_entry sup_sane for E
proof
  show "sup_call E op i s = (Ret (Inl ErrNotFound), s)" if "sup_sane s" "sup_entry s i = None" for s i op
    using that by (simp add: sup_entry_None sup_call_missing)
  show "\<not> errors_Is e ErrNotFound"
    if "sup_sane s" "sup_entry s i \<noteq> None" "sup_call E op i s = (Ret (Inl e), s')" for s i op e s'
    using that sup_call_error by (auto simp: sup_entry_None)
  show "sup_entry s' i' = sup_entry s i'"
    if "sup_sane s" "sup_call E op i s = (r, s')" "i' \<noteq> i" for s i op r s' i'
    using that by (rule sup_call_others)
  show "sup_sane s'" if "sup_sane s" "sup_call E op i s = (r, s')" for s i op r s'
    using that by (rule sup_call_sane)
qed

lemma isl_map_sum: "isl (map_sum f g x) = isl x"
  by (cases x) simp_all

lemma sup_call_domain:
  assumes "sup_sane s" and "sup_call E op i s = (Ret r, s')"
  shows "map_of (jobs s') = (if op = OpRemove \<and> \<not> isl r then (map_of (jobs s))(i := None) else map_of (jobs s))"
proof (cases "op = OpRemove")
  case True
  then obtain r0 where "sup_Remove E i s = (Ret r0, s')" and "isl r0 = isl r"
    using assms(2) by (auto simp: isl_map_sum split: prod.splits outcome.splits)
  from Remove_result[OF assms(1) this(1)] this(2) True show ?thesis by (cases r0) auto
next
  case False
  show ?thesis
  proof (cases "map_of (jobs s) i")
    case None
    with assms(2) show ?thesis by (auto simp: sup_call_missing)
  next
    case (Some q)
    then have "jobs s' = jobs s"
      using assms(2) False
      by (cases op)
        (auto simp: sup_Stop_def sup_Inspect_def sup_Logs_def with_ref_def on_job_def sm_bind_def sm_ret_def Let_def
          split: prod.splits sum.splits)
    with False show ?thesis by simp
  qed
qed

text \<open>
  Whatever is done to other jobs (stop, remove, inspect, read the output, in any number
  and order, successful or not, also removals that still wait), the entry of a job and its
  state stay as they are.
\<close>

lemma jobs_are_isolated:
  assumes "sup_sane s" and "\<forall>(op, k) \<in> set cs. k \<noteq> i"
  shows "sup_entry (fold (\<lambda>(op, k) s. snd (sup_call E op k s)) cs s) i = sup_entry s i"
  using assms by (intro registry.series_keeps) auto

lemma demo_ended_sane: "sup_sane demo_ended"
  using demo_ended_inv by (rule sup_sane_inv)

section \<open>Clean-up without removal\<close>

text \<open>
  The supervisor's own \<^verbatim>\<open>Cleanup\<close> does not unlink the job, although its comment says
  so: after it has succeeded the identifier is still registered, the job shows up as
  removed, and no later removal of it succeeds.
\<close>

lemma Cleanup_leaves_removed_job:
  assumes "sup_sane s" and "sup_Cleanup E i s = (Ret (Inr ()), s')"
  shows "map_of (jobs s') i = map_of (jobs s) i \<and> map_of (jobs s') i \<noteq> None \<and>
    (\<exists>c t. sup_Inspect i s' = (Inr (StatusRemoved, c, t), s')) \<and>
    fst (sup_Remove E' i s') = Ret (Inl (Errorf ''job is removed'')) \<and>
    map_of (jobs (snd (sup_Remove E' i s'))) i = map_of (jobs s) i"
proof -
  from assms(2) obtain r where r: "map_of (jobs s) i = Some r" and c: "cleanup_or_add E r s = (Ret (Inr ()), s')"
    by (auto simp: sup_Cleanup_def sup_lookup_remove_def with_ref_def sm_ret_def
        split: option.splits prod.splits sum.splits)
  from assms(1) r obtain j where j: "store s r = Some j" "ID j = i" by (rule sup_saneD)
  obtain w where s': "s' = put_job r (setHandler zombieHandler j) w s"
    using c j(1)
    by (auto simp: cleanup_or_add_def on_job_Cleanup split: prod.splits sum.splits if_splits)
  let ?j = "setHandler zombieHandler j"
  have j': "store s' r = Some ?j" "map_of (jobs s') i = Some r" using r by (simp_all add: s')
  have "job_Status ?j = (StatusRemoved, state_ExitCode (ProcessState (job_cmd j)))"
    by (simp add: job_Status_def status_defs)
  then have ins: "\<exists>c t. sup_Inspect i s' = (Inr (StatusRemoved, c, t), s')"
    using j' by (simp add: sup_Inspect_def with_ref_def Let_def)
  let ?s = "s'\<lparr>jobs := AList.delete i (jobs s')\<rparr>"
  have "on_job_outcome r (job_Cleanup E') ?s
      = (Ret (Inl (Errorf ''job is removed'')), put_job r ?j (sup_world ?s) ?s)"
    using j' by (subst on_job_Cleanup[of _ _ ?j]) simp_all
  then have "sup_Remove E' i s'
      = (Ret (Inl (Errorf ''job is removed'')), sup_add r (put_job r ?j (sup_world ?s) ?s))"
    using j' by (simp add: sup_Remove_def Remove_unlink_def with_ref_def cleanup_or_add_def)
  then show ?thesis using ins r j' j(2) by (simp add: sup_add_def job_at_def)
qed

section \<open>Stopping the supervisor\<close>

text \<open>A clean-up that can proceed: the job is removed already or has no reader.\<close>

definition free_to_clean :: "job \<Rightarrow> bool" where
  "free_to_clean j \<longleftrightarrow> job_handler j = zombieHandler \<or> outLock j = 0"

lemma no_faults_RemoveAll: "no_faults E \<Longrightarrow> \<exists>w'. os_do E (SRemoveAll d) w = (Inr (), w')"
  by (simp add: no_faults_def os_do_def os_call_def sm_defs Let_def)

lemma free_Cleanup:
  assumes "store s r = Some j" and "free_to_clean j"
  shows "\<exists>u j' w. on_job_outcome r (job_Cleanup E) s = (Ret u, put_job r j' w s) \<and>
    (no_faults E \<longrightarrow> job_handler j' = zombieHandler)"
proof (cases "job_handler j = zombieHandler")
  case True
  then show ?thesis using on_job_Cleanup[OF assms(1)] by auto
next
  case False
  obtain x w where o: "os_do E (SRemoveAll (jobDir j)) (sup_world s) = (x, w)" by (metis prod.exhaust)
  have "no_faults E \<Longrightarrow> x = Inr ()"
    using o no_faults_RemoveAll[of E "jobDir j" "sup_world s"] by auto
  with False o assms show ?thesis
    by (cases x) (auto simp: on_job_Cleanup free_to_clean_def intro: exI[of _ j])
qed

lemma cleanup_jobs_result:
  assumes "distinct rs" and "\<And>r. r \<in> set rs \<Longrightarrow> store s r \<noteq> None"
  shows "fst (cleanup_jobs E rs s) =
      (if \<forall>r \<in> set rs. free_to_clean (job_at s r) then Ret () else Block) \<and>
    (\<forall>r. r \<notin> set rs \<longrightarrow> store (snd (cleanup_jobs E rs s)) r = store s r) \<and>
    jobs (snd (cleanup_jobs E rs s)) = jobs s \<and>
    (no_faults E \<and> returns (fst (cleanup_jobs E rs s)) \<longrightarrow>
       (\<forall>r \<in> set rs. \<exists>j. store (snd (cleanup_jobs E rs s)) r = Some j \<and> job_handler j = zombieHandler))"
  using assms
proof (induction rs arbitrary: s)
  case (Cons r rs)
  from Cons.prems(2)[of r] obtain j where j: "store s r = Some j" by auto
  show ?case
  proof (cases "free_to_clean j")
    case False
    then have b: "on_job_outcome r (job_Cleanup E) s = (Block, put_job r j (sup_world s) s)"
      using j by (simp add: on_job_Cleanup free_to_clean_def)
    show ?thesis using False j by (auto simp: b)
  next
    case True
    obtain u j' w where c: "on_job_outcome r (job_Cleanup E) s = (Ret u, put_job r j' w s)"
      and z: "no_faults E \<longrightarrow> job_handler j' = zombieHandler"
      using free_Cleanup[OF j True] by blast
    have st: "job_at (put_job r j' w s) q = job_at s q" if "q \<in> set rs" for q
      using that Cons.prems(1) by (auto simp: job_at_def)
    have IH: "fst (cleanup_jobs E rs (put_job r j' w s)) =
        (if \<forall>q \<in> set rs. free_to_clean (job_at (put_job r j' w s) q) then Ret () else Block) \<and>
      (\<forall>q. q \<notin> set rs \<longrightarrow> store (snd (cleanup_jobs E rs (put_job r j' w s))) q = store (put_job r j' w s) q) \<and>
      jobs (snd (cleanup_jobs E rs (put_job r j' w s))) = jobs (put_job r j' w s) \<and>
      (no_faults E \<and> returns (fst (cleanup_jobs E rs (put_job r j' w s))) \<longrightarrow>
       (\<forall>q \<in> set rs. \<exists>k. store (snd (cleanup_jobs E rs (put_job r j' w s))) q = Some k \<and>
          job_handler k = zombieHandler))"
      by (rule Cons.IH) (use Cons.prems in auto)
    have "cleanup_jobs E (r # rs) s = cleanup_jobs E rs (put_job r j' w s)" by (simp add: c)
    then show ?thesis using IH True z j st Cons.prems(1) by (auto split: if_splits)
  qed
qed simp

lemma stop_jobs_result:
  assumes "distinct rs"
  shows "jobs (stop_jobs E rs s) = jobs s \<and> (\<forall>r. store s r \<noteq> None \<longrightarrow> store (stop_jobs E rs s) r \<noteq> None) \<and>
    (\<forall>r. r \<notin> set rs \<longrightarrow> store (stop_jobs E rs s) r = store s r) \<and>
    (no_faults E \<longrightarrow> (\<forall>r \<in> set rs. job_handler (job_at (stop_jobs E rs s) r) \<noteq> activeHandler))"
  using assms
proof (induction rs arbitrary: s)
  case (Cons r rs)
  obtain x j' w where m: "InitStop E (10 * time_Second) (job_at s r, sup_world s) = (x, (j', w))"
    by (metis prod.exhaust)
  let ?s = "put_job r j' w s"
  have eq: "stop_jobs E (r # rs) s = stop_jobs E rs ?s"
    using m by (simp add: stop_jobs_def on_job_def)
  have h: "job_handler j' \<noteq> activeHandler" if "no_faults E"
  proof (cases "job_handler (job_at s r) = activeHandler")
    case True
    have "\<exists>w'. os_do E (SSignal SIGTERM) (sup_world s) = (Inr (), w')"
      using that by (simp add: no_faults_def os_do_def os_call_def sm_defs Let_def)
    with True m show ?thesis by (auto simp: InitStop_active)
  next
    case False
    with m show ?thesis by (auto simp: InitStop_other)
  qed
  have "distinct rs" and "r \<notin> set rs" using Cons.prems by auto
  with Cons.IH[OF \<open>distinct rs\<close>, of ?s] h show ?case unfolding eq
    by (auto simp: job_at_def)
qed (simp add: stop_jobs_def)

text \<open>
  \<^verbatim>\<open>StopSupervisor\<close> asks every registered job to stop: without faults none of them is
  active any more when it starts to wait. It returns exactly if, after what the other
  goroutines did in the meantime, the end of every registered process has been reported
  and no reader of an output is open; it waits otherwise, whatever the order in which it
  visits the jobs. When it returns, the map of jobs is what it was and, without faults,
  every registered job has been removed.
\<close>

lemma StopSupervisor_result:
  assumes "sup_sane s" and "set rs = ran (map_of (jobs s))" and "distinct rs"
    and "set rs' = set rs" and "distinct rs'"
    and "jobs s2 = jobs s1 \<and> (\<forall>r. store s1 r \<noteq> None \<longrightarrow> store s2 r \<noteq> None)"
    and "s1 = stop_jobs E rs s" and "s2 = others s1"
    and "StopSupervisor E rs others rs' s = (res, s3)"
  shows "(no_faults E \<longrightarrow> (\<forall>r \<in> set rs. job_handler (job_at s1 r) \<noteq> activeHandler)) \<and>
    res = (if \<forall>r \<in> set rs. done_closed (job_at s2 r) \<and> free_to_clean (job_at s2 r) then Ret () else Block) \<and>
    jobs s3 = jobs s \<and>
    (no_faults E \<and> returns res \<longrightarrow>
       (\<forall>i. map_of (jobs s) i \<noteq> None \<longrightarrow> (\<exists>j. sup_entry s3 i = Some j \<and> job_handler j = zombieHandler)))"
proof -
  note S = stop_jobs_result[OF assms(3), of E s, folded assms(7)]
  have reg: "store s r \<noteq> None" if "r \<in> set rs" for r
    using that assms(1,2) unfolding ran_def by (auto elim: sup_saneD)
  have reg2: "store s2 r \<noteq> None" if "r \<in> set rs'" for r
    using reg[of r] that S assms(4,6,8) by auto
  have j2: "jobs s2 = jobs s" using S assms(6,8) by simp
  note C = cleanup_jobs_result[OF assms(5) reg2, of E]
  have w: "wait_jobs rs s2 = (if \<forall>r \<in> set rs. done_closed (job_at s2 r) then Ret () else Block)"
    by (simp add: wait_jobs_def job_Wait_def)
  have eq: "(case wait_jobs rs s2 of Ret _ \<Rightarrow> cleanup_jobs E rs' s2
      | Panic m \<Rightarrow> (Panic m, s2) | Block \<Rightarrow> (Block, s2)) = (res, s3)"
    using assms(9) unfolding StopSupervisor_def Let_def assms(7,8) .
  show ?thesis
  proof (cases "\<forall>r \<in> set rs. done_closed (job_at s2 r)")
    case False
    then have "wait_jobs rs s2 = Block" using w by simp
    with eq have "res = Block" "s3 = s2" by simp_all
    with False S j2 show ?thesis by auto
  next
    case True
    then have "wait_jobs rs s2 = Ret ()" using w by simp
    with eq have run: "cleanup_jobs E rs' s2 = (res, s3)" by simp
    have z: "\<exists>j. sup_entry s3 i = Some j \<and> job_handler j = zombieHandler"
      if "no_faults E" "returns res" "map_of (jobs s) i \<noteq> None" for i
    proof -
      from that(3) obtain r where r: "map_of (jobs s) i = Some r" by auto
      then have "r \<in> set rs'" using assms(2,4) by (auto simp: ran_def)
      with C run that(1,2) j2 r show ?thesis by (auto simp: sup_entry_def)
    qed
    show ?thesis using C run S True j2 z assms(4) by auto
  qed
qed

definition demo_active :: supervisor where
  "demo_active =
     \<lparr>jobs = [(''x'', 0)], sup_ids = root_ids, store = (\<lambda>_. None)(0 \<mapsto> new_job ''x'' 0 0),
      next_ref = 1, sup_world = empty_world\<rparr>"

lemma demo_active_sane: "sup_sane demo_active"
  by (auto simp: sup_sane_def keys_ok_def refs_ok_def demo_active_def distinct_keys_def new_job_def
      split: if_splits)

end
