(* ===== verification/Server_Facts.thy ===== *)
theory Server_Facts
  imports Server Supervisor_Facts
begin

text \<open>
  What the service guarantees: who may see and change what, that a job a client has no
  access to is not told apart from one that does not exist, and that every job has an owner.
\<close>

section \<open>The methods over the interface of the registry\<close>

fun req_op :: "request \<Rightarrow> sup_op" where
  "req_op (ReqStop i m) = OpStop (m = STOP_MODE_GRACEFUL)"
| "req_op (ReqRemove i) = OpRemove"
| "req_op (ReqInspect i) = OpInspect"
| "req_op _ = OpLogs"

fun to_response :: "request \<Rightarrow> sup_reply \<Rightarrow> response" where
  "to_response (ReqStop i m) rep = RespStop"
| "to_response (ReqRemove i) rep = RespRemove"
| "to_response _ (RepDetails st c t) =
     RespInspect \<lparr>det_status = fromJobStatus st, det_exit_code = c, det_command = t\<rparr>"
| "to_response _ (RepReader r rd) = RespReader r rd"
| "to_response _ RepDone = RespStop"

text \<open>
  Every method on an existing job is a check, a call of the registry and a translation; a
  removal that succeeds also drops the owner.
\<close>

lemma srv_handle_call:
  assumes "authID ctx = (cid, True)" and "req_job req = Some i"
  shows "srv_handle E ctx req s =
    (if \<not> acl_allowed (srv_auth s) cid i (req_action req) then (Ret (Inl job_not_found), s)
     else case sup_call E (req_op req) i (srv_jobs s) of
       (Ret (Inl e), js) \<Rightarrow> (Ret (Inl (to_status e)), s\<lparr>srv_jobs := js\<rparr>)
     | (Ret (Inr rep), js) \<Rightarrow>
         (Ret (Inr (to_response req rep)),
          if req_op req = OpRemove
          then s\<lparr>srv_jobs := js, srv_auth := acl_disown i (srv_auth s)\<rparr>
          else s\<lparr>srv_jobs := js\<rparr>)
     | (Panic m, js) \<Rightarrow> (Panic m, s\<lparr>srv_jobs := js\<rparr>)
     | (Block, js) \<Rightarrow> (Block, s\<lparr>srv_jobs := js\<rparr>))"
  using assms
  by (cases req)
    (auto simp: srv_Stop_def srv_Remove_def srv_Inspect_def srv_Logs_open_def hasFullAccess_def
      hasReadAccess_def acl_allowed_def[symmetric] acl_disown_def resp_def srv_reply_def apfst_def map_prod_def Let_def
      split: prod.splits sum.splits outcome.splits)

text \<open>
  A request without an identity is refused, whatever it asks for, and has no effect.
\<close>

lemma unauthenticated_rejected:
  assumes "\<not> snd (authID ctx)"
  shows "srv_handle E ctx req s = (Ret (Inl invalid_client), s)"
  using assms
  by (cases req)
    (auto simp: srv_Start_def srv_Stop_def srv_Remove_def srv_Inspect_def srv_Logs_open_def resp_def
      apfst_def map_prod_def Let_def split: prod.splits)

definition demo_srv :: jobServer where
  "demo_srv = \<lparr>srv_jobs = demo_ended,
     srv_auth = \<lparr>superUsers = {''root''}, superReadUsers = {''audit''}, owners = [''x'' \<mapsto> ''bob'']\<rparr>\<rparr>"

lemma to_status_not_found: "to_status e = job_not_found \<longleftrightarrow> errors_Is e ErrNotFound"
  by (auto simp: to_status_def job_not_found_def)

text \<open>
  C7. A client is told that a job does not exist exactly if it has no access of the kind
  the request needs or the job is not registered; the answer is the same in both cases, and
  in both cases nothing has happened.
\<close>

theorem not_found_tells_nothing:
  assumes "sup_sane (srv_jobs s)" and "authID ctx = (cid, True)" and "req_job req = Some i"
  shows "(fst (srv_handle E ctx req s) = Ret (Inl job_not_found) \<longleftrightarrow>
      \<not> acl_allowed (srv_auth s) cid i (req_action req) \<or> sup_entry (srv_jobs s) i = None) \<and>
    (fst (srv_handle E ctx req s) = Ret (Inl job_not_found) \<longrightarrow> snd (srv_handle E ctx req s) = s)"
proof (cases "acl_allowed (srv_auth s) cid i (req_action req)")
  case False
  then show ?thesis by (simp add: srv_handle_call[OF assms(2,3)])
next
  case True
  show ?thesis
  proof (cases "sup_entry (srv_jobs s) i")
    case None
    then have "sup_call E (req_op req) i (srv_jobs s) = (Ret (Inl ErrNotFound), srv_jobs s)"
      using assms(1) by (rule registry.missing[rotated])
    then show ?thesis using True None
      by (simp add: srv_handle_call[OF assms(2,3)] to_status_not_found)
  next
    case (Some j)
    have "\<not> errors_Is e ErrNotFound" if "sup_call E (req_op req) i (srv_jobs s) = (Ret (Inl e), js)" for e js
      using registry.sentinel[OF assms(1) _ that] Some by simp
    then have "fst (srv_handle E ctx req s) \<noteq> Ret (Inl job_not_found)"
      using True
      by (auto simp: srv_handle_call[OF assms(2,3)] to_status_not_found
          split: prod.splits outcome.splits sum.splits)
    then show ?thesis using True Some by simp
  qed
qed

theorem not_found_tells_nothing_witness:
  "srv_handle quiet_env (StoreAuthID [] ''eve'') (ReqStop ''x'' STOP_MODE_GRACEFUL) demo_srv =
     (Ret (Inl job_not_found), demo_srv) \<and>
   srv_handle quiet_env (StoreAuthID [] ''bob'') (ReqStop ''y'' STOP_MODE_GRACEFUL) demo_srv =
     (Ret (Inl job_not_found), demo_srv)"
proof -
  have sane: "sup_sane (srv_jobs demo_srv)" using demo_ended_sane by (simp add: demo_srv_def)
  have "\<not> acl_allowed (srv_auth demo_srv) ''eve'' ''x'' FullAccess"
    by (simp add: demo_srv_def acl_allowed_iff)
  moreover have "sup_entry (srv_jobs demo_srv) ''y'' = None"
    by (simp add: demo_srv_def demo_ended_def sup_entry_def)
  ultimately show ?thesis
    using not_found_tells_nothing[OF sane authID_Store, of "ReqStop ''x'' STOP_MODE_GRACEFUL" "''x''" quiet_env "[]" "''eve''"]
      not_found_tells_nothing[OF sane authID_Store, of "ReqStop ''y'' STOP_MODE_GRACEFUL" "''y''" quiet_env "[]" "''bob''"]
    by (simp add: prod_eq_iff)
qed

section \<open>Other people's jobs\<close>

text \<open>
  C8. A request of a client cannot touch a registered job the client has no access to: the
  job, its entry and its owner stay as they are, and the client still has no access to it,
  whether the request is about this job, about another one or starts a new one.
\<close>

theorem foreign_job_untouched:
  assumes "sup_sane (srv_jobs s)" and "authID ctx = (cid, True)"
    and "sup_entry (srv_jobs s) i = Some j" and "\<not> acl_allowed (srv_auth s) cid i ReadAccess"
    and "srv_handle E ctx req s = (res, s')"
    and "x = os_xid E (trace (sup_world (srv_jobs s)))" and "trim_space x = x"
    and "\<forall>r k. store (srv_jobs s) r = Some k \<longrightarrow> ID k \<noteq> x"
  shows "sup_entry (srv_jobs s') i = Some j \<and> owners (srv_auth s') i = owners (srv_auth s) i \<and>
    \<not> acl_allowed (srv_auth s') cid i ReadAccess"
proof (cases "req_job req")
  case (Some k)
  show ?thesis
  proof (cases "acl_allowed (srv_auth s) cid k (req_action req)")
    case False
    then have "s' = s" using assms(5) by (simp add: srv_handle_call[OF assms(2) Some])
    with assms(3,4) show ?thesis by simp
  next
    case True
    then have "acl_allowed (srv_auth s) cid k ReadAccess"
      using acl.full_is_most by (cases req) auto
    with assms(4) have ne: "i \<noteq> k" by auto
    obtain r js where c: "sup_call E (req_op req) k (srv_jobs s) = (r, js)" by (metis prod.exhaust)
    have j: "sup_entry js i = Some j" using registry.others[OF assms(1) c ne] assms(3) by simp
    have s': "srv_jobs s' = js" "srv_auth s' \<in> {srv_auth s, acl_disown k (srv_auth s)}"
      using assms(5) True c
      by (auto simp: srv_handle_call[OF assms(2) Some] split: outcome.splits sum.splits if_splits)
    with j acl.disown_frame[OF ne, of "srv_auth s" cid ReadAccess] acl.owner_disown[of k "srv_auth s"] ne assms(4)
    show ?thesis by auto
  qed
next
  case None
  then obtain q where q: "req = ReqStart q" by (cases req) auto
  show ?thesis
  proof (cases "\<exists>lim jid js. toJobLimits (req_Limits q) = Ret lim \<and>
      sup_Start E (req_Command q) (req_Args q) lim (srv_jobs s) = (Inr jid, js)")
    case True
    then obtain lim jid js where l: "toJobLimits (req_Limits q) = Ret lim"
      and st: "sup_Start E (req_Command q) (req_Args q) lim (srv_jobs s) = (Inr jid, js)" by blast
    have s': "srv_jobs s' = js" "srv_auth s' = acl_own jid cid (srv_auth s)"
      using assms(2,5) l st by (auto simp: q srv_Start_def acl_own_def resp_def)
    have x: "jid = x" using sup_Start_frame(1)[OF st] assms(6) by simp
    with sup_entry_new[OF assms(1,8)] assms(3) have ne: "i \<noteq> x" by auto
    with sup_Start_entry[OF assms(1) st] x assms(3) have "sup_entry js i = Some j" by auto
    moreover have "owners (acl_own jid cid (srv_auth s)) i = owners (srv_auth s) i"
      using ne x assms(7) by (simp add: acl_own_def owners_SetOwner)
    moreover have "\<not> acl_allowed (acl_own jid cid (srv_auth s)) cid i ReadAccess"
      using assms(4,7) ne x by (subst acl.own_other) simp_all
    ultimately show ?thesis by (simp add: s')
  next
    case False
    then have auth: "srv_auth s' = srv_auth s" and
      js: "srv_jobs s' = srv_jobs s \<or> (\<exists>w. srv_jobs s' = (srv_jobs s)\<lparr>sup_world := w\<rparr>)"
      using assms(2,5)
      by (auto simp: q srv_Start_def resp_def apfst_def map_prod_def sup_Start_def
          split: outcome.splits prod.splits sum.splits)
    from js have "sup_entry (srv_jobs s') i = sup_entry (srv_jobs s) i"
      by (auto simp: sup_entry_def cong: option.case_cong)
    with assms(3,4) show ?thesis by (simp add: auth)
  qed
qed

theorem foreign_job_untouched_witness:
  "\<exists>res s'. srv_handle quiet_env (StoreAuthID [] ''eve'') (ReqRemove ''x'') demo_srv = (res, s') \<and>
     sup_entry (srv_jobs s') ''x'' \<noteq> None \<and> \<not> acl_allowed (srv_auth s') ''eve'' ''x'' ReadAccess"
proof -
  have sane: "sup_sane (srv_jobs demo_srv)" using demo_ended_sane by (simp add: demo_srv_def)
  obtain j where j: "sup_entry (srv_jobs demo_srv) ''x'' = Some j"
    by (simp add: demo_srv_def demo_ended_def sup_entry_def)
  have no: "\<not> acl_allowed (srv_auth demo_srv) ''eve'' ''x'' ReadAccess"
    by (simp add: demo_srv_def acl_allowed_iff)
  have ids: "\<forall>r k. store (srv_jobs demo_srv) r = Some k \<longrightarrow> ID k \<noteq> os_xid quiet_env (trace (sup_world (srv_jobs demo_srv)))"
    by (auto simp: demo_srv_def demo_ended_def new_job_def quiet_env_def split: if_splits)
  have trim: "trim_space (os_xid quiet_env (trace (sup_world (srv_jobs demo_srv))))
      = os_xid quiet_env (trace (sup_world (srv_jobs demo_srv)))" by code_simp
  obtain res s' where h: "srv_handle quiet_env (StoreAuthID [] ''eve'') (ReqRemove ''x'') demo_srv = (res, s')"
    by (metis prod.exhaust)
  from foreign_job_untouched[OF sane authID_Store j no h refl trim ids] h show ?thesis by auto
qed

section \<open>Ownership\<close>

text \<open>
  A job belongs to the client that started it: whoever started it may do everything
  with it, and of the others only the super users get any access.
\<close>

lemma started_job_belongs_to_client:
  assumes "authID ctx = (cid, True)" and "srv_Start E ctx req s = (Ret (Inr jid), s')"
    and "trim_space cid = cid" and "cid \<noteq> []" and "trim_space jid = jid" and "jid \<noteq> []"
  shows "acl_allowed (srv_auth s') cid jid a \<and>
    (\<forall>u. u \<noteq> cid \<and> u \<notin> superUsers (srv_auth s) \<and> u \<notin> superReadUsers (srv_auth s) \<longrightarrow>
       \<not> acl_allowed (srv_auth s') u jid a)"
proof -
  have auth: "srv_auth s' = acl_own jid cid (srv_auth s)"
    using assms(1,2)
    by (auto simp: srv_Start_def acl_own_def split: outcome.splits prod.splits sum.splits)
  have "acl_allowed (srv_auth s') cid jid a"
    using acl.own_grants[of jid cid "srv_auth s" a] assms(3-6) auth by simp
  then show ?thesis
    using assms(3-6) unfolding auth by (auto simp: acl_allowed_iff acl_own_def owners_SetOwner)
qed

definition demo_request :: start_request where
  "demo_request = \<lparr>req_Command = ''ls'', req_Args = [''-l''],
     req_Limits = Some \<lparr>Memory = 0, Cpus = F32 0 0, Io = 0\<rparr>\<rparr>"

definition new_srv :: jobServer where
  "new_srv = \<lparr>srv_jobs = sup_New 0 0 empty_world,
     srv_auth = \<lparr>superUsers = {''root''}, superReadUsers = {''audit''}, owners = Map.empty\<rparr>\<rparr>"

lemma demo_srv_start:
  assumes "authID ctx = (cid, True)"
  shows "srv_Start (mounts_env [] []) ctx demo_request new_srv =
    (Ret (Inr ''x''), new_srv\<lparr>srv_jobs := demo_start, srv_auth := acl_own ''x'' cid (srv_auth new_srv)\<rparr>)"
proof -
  have "sup_Start (mounts_env [] []) ''ls'' [''-l''] no_limits (sup_New 0 0 empty_world) = (Inr ''x'', demo_start)"
    using demo_start_result by blast
  then show ?thesis using assms
    by (simp add: srv_Start_def demo_request_def new_srv_def toJobLimits_def no_limits_def acl_own_def)
qed

text \<open>
  A removal that succeeds revokes every access to the job, also that of the super users:
  every later request for its identifier is answered as if the job had never existed.
\<close>

lemma removed_job_is_forgotten:
  assumes "srv_Remove E ctx jid s = (Ret (Inr ()), s')" and "authID ctx' = (u, True)"
    and "req_job req = Some jid"
  shows "\<not> acl_allowed (srv_auth s') u jid a \<and> map_of (jobs (srv_jobs s')) jid = None \<and>
    srv_handle E' ctx' req s' = (Ret (Inl job_not_found), s')"
proof -
  obtain js where c: "sup_Remove E jid (srv_jobs s) = (Ret (Inr ()), js)"
    and s': "s' = s\<lparr>srv_jobs := js, srv_auth := acl_disown jid (srv_auth s)\<rparr>"
    using assms(1)
    by (auto simp: srv_Remove_def acl_disown_def Let_def split: prod.splits outcome.splits sum.splits if_splits)
  have no: "\<not> acl_allowed (srv_auth s') u jid a'" for a'
    using acl.disown_revokes by (simp add: s')
  have "map_of (jobs js) jid = None"
    using c
    by (auto simp: sup_Remove_def Remove_unlink_def with_ref_def cleanup_or_add_def on_job_outcome_def
        put_job_def split: option.splits if_splits prod.splits outcome.splits sum.splits)
  then show ?thesis
    using no srv_handle_call[OF assms(2,3), of E' s'] by (simp add: s')
qed

text \<open>
  A client whose identity is blank (which the access control rejects as an owner, an
  error that \<^verbatim>\<open>Start\<close> drops) starts a job that nobody can stop, inspect or remove: the
  request succeeds, the job runs, and every request for it is answered with not found.
\<close>

lemma blank_identity_orphans_job:
  assumes "authID ctx = (cid, True)" and "srv_Start E ctx req s = (Ret (Inr jid), s')"
    and "trim_space cid = []" and "owners (srv_auth s) jid = None"
    and "authID ctx' = (u, True)" and "req_job req' = Some jid"
  shows "(\<exists>j. sup_entry (srv_jobs s') jid = Some j \<and> running (job_handler j)) \<and>
    srv_handle E' ctx' req' s' = (Ret (Inl job_not_found), s')"
proof -
  obtain lim js where st: "sup_Start E (req_Command req) (req_Args req) lim (srv_jobs s) = (Inr jid, js)"
    and s': "srv_jobs s' = js" "srv_auth s' = acl_own jid cid (srv_auth s)"
    using assms(1,2)
    by (auto simp: srv_Start_def acl_own_def split: outcome.splits prod.splits sum.splits)
  have "srv_auth s' = srv_auth s" using acl.own_invalid assms(3) s'(2) by simp
  then have "\<not> acl_allowed (srv_auth s') u jid a" for a
    using acl.needs_owner assms(4) by fastforce
  then have "srv_handle E' ctx' req' s' = (Ret (Inl job_not_found), s')"
    by (simp add: srv_handle_call[OF assms(5,6)])
  moreover have "\<exists>j. sup_entry (srv_jobs s') jid = Some j \<and> running (job_handler j)"
    using sup_Start_frame(4)[OF st] s'(1) by (auto simp: sup_entry_def fresh_job_def)
  ultimately show ?thesis by blast
qed

section \<open>Every job has an owner\<close>

text \<open>
  The states of a service whose clients have identities without surrounding space. The
  requests are handled one after another; between them the goroutines of the jobs run
  (\<open>follows\<close>). \<^verbatim>\<open>xid\<close> generates identifiers that are new and have no surrounding space.
\<close>

definition good_id :: "os_env \<Rightarrow> jobServer \<Rightarrow> string \<Rightarrow> bool" where
  "good_id E s x \<longleftrightarrow> x = os_xid E (trace (sup_world (srv_jobs s))) \<and> trim_space x = x \<and> x \<noteq> [] \<and>
     (\<forall>r j. store (srv_jobs s) r = Some j \<longrightarrow> ID j \<noteq> x)"

definition good_client :: "context_t \<Rightarrow> string \<Rightarrow> bool" where
  "good_client ctx cid \<longleftrightarrow> authID ctx = (cid, True) \<and> trim_space cid = cid \<and> cid \<noteq> []"

inductive srv_reach :: "os_env \<Rightarrow> server_config \<Rightarrow> jobServer \<Rightarrow> bool" for E cfg where
  new: "srv_reach E cfg s" if "srv_New cfg w = Inr s"
| request: "srv_reach E cfg s'"
    if "srv_reach E cfg s" and "good_client ctx cid" and "good_id E s x"
      and "srv_handle E ctx req s = (Ret res, s')"
| job: "srv_reach E cfg (s\<lparr>srv_jobs := put_job r j' w (srv_jobs s)\<rparr>)"
    if "srv_reach E cfg s" and "store (srv_jobs s) r = Some j" and "follows j j'"

definition srv_inv :: "server_config \<Rightarrow> jobServer \<Rightarrow> bool" where
  "srv_inv cfg s \<longleftrightarrow> sup_sane (srv_jobs s) \<and>
     dom (owners (srv_auth s)) = dom (map_of (jobs (srv_jobs s))) \<and>
     superUsers (srv_auth s) = set (su_FullAccess cfg) \<and>
     superReadUsers (srv_auth s) = set (su_ReadAccess cfg)"

lemma sup_sane_New: "sup_sane (sup_New uid gid w)"
  using sup_inv_init by (rule sup_sane_inv)

lemma srv_New_result:
  "srv_New cfg w =
    (case (atoi (ids_UID cfg), atoi (ids_GID cfg)) of
       (None, _) \<Rightarrow> Inl (Errorf ''invalid uid configured'')
     | (Some uid, None) \<Rightarrow> Inl (Errorf ''invalid gid configured'')
     | (Some uid, Some gid) \<Rightarrow> Inr \<lparr>srv_jobs = sup_New uid gid w, srv_auth =
          \<lparr>superUsers = set (su_FullAccess cfg), superReadUsers = set (su_ReadAccess cfg),
           owners = Map.empty\<rparr>\<rparr>)"
  by (simp add: srv_New_def AddSuperUsers_full AddSuperUsers_read acl_New_def split: option.splits)

lemma srv_inv_new: "srv_New cfg w = Inr s \<Longrightarrow> srv_inv cfg s"
  using sup_sane_New
  by (auto simp: srv_New_result srv_inv_def sup_New_def split: option.splits)

lemma srv_inv_job:
  "srv_inv cfg s \<Longrightarrow> store (srv_jobs s) r = Some j \<Longrightarrow> follows j j' \<Longrightarrow>
     srv_inv cfg (s\<lparr>srv_jobs := put_job r j' w (srv_jobs s)\<rparr>)"
  by (simp add: srv_inv_def sup_sane_put follows_def)

lemma srv_inv_start:
  assumes inv: "srv_inv cfg s" and cl: "good_client ctx cid" and gi: "good_id E s x"
    and run: "srv_Start E ctx q s = (Ret res, s')"
  shows "srv_inv cfg s'"
proof -
  have id: "authID ctx = (cid, True)" "trim_space cid = cid" "cid \<noteq> []"
    using cl by (simp_all add: good_client_def)
  have x: "x = os_xid E (trace (sup_world (srv_jobs s)))" "trim_space x = x" "x \<noteq> []"
    and new: "\<forall>r j. store (srv_jobs s) r = Some j \<longrightarrow> ID j \<noteq> x"
    using gi unfolding good_id_def by blast+
  obtain lim r js where l: "toJobLimits (req_Limits q) = Ret lim"
    and st: "sup_Start E (req_Command q) (req_Args q) lim (srv_jobs s) = (r, js)"
    using run id by (auto simp: srv_Start_def split: outcome.splits prod.splits)
  show ?thesis
  proof (cases r)
    case (Inl e)
    then obtain w where "s' = s\<lparr>srv_jobs := (srv_jobs s)\<lparr>sup_world := w\<rparr>\<rparr>"
      using run id l st by (auto simp: srv_Start_def sup_Start_def split: prod.splits sum.splits)
    with inv show ?thesis by (simp add: srv_inv_def sup_sane_def keys_ok_def refs_ok_def)
  next
    case (Inr jid)
    have s': "s' = s\<lparr>srv_jobs := js, srv_auth := acl_own jid cid (srv_auth s)\<rparr>"
      using run id l st Inr by (auto simp: srv_Start_def acl_own_def)
    have jid: "jid = x" using sup_Start_frame(1) st Inr x by simp
    have sane: "sup_sane js"
      using sup_sane_Start[of "srv_jobs s"] inv st Inr new jid by (auto simp: srv_inv_def)
    have "map_of (jobs js) = (map_of (jobs (srv_jobs s)))(x \<mapsto> next_ref (srv_jobs s))"
      using sup_Start_frame(2,4)[of E "req_Command q" "req_Args q" lim "srv_jobs s" jid js] st Inr jid by auto
    moreover have "owners (acl_own jid cid (srv_auth s)) = (owners (srv_auth s))(x \<mapsto> cid)"
      using acl.owner_own[of jid cid] id x jid by simp
    ultimately show ?thesis
      using inv sane unfolding s' srv_inv_def by (auto simp: acl_own_def)
  qed
qed

lemma srv_inv_request:
  assumes inv: "srv_inv cfg s" and id: "authID ctx = (cid, True)" and i: "req_job req = Some i"
    and run: "srv_handle E ctx req s = (Ret res, s')"
  shows "srv_inv cfg s'"
proof (cases "acl_allowed (srv_auth s) cid i (req_action req)")
  case False
  with run inv show ?thesis by (simp add: srv_handle_call[OF id i])
next
  case True
  obtain r js where c: "sup_call E (req_op req) i (srv_jobs s) = (Ret r, js)"
    using run True by (auto simp: srv_handle_call[OF id i] split: prod.splits outcome.splits)
  have sane: "sup_sane (srv_jobs s)" using inv by (simp add: srv_inv_def)
  note S = sup_call_sane[OF sane c] sup_call_domain[OF sane c]
  have s': "s' = (if req_op req = OpRemove \<and> \<not> isl r
      then s\<lparr>srv_jobs := js, srv_auth := acl_disown i (srv_auth s)\<rparr> else s\<lparr>srv_jobs := js\<rparr>)"
    using run True c by (cases r) (auto simp: srv_handle_call[OF id i])
  show ?thesis
    using inv S acl.owner_disown[of i "srv_auth s"] unfolding s' srv_inv_def
    by (auto simp: acl_disown_def)
qed

lemma srv_reach_inv: "srv_reach E cfg s \<Longrightarrow> srv_inv cfg s"
proof (induction rule: srv_reach.induct)
  case (request s ctx cid x req res s')
  show ?case
  proof (cases "req_job req")
    case None
    then obtain q where q: "req = ReqStart q" by (cases req) auto
    then obtain res' where "srv_Start E ctx q s = (Ret res', s')"
      using request.hyps(4) by (cases "srv_Start E ctx q s"; cases "fst (srv_Start E ctx q s)") (auto simp: resp_def)
    from srv_inv_start[OF request.IH request.hyps(2,3) this] show ?thesis .
  next
    case (Some i)
    have "authID ctx = (cid, True)" using request.hyps(2) by (simp add: good_client_def)
    from srv_inv_request[OF request.IH this Some request.hyps(4)] show ?thesis .
  qed
qed (auto intro: srv_inv_new srv_inv_job)


definition demo_config :: server_config where
  "demo_config =
     \<lparr>WorkRoot = [], su_FullAccess = [''root''], su_ReadAccess = [''audit''], tls_CAPath = [],
      tls_CertPath = [], tls_KeyPath = [], tls_ReloadSec = 30, ids_UID = ''0'', ids_GID = ''0'',
      Address = []\<rparr>"

lemma demo_srv_New: "srv_New demo_config empty_world = Inr new_srv"
proof -
  have "atoi ''0'' = Some 0" by code_simp
  then show ?thesis by (simp add: srv_New_result demo_config_def new_srv_def)
qed

lemma demo_srv_reach:
  "srv_reach (mounts_env [] []) demo_config
     (new_srv\<lparr>srv_jobs := demo_start, srv_auth := acl_own ''x'' ''bob'' (srv_auth new_srv)\<rparr>)"
proof -
  have r: "srv_reach (mounts_env [] []) demo_config new_srv"
    using srv_reach.new[OF demo_srv_New] .
  have trim: "trim_space ''bob'' = ''bob''" "trim_space ''x'' = ''x''" by code_simp+
  have h: "srv_handle (mounts_env [] []) (StoreAuthID [] ''bob'') (ReqStart demo_request) new_srv =
     (Ret (Inr (RespStart ''x'')),
      new_srv\<lparr>srv_jobs := demo_start, srv_auth := acl_own ''x'' ''bob'' (srv_auth new_srv)\<rparr>)"
    using demo_srv_start[OF authID_Store] by (simp add: resp_def)
  have "good_id (mounts_env [] []) new_srv ''x''"
    using trim by (simp add: good_id_def mounts_env_def new_srv_def sup_New_def)
  moreover have "good_client (StoreAuthID [] ''bob'') ''bob''"
    using trim by (simp add: good_client_def)
  ultimately show ?thesis using srv_reach.request[OF r _ _ h] by blast
qed


section \<open>Configuration\<close>

text \<open>
  The identity the jobs run with is the configured one: a service whose configuration
  holds the decimal texts of a user and a group id starts with these ids, without jobs and
  without owners.
\<close>

lemma config_ids_roundtrip:
  assumes "int64 uid" and "int64 gid" and "ids_UID cfg = int_dec uid" and "ids_GID cfg = int_dec gid"
  shows "\<exists>s. srv_New cfg w = Inr s \<and> sup_ids (srv_jobs s) = \<lparr>UID = uid, GID = gid\<rparr> \<and>
    jobs (srv_jobs s) = [] \<and> owners (srv_auth s) = Map.empty"
  using assms by (simp add: srv_New_result atoi_int_dec sup_New_def)

section \<open>The output stream\<close>

lemma reader_Close_lock:
  "reader_Close E rd (j, w) = (x, (j', w')) \<Longrightarrow> outLock j' = outLock j - 1 \<and> logReaders j' = logReaders j - 1"
  by (auto simp: reader_Close_def Let_def split: prod.splits)

lemma job_Logs_lock:
  assumes "job_Logs E (j, w) = (x, (j', w'))"
  shows "case x of
      Inl e \<Rightarrow> j' = j
    | Inr rd \<Rightarrow> outLock j' = outLock j + 1 \<and> logReaders j' = logReaders j + 1"
  using assms by (auto simp: job_Logs_eq split: prod.splits sum.splits if_splits)

lemma Logs_open_cases:
  assumes "srv_Logs_open E ctx jid s = (opened, s1)"
  shows "(\<exists>st. opened = Ret (Inl st) \<and> jobs (srv_jobs s1) = jobs (srv_jobs s) \<and> srv_auth s1 = srv_auth s) \<or>
      (\<exists>r rd. opened = Ret (Inr (r, rd)) \<and>
        outLock (job_at (srv_jobs s1) r) = outLock (job_at (srv_jobs s) r) + 1 \<and>
        logReaders (job_at (srv_jobs s1) r) = logReaders (job_at (srv_jobs s) r) + 1)"
proof (cases "snd (authID ctx) \<and> hasReadAccess s (fst (authID ctx)) jid")
  case False
  with assms show ?thesis by (auto simp: srv_Logs_open_def Let_def split: prod.splits if_splits)
next
  case True
  obtain x js where l: "sup_Logs E jid (srv_jobs s) = (x, js)" by (metis prod.exhaust)
  have o: "opened = srv_reply x" "s1 = s\<lparr>srv_jobs := js\<rparr>"
    using True assms l by (auto simp: srv_Logs_open_def Let_def split: prod.splits)
  show ?thesis
  proof (cases "map_of (jobs (srv_jobs s)) jid")
    case None
    with l o show ?thesis by (auto simp: sup_Logs_def with_ref_def srv_reply_def)
  next
    case (Some r)
    obtain y j' w' where m: "job_Logs E (job_at (srv_jobs s) r, sup_world (srv_jobs s)) = (y, (j', w'))"
      by (metis prod.exhaust)
    have "js = put_job r j' w' (srv_jobs s)" "x = map_sum id (\<lambda>rd. (r, rd)) y"
      using l Some m
      by (auto simp: sup_Logs_def with_ref_def sm_bind_def on_job_def sm_ret_def split: sum.splits)
    with o job_Logs_lock[OF m] show ?thesis
      by (cases y) (auto simp: srv_reply_def job_at_def)
  qed
qed

text \<open>
  The method \<^verbatim>\<open>Logs\<close> leaves no reader behind: opening the stream adds one reader to
  the job, and whenever and however the loop ends (end of the output, cancelled context,
  read or send error, panic), exactly one reader is taken away again; a call that was
  refused changes nothing that a client can see.
\<close>

lemma Logs_releases_reader:
  assumes "srv_Logs E ctx jid follow obs others s = (res, out, s')" and "res \<noteq> LogsRunning"
    and "srv_Logs_open E ctx jid s = (opened, s1)"
  shows "case opened of
      Ret (Inr (r, rd)) \<Rightarrow>
        outLock (job_at (srv_jobs s1) r) = outLock (job_at (srv_jobs s) r) + 1 \<and>
        logReaders (job_at (srv_jobs s1) r) = logReaders (job_at (srv_jobs s) r) + 1 \<and>
        outLock (job_at (srv_jobs s') r) = outLock (job_at (srv_jobs (others s1)) r) - 1 \<and>
        logReaders (job_at (srv_jobs s') r) = logReaders (job_at (srv_jobs (others s1)) r) - 1
    | Ret (Inl st) \<Rightarrow> res = LogsReturn (Some st) \<and> out = [] \<and> s' = s1 \<and>
        jobs (srv_jobs s1) = jobs (srv_jobs s) \<and> srv_auth s1 = srv_auth s
    | _ \<Rightarrow> False"
proof -
  have open_cases: "(\<exists>st. opened = Ret (Inl st) \<and> jobs (srv_jobs s1) = jobs (srv_jobs s) \<and> srv_auth s1 = srv_auth s) \<or>
      (\<exists>r rd. opened = Ret (Inr (r, rd)) \<and>
        outLock (job_at (srv_jobs s1) r) = outLock (job_at (srv_jobs s) r) + 1 \<and>
        logReaders (job_at (srv_jobs s1) r) = logReaders (job_at (srv_jobs s) r) + 1)"
    using assms(3) Logs_open_cases by blast
  then show ?thesis
  proof (elim disjE exE conjE)
    fix st assume "opened = Ret (Inl st)" "jobs (srv_jobs s1) = jobs (srv_jobs s)" "srv_auth s1 = srv_auth s"
    with assms(1,3) show ?thesis by (simp add: srv_Logs_def)
  next
    fix r rd assume o: "opened = Ret (Inr (r, rd))"
      and n: "outLock (job_at (srv_jobs s1) r) = outLock (job_at (srv_jobs s) r) + 1"
        "logReaders (job_at (srv_jobs s1) r) = logReaders (job_at (srv_jobs s) r) + 1"
    obtain lres lout rd' where l: "logs_loop follow rd obs = (lres, lout, rd')" by (metis prod.exhaust)
    obtain x j' w' where c: "reader_Close E rd' (job_at (srv_jobs (others s1)) r, sup_world (srv_jobs (others s1)))
        = (x, (j', w'))" by (metis prod.exhaust)
    have "lres \<noteq> LogsRunning"
      using assms(1,2,3) o l by (auto simp: srv_Logs_def Let_def)
    then have "srv_jobs s' = put_job r j' w' (srv_jobs (others s1))"
      using assms(1,3) o l c
      by (auto simp: srv_Logs_def Let_def on_job_outcome_def split: outcome.splits)
    then show ?thesis using o n reader_Close_lock[OF c] by (simp add: job_at_def)
  qed
qed

definition demo_obs_end :: "read_obs list" where
  "demo_obs_end = [\<lparr>ob_cancelled = False, ob_content = [], ob_chunk = 1, ob_fault = None, ob_done = True,
     ob_sent = True\<rparr>]"

definition out_srv :: jobServer where
  "out_srv = demo_srv\<lparr>srv_jobs := put_job 0
     ((new_job ''x'' 0 0)\<lparr>job_handler := endedHandler, outFilePath := ''/o''\<rparr>)
     \<lparr>fs = [(''/o'', File [])], trace = []\<rparr> demo_ended\<rparr>"

lemma out_srv_open:
  "fst (srv_Logs_open quiet_env (StoreAuthID [] ''bob'') ''x'' out_srv) = Ret (Inr (0, \<lparr>rd_path = ''/o'', rd_pos = 0\<rparr>))"
  by code_simp

lemma out_srv_ends:
  "fst (srv_Logs quiet_env (StoreAuthID [] ''bob'') ''x'' (Some True) demo_obs_end id out_srv) = LogsReturn None"
  by code_simp

end
