(* ===== verification/Server_Main.thy ===== *)
theory Server_Main
  imports Server_Facts
begin

text \<open>
  The interceptors of \<^verbatim>\<open>src/cmd/server/main.go\<close>, through which every request passes: they take
  the identity of the client from the verified certificate, store it in the context and
  turn a panic of the handler into an internal error.
\<close>

section \<open>The identity of the peer\<close>

text \<open>
  What gRPC knows of the peer: of a verified TLS connection, for each chain and each
  certificate in it the DNS names. A plain interface value of another type makes the
  unchecked type assertion panic.
\<close>

datatype auth_info = TLSInfo "string list list list" | OtherAuth

record grpc_ctx =
  ctx_peer :: "auth_info option"
  ctx_vals :: context_t

definition clientID :: "grpc_ctx \<Rightarrow> (go_error + string) outcome" where
  "clientID ctx =
     (case ctx_peer ctx of
        None \<Rightarrow> Ret (Inl (Errorf ''no client ID''))
      | Some OtherAuth \<Rightarrow> Panic ''interface conversion''
      | Some (TLSInfo vchains) \<Rightarrow>
          if length vchains < 1 \<or> length (vchains ! 0) < 1 \<or> length (vchains ! 0 ! 0) < 1
          then Ret (Inl (Errorf ''no ID provided''))
          else Ret (Inr (vchains ! 0 ! 0 ! 0)))"

section \<open>The interceptors\<close>

definition internal_error :: rpc_status where
  "internal_error = Status Internal (Errorf ''internal error'')"

definition no_dn :: rpc_status where
  "no_dn = Status Unauthenticated (Errorf ''no DN provided'')"

definition interceptor :: "(context_t \<Rightarrow> 'a rpc) \<Rightarrow> grpc_ctx \<Rightarrow> 'a rpc" where
  "interceptor handler ctx s =
     (case (case clientID ctx of
              Ret (Inl e) \<Rightarrow> (Ret (Inl no_dn), s)
            | Ret (Inr cid) \<Rightarrow> handler (StoreAuthID (ctx_vals ctx) cid) s
            | Panic m \<Rightarrow> (Panic m, s)
            | Block \<Rightarrow> (Block, s)) of
        (Panic m, s') \<Rightarrow> (Ret (Inl internal_error), s')
      | r \<Rightarrow> r)"

text \<open>
  The stream interceptor has the same shape over the result of a stream. It hands the handler
  the stream in a wrapper, whose \<^verbatim>\<open>Context\<close> method returns the context with the identity.
\<close>

record wrapper =
  ServerStream :: grpc_ctx
  wr_ctx :: context_t

definition wrapper_Context :: "wrapper \<Rightarrow> context_t" where
  "wrapper_Context w = wr_ctx w"

lemma wrapper_Context_ctx [simp]: "wrapper_Context \<lparr>ServerStream = st, wr_ctx = c\<rparr> = c"
  by (simp add: wrapper_Context_def)

definition streamInterceptor ::
  "(context_t \<Rightarrow> jobServer \<Rightarrow> logs_result \<times> string list \<times> jobServer) \<Rightarrow> grpc_ctx \<Rightarrow>
     jobServer \<Rightarrow> logs_result \<times> string list \<times> jobServer" where
  "streamInterceptor handler ctx s =
     (case (case clientID ctx of
              Ret (Inl e) \<Rightarrow> (LogsReturn (Some no_dn), [], s)
            | Ret (Inr cid) \<Rightarrow>
                handler (wrapper_Context
                  \<lparr>ServerStream = ctx, wr_ctx = StoreAuthID (ctx_vals ctx) cid\<rparr>) s
            | _ \<Rightarrow> (LogsPanic, [], s)) of
        (LogsPanic, out, s') \<Rightarrow> (LogsReturn (Some internal_error), out, s')
      | r \<Rightarrow> r)"

text \<open>The service as it is registered.\<close>

definition serve :: "os_env \<Rightarrow> grpc_ctx \<Rightarrow> request \<Rightarrow> response rpc" where
  "serve E ctx req = interceptor (\<lambda>c. srv_handle E c req) ctx"

definition serve_logs ::
  "os_env \<Rightarrow> grpc_ctx \<Rightarrow> string \<Rightarrow> bool option \<Rightarrow> read_obs list \<Rightarrow> (jobServer \<Rightarrow> jobServer) \<Rightarrow>
     jobServer \<Rightarrow> logs_result \<times> string list \<times> jobServer" where
  "serve_logs E ctx jid follow obs others =
     streamInterceptor (\<lambda>c. srv_Logs E c jid follow obs others) ctx"

section \<open>What they guarantee\<close>

lemma srv_handle_ctx:
  assumes "authID ctx = authID ctx'"
  shows "srv_handle E ctx req s = srv_handle E ctx' req s"
  using assms
  by (cases req)
    (simp_all add: srv_Start_def srv_Stop_def srv_Remove_def srv_Inspect_def srv_Logs_open_def)

text \<open>
  A stream never ends with a panic either: whatever the request and whatever happens
  to the stream, the client gets a status, and a peer without a certificate gets nothing.
\<close>

lemma serve_logs_is_guarded:
  "fst (serve_logs E ctx jid follow obs others s) \<noteq> LogsPanic \<and>
   serve_logs E \<lparr>ctx_peer = None, ctx_vals = v\<rparr> jid follow obs others s = (LogsReturn (Some no_dn), [], s)"
  by (auto simp: serve_logs_def streamInterceptor_def clientID_def
      split: prod.splits outcome.splits sum.splits logs_result.splits)

text \<open>
  C29. No request brings the server down: a panic of a handler (a request without limits, a
  peer without TLS) is answered with an internal error. A request without limits has no
  effect. And what a request does depends on the context only through the first DNS name
  of the verified certificate: a context that already carries some other identity, or
  other values, makes no difference. A stream never ends with a panic either, and a peer
  without a certificate gets nothing, from a stream or from a call.
\<close>

theorem serve_is_guarded:
  "\<not> panics (fst (serve E ctx req s)) \<and>
   serve E \<lparr>ctx_peer = p, ctx_vals = v\<rparr> req s = serve E \<lparr>ctx_peer = p, ctx_vals = v'\<rparr> req s \<and>
   serve E \<lparr>ctx_peer = Some (TLSInfo (((n # ns) # certs) # vchains)), ctx_vals = v\<rparr>
     (ReqStart (q\<lparr>req_Limits := None\<rparr>)) s = (Ret (Inl internal_error), s) \<and>
   fst (serve_logs E ctx jid follow obs others s) \<noteq> LogsPanic \<and>
   serve_logs E \<lparr>ctx_peer = None, ctx_vals = v\<rparr> jid follow obs others s = (LogsReturn (Some no_dn), [], s) \<and>
   serve E \<lparr>ctx_peer = None, ctx_vals = v\<rparr> req s = (Ret (Inl no_dn), s)"
proof (intro conjI)
  show "\<not> panics (fst (serve E ctx req s))"
    by (auto simp: serve_def interceptor_def split: prod.splits outcome.splits)
  have "srv_handle E (StoreAuthID v cid) req t = srv_handle E (StoreAuthID v' cid) req t" for cid t
    by (rule srv_handle_ctx) simp
  then show "serve E \<lparr>ctx_peer = p, ctx_vals = v\<rparr> req s = serve E \<lparr>ctx_peer = p, ctx_vals = v'\<rparr> req s"
    by (simp add: serve_def interceptor_def clientID_def split: option.splits auth_info.splits)
  show "serve E \<lparr>ctx_peer = Some (TLSInfo (((n # ns) # certs) # vchains)), ctx_vals = v\<rparr>
     (ReqStart (q\<lparr>req_Limits := None\<rparr>)) s = (Ret (Inl internal_error), s)"
    by (simp add: serve_def interceptor_def clientID_def srv_Start_def toJobLimits_def resp_def)
  show "serve E \<lparr>ctx_peer = None, ctx_vals = v\<rparr> req s = (Ret (Inl no_dn), s)"
    by (simp add: serve_def interceptor_def clientID_def)
qed (use serve_logs_is_guarded in blast)+

end
