(* ===== verification/Certloader.thy ===== *)
theory Certloader
  imports Prelude
begin

text \<open>
  The loader of the server certificate, \<^verbatim>\<open>src/pkg/certloader/loader.go\<close>. The type \<open>'c\<close> of
  certificates and the result of each \<^verbatim>\<open>tls.LoadX509KeyPair\<close> are parameters. Each method is
  one critical section; the goroutine of a ticker calls \<open>reload\<close> on each tick.
\<close>

section \<open>State and operations\<close>

record 'c loader =
  CertPath :: string
  KeyPath :: string
  Reload :: int
  ld_cert :: "'c option"
  ld_started :: bool
  ld_ticker :: "nat option"
  running_tickers :: "nat list"
  ticker_count :: nat

definition new_loader :: "string \<Rightarrow> string \<Rightarrow> int \<Rightarrow> 'c loader" where
  "new_loader cp kp d =
     \<lparr>CertPath = cp, KeyPath = kp, Reload = d, ld_cert = None, ld_started = False,
      ld_ticker = None, running_tickers = [], ticker_count = 0\<rparr>"

definition load_cert :: "(string \<Rightarrow> string \<Rightarrow> go_error + 'c) \<Rightarrow> 'c loader \<Rightarrow> go_error + 'c" where
  "load_cert pair l = pair (CertPath l) (KeyPath l)"

definition loader_Cert :: "'c loader \<Rightarrow> 'c option" where
  "loader_Cert l = ld_cert l"

text \<open>\<^verbatim>\<open>time.NewTicker\<close> panics for an interval that is not positive.\<close>

definition start_ticker :: "'c loader \<Rightarrow> (go_error + unit) outcome \<times> 'c loader" where
  "start_ticker l =
     (if Reload l \<le> 0 then (Panic ''non-positive interval for NewTicker'', l)
      else let t = ticker_count l in
        (Ret (Inr ()),
         l\<lparr>ld_ticker := Some t, running_tickers := t # running_tickers l, ticker_count := Suc t\<rparr>))"

definition loader_Start ::
  "(string \<Rightarrow> string \<Rightarrow> go_error + 'c) \<Rightarrow> 'c loader \<Rightarrow> (go_error + unit) outcome \<times> 'c loader" where
  "loader_Start pair l =
     (if ld_started l then (Ret (Inl (Errorf ''already started'')), l)
      else let l1 = (if Reload l < 0 then l\<lparr>Reload := 30 * 1000000000\<rparr> else l) in
        case load_cert pair l1 of
          Inl e \<Rightarrow> (Ret (Inl (Wrapf ''failed to start'' e)), l1)
        | Inr c \<Rightarrow> start_ticker (l1\<lparr>ld_cert := Some c\<rparr>))"

definition loader_Stop :: "'c loader \<Rightarrow> 'c loader" where
  "loader_Stop l =
     (if \<not> ld_started l then l
      else l\<lparr>running_tickers := List.filter (\<lambda>t. Some t \<noteq> ld_ticker l) (running_tickers l),
             ld_started := False\<rparr>)"

definition loader_reload ::
  "(string \<Rightarrow> string \<Rightarrow> go_error + 'c) \<Rightarrow> 'c loader \<Rightarrow> (go_error + unit) \<times> 'c loader" where
  "loader_reload pair l =
     (case load_cert pair l of
        Inl e \<Rightarrow> (Inl e, l)
      | Inr c \<Rightarrow> (Inr (), l\<lparr>ld_cert := Some c\<rparr>))"

section \<open>The loader over time\<close>

text \<open>
  What happens to a loader: it is started, stopped, or one of its tickers fires; with the
  result of loading the key pair at that time.
\<close>

datatype 'c load_event =
    LoadStart "go_error + 'c"
  | LoadStop
  | LoadTick nat "go_error + 'c"

fun loader_step :: "'c load_event \<Rightarrow> 'c loader \<Rightarrow> 'c loader" where
  "loader_step (LoadStart r) l = snd (loader_Start (\<lambda>_ _. r) l)"
| "loader_step LoadStop l = loader_Stop l"
| "loader_step (LoadTick t r) l =
     (if t \<in> set (running_tickers l) then snd (loader_reload (\<lambda>_ _. r) l) else l)"

definition loader_run :: "'c load_event list \<Rightarrow> 'c loader \<Rightarrow> 'c loader" where
  "loader_run evs l = fold loader_step evs l"

text \<open>The certificates that were loaded successfully, as far as the loader asked for them.\<close>

fun loaded :: "'c load_event list \<Rightarrow> 'c loader \<Rightarrow> 'c list" where
  "loaded [] l = []"
| "loaded (e # evs) l =
     (case e of
        LoadStart (Inr c) \<Rightarrow> [c]
      | LoadTick t (Inr c) \<Rightarrow> if t \<in> set (running_tickers l) then [c] else []
      | _ \<Rightarrow> []) @ loaded evs (loader_step e l)"

definition last_of :: "'c option \<Rightarrow> 'c list \<Rightarrow> 'c option" where
  "last_of d cs = (if cs = [] then d else Some (last cs))"

lemma last_of_append: "last_of d (xs @ ys) = last_of (last_of d xs) ys"
  by (simp add: last_of_def)

lemma never_started:
  "\<not> ld_started l \<Longrightarrow> \<not> ld_started (loader_step e l)"
  by (cases e)
    (auto simp: loader_Start_def loader_Stop_def loader_reload_def start_ticker_def Let_def
      split: sum.splits)

lemma loader_step_cert:
  assumes "\<not> ld_started l"
  shows "ld_cert (loader_step e l) = last_of (ld_cert l)
    (case e of
        LoadStart (Inr c) \<Rightarrow> [c]
      | LoadTick t (Inr c) \<Rightarrow> if t \<in> set (running_tickers l) then [c] else []
      | _ \<Rightarrow> [])"
  using assms
  by (cases e)
    (auto simp: loader_Start_def loader_Stop_def loader_reload_def start_ticker_def load_cert_def
      last_of_def Let_def split: sum.splits)

lemma loader_run_cert:
  "\<not> ld_started l \<Longrightarrow> ld_cert (loader_run evs l) = last_of (ld_cert l) (loaded evs l)"
proof (induction evs arbitrary: l)
  case (Cons e evs)
  from Cons.IH[OF never_started[OF Cons.prems]] show ?case
    by (simp add: loader_run_def loader_step_cert[OF Cons.prems] last_of_append)
qed (simp add: loader_run_def last_of_def)

text \<open>
  C33. The loader always serves the certificate that was loaded last: a failing reload keeps
  the certificate, and once there is one there is always one, whatever is started,
  stopped and reloaded in whatever order.
\<close>

theorem loader_serves_last_good_cert:
  "loader_Cert (loader_run evs (new_loader cp kp d)) =
     (let cs = loaded evs (new_loader cp kp d) in if cs = [] then None else Some (last cs))"
  using loader_run_cert[of "new_loader cp kp d" evs]
  by (simp add: loader_Cert_def new_loader_def last_of_def Let_def)

lemma started_is_never_set: "\<not> ld_started (loader_run evs (new_loader cp kp d))"
proof -
  have "\<not> ld_started l \<Longrightarrow> \<not> ld_started (loader_run evs l)" for l :: "'a loader"
    by (induction evs arbitrary: l) (simp_all add: loader_run_def never_started)
  then show ?thesis by (simp add: new_loader_def)
qed

text \<open>
  Nothing ever marks the loader as started. So stopping it has no effect, its tickers
  reload for ever, and a further start is not refused but adds another ticker.
\<close>

lemma loader_cannot_be_stopped:
  assumes "l = loader_run evs (new_loader cp kp d)" and "0 < d"
  shows "loader_Stop l = l \<and>
    (\<forall>pair c. load_cert pair l = Inr c \<longrightarrow>
       fst (loader_Start pair l) = Ret (Inr ()) \<and>
       length (running_tickers (snd (loader_Start pair l))) = Suc (length (running_tickers l)))"
proof -
  have n: "\<not> ld_started l" unfolding assms(1) by (rule started_is_never_set)
  have step: "Reload (loader_step e k) = Reload k" if "0 < Reload k" for e and k :: "'a loader"
    using that by (cases e)
      (auto simp: loader_Start_def loader_Stop_def loader_reload_def start_ticker_def Let_def
        split: sum.splits)
  have "0 < Reload k \<Longrightarrow> Reload (loader_run evs k) = Reload k" for k :: "'a loader"
    by (induction evs arbitrary: k) (simp_all add: loader_run_def step)
  then have d: "Reload l = d" using assms by (simp add: new_loader_def)
  show ?thesis
    using n d assms(2)
    by (auto simp: loader_Stop_def loader_Start_def start_ticker_def load_cert_def Let_def)
qed

section \<open>Starting\<close>

lemma loader_Start_panics:
  "panics (fst (loader_Start pair l)) \<longleftrightarrow>
     \<not> ld_started l \<and> Reload l = 0 \<and> (\<exists>c. load_cert pair l = Inr c)"
  by (auto simp: loader_Start_def start_ticker_def load_cert_def Let_def split: sum.splits)

end
