(* ===== verification/Server_Config.thy ===== *)
theory Server_Config
  imports Server_Main Certloader "HOL-Library.Word"
begin

text \<open>
  The configuration of the server (\<^verbatim>\<open>FindConfig\<close> of \<^verbatim>\<open>src/pkg/server/config.go\<close>) and the part
  of \<^verbatim>\<open>main\<close> of \<^verbatim>\<open>src/cmd/server/main.go\<close> that builds the service and the certificate loader
  from it. Reading and decoding the file (viper), the user database (\<^verbatim>\<open>os/user\<close>) and loading
  a key pair are parameters.
\<close>

section \<open>FindConfig\<close>

text \<open>
  \<open>usr\<close> and \<open>grp\<close> look a name up and give the text of its numeric id; \<open>fuid\<close> and \<open>fgid\<close> are
  the values of the flags, if they were given on the command line.
\<close>

definition lookup_id :: "(string \<Rightarrow> string option) \<Rightarrow> string option \<Rightarrow> string \<Rightarrow> string" where
  "lookup_id db flag conf =
     (let name = (case flag of None \<Rightarrow> conf | Some v \<Rightarrow> v) in
      case db name of None \<Rightarrow> name | Some i \<Rightarrow> i)"

definition FindConfig ::
  "(string \<Rightarrow> string option) \<Rightarrow> (string \<Rightarrow> string option) \<Rightarrow> string option \<Rightarrow> string option \<Rightarrow>
     (go_error + unit) \<Rightarrow> (go_error + server_config) \<Rightarrow> go_error + server_config" where
  "FindConfig usr grp fuid fgid readInConfig unmarshal =
     (case readInConfig of
        Inl e \<Rightarrow> Inl e
      | Inr _ \<Rightarrow>
          (case unmarshal of
             Inl e \<Rightarrow> Inl e
           | Inr conf \<Rightarrow> Inr (conf
               \<lparr>tls_ReloadSec := (if tls_ReloadSec conf \<le> 0 then 30 else tls_ReloadSec conf),
                ids_UID := lookup_id usr fuid (ids_UID conf),
                ids_GID := lookup_id grp fgid (ids_GID conf)\<rparr>)))"

section \<open>Building the server\<close>

text \<open>\<^verbatim>\<open>time.Duration(sec) * time.Second\<close>, a signed 64-bit product.\<close>

definition seconds :: "int \<Rightarrow> int" where
  "seconds sec = sint (word_of_int sec * word_of_int time_Second :: 64 word)"

datatype 'c main_result =
    MainExit string
  | MainPanic
  | MainReady jobServer "'c loader"

definition main_build ::
  "(go_error + server_config) \<Rightarrow> (string \<Rightarrow> string \<Rightarrow> go_error + 'c) \<Rightarrow> world \<Rightarrow> 'c main_result" where
  "main_build config pair w =
     (case config of
        Inl e \<Rightarrow> MainExit ''failed to start the server''
      | Inr cfg \<Rightarrow>
          (case srv_New cfg w of
             Inl e \<Rightarrow> MainExit ''failed to start the server''
           | Inr js \<Rightarrow>
               (case loader_Start pair
                   (new_loader (tls_CertPath cfg) (tls_KeyPath cfg) (seconds (tls_ReloadSec cfg))) of
                  (Ret (Inl e), l) \<Rightarrow> MainExit ''failed to start cert loader''
                | (Ret (Inr _), l) \<Rightarrow> MainReady js l
                | _ \<Rightarrow> MainPanic)))"

lemma seconds_small:
  assumes "0 \<le> n" and "n \<le> 9223372036"
  shows "seconds n = n * time_Second"
proof -
  have "seconds n = signed_take_bit 63 (n * time_Second)"
    by (simp add: seconds_def of_int_mult[symmetric] signed_of_int del: of_int_mult)
  also have "\<dots> = n * time_Second"
    by (rule signed_take_bit_int_eq_self) (use assms in \<open>simp_all add: time_Second_def\<close>)
  finally show ?thesis .
qed

text \<open>
  The server is built when its configuration could be read, the user and the group exist and
  the key pair can be loaded.
\<close>

lemma configured_server_builds:
  assumes "usr (case fuid of None \<Rightarrow> ids_UID conf | Some v \<Rightarrow> v) = Some (int_dec uid)"
    and "grp (case fgid of None \<Rightarrow> ids_GID conf | Some v \<Rightarrow> v) = Some (int_dec gid)"
    and "int64 uid" and "int64 gid" and "tls_ReloadSec conf \<le> 9223372036"
    and "pair (tls_CertPath conf) (tls_KeyPath conf) = Inr c"
  shows "\<exists>js l. main_build (FindConfig usr grp fuid fgid (Inr ()) (Inr conf)) pair w = MainReady js l \<and>
    sup_ids (srv_jobs js) = \<lparr>UID = uid, GID = gid\<rparr> \<and> jobs (srv_jobs js) = [] \<and>
    loader_Cert l = Some c \<and> running_tickers l \<noteq> [] \<and>
    Reload l = (if tls_ReloadSec conf \<le> 0 then 30 else tls_ReloadSec conf) * time_Second"
proof -
  let ?n = "if tls_ReloadSec conf \<le> 0 then 30 else tls_ReloadSec conf"
  have s: "seconds ?n = ?n * time_Second" "0 < ?n * time_Second"
    using assms(5) seconds_small[of ?n] by (auto simp: time_Second_def)
  have i: "lookup_id usr fuid (ids_UID conf) = int_dec uid" "lookup_id grp fgid (ids_GID conf) = int_dec gid"
    using assms(1,2) by (simp_all add: lookup_id_def)
  show ?thesis
    using s assms(3,4,6)
    by (auto simp: main_build_def FindConfig_def i srv_New_result atoi_int_dec sup_New_def
        loader_Start_def new_loader_def load_cert_def start_ticker_def loader_Cert_def Let_def)
qed

end
