(* ===== verification/Cgroup_Facts.thy ===== *)
theory Cgroup_Facts
  imports Job_New
begin

text \<open>
  The control group of a job: which errors its set-up reports, that it survives a failed
  creation, and what \<^verbatim>\<open>setupCgroup\<close> writes into the limit files.
\<close>

section \<open>The errors a call may report\<close>

definition sm_fails :: "(go_error \<Rightarrow> bool) \<Rightarrow> ('s, 'a) sm \<Rightarrow> bool" where
  "sm_fails Q m \<longleftrightarrow> (\<forall>s e. fst (m s) = Inl e \<longrightarrow> Q e)"

named_theorems fails "rules for the errors a call may report"

lemma fails_ret [fails]: "sm_fails Q (sm_ret x)"
  by (simp add: sm_fails_def sm_ret_def)

lemma fails_err [fails]: "Q e \<Longrightarrow> sm_fails Q (sm_err e)"
  by (simp add: sm_fails_def sm_err_def)

lemma fails_bind [fails]: "sm_fails Q m \<Longrightarrow> (\<And>x. sm_fails Q (f x)) \<Longrightarrow> sm_fails Q (sm_bind m f)"
  unfolding sm_fails_def sm_bind_def by (auto split: prod.splits sum.splits) (metis fst_conv)+

lemma fails_then [fails]: "sm_fails Q m \<Longrightarrow> sm_fails Q n \<Longrightarrow> sm_fails Q (sm_then m n)"
  by (simp add: sm_then_def fails_bind)

lemma fails_wrap [fails]: "(\<And>e. Q (Wrapf msg e)) \<Longrightarrow> sm_fails Q (sm_wrap msg m)"
  by (auto simp: sm_fails_def sm_wrap_def split: prod.splits sum.splits)

lemma fails_try [fails]: "sm_fails Q (sm_try m)"
  by (simp add: sm_fails_def sm_try_def)

lemma fails_onerr [fails]: "sm_fails Q m \<Longrightarrow> sm_fails Q (sm_onerr m h)"
  unfolding sm_fails_def sm_onerr_def by (auto split: prod.splits sum.splits) (metis fst_conv)+

lemma fails_mapM [fails]: "(\<And>x. sm_fails Q (f x)) \<Longrightarrow> sm_fails Q (sm_mapM f xs)"
  by (induction xs) (auto intro: fails)

lemma fails_if [fails]: "sm_fails Q m \<Longrightarrow> sm_fails Q n \<Longrightarrow> sm_fails Q (if b then m else n)"
  by simp

lemma fails_on_world [fails]: "sm_fails Q m \<Longrightarrow> sm_fails Q (on_world m)"
  by (auto simp: sm_fails_def on_world_def split: prod.splits) (metis fst_conv)

lemma fails_with_job [fails]: "(\<And>j. sm_fails Q (f j)) \<Longrightarrow> sm_fails Q (with_job f)"
  by (simp add: sm_fails_def with_job_def)

lemma fails_set_job [fails]: "sm_fails Q (set_job f)"
  by (simp add: sm_fails_def set_job_def)

fun quoted :: "go_error \<Rightarrow> bool" where
  "quoted (ErrorfQ m t) \<longleftrightarrow> True"
| "quoted _ \<longleftrightarrow> False"

lemma inner_cgroup_fails: "sm_fails (\<lambda>e. \<not> quoted e) (inner_cgroup E)"
  unfolding inner_cgroup_def io_limit_def ram_limit_def cpu_limit_def Let_def
  by (intro fails) simp_all

lemma outer_cgroup_fails: "sm_fails (\<lambda>e. \<not> quoted e) (outer_cgroup E)"
proof -
  have 1: "sm_fails (\<lambda>e. \<not> quoted e) (\<lambda>s. case findCgroupMount E (snd s) of (r, w) \<Rightarrow> (Inr r, (fst s, w)))"
    by (auto simp: sm_fails_def split: prod.splits)
  show ?thesis unfolding outer_cgroup_def Let_def case_prod_beta
    by (intro fails 1[unfolded case_prod_beta]) simp_all
qed

lemma setupCgroup_fails: "sm_fails (\<lambda>e. \<not> quoted e) (setupCgroup E)"
  unfolding setupCgroup_def by (intro fails outer_cgroup_fails inner_cgroup_fails)

lemma os_do_fails: "sm_fails (\<lambda>e. \<not> quoted e) (os_do E c)"
  using os_do_error by (fastforce simp: sm_fails_def)

section \<open>The group survives a failed start\<close>

lemma inner_cgroup_path:
  assumes "inner_cgroup E (j, w) = (r, (j', w'))"
  shows "j' = j\<lparr>cgroupInner := path_Join [cgroupOuter j, ''inner'']\<rparr>"
  using assms
  by (auto simp: inner_cgroup_def sm_then_def[of "set_job _"] sm_bind_def set_job_def with_job_def
      on_world_def split: prod.splits)

lemma outer_cgroup_path:
  assumes "outer_cgroup E (j, w) = (Inr b, (j', w'))" and "cgroupOuter j = []"
    and "\<And>tr. cgroup2_mount (fst (scan_lines (os_read E tr (SReadProc ''/proc/mounts'')))) = Some m"
  shows "j' = j\<lparr>cgroupOuter := path_Join [m, cgroupName (ID j)]\<rparr> \<and> b"
proof -
  have m: "p = m" if "findCgroupMount E w = ((True, p), w1)" for w w1 p
    using that assms(3) 
    by (auto simp: findCgroupMount_def os_call_def Let_def split: prod.splits sum.splits option.splits)
  obtain ok p w1 where f: "findCgroupMount E w = ((ok, p), w1)" by (metis prod.exhaust)
  obtain r w2 where d: "os_do E (SMkdirAll (path_Join [p, cgroupName (ID j)])) w1 = (r, w2)"
    by (metis prod.exhaust)
  have eq: "outer_cgroup E (j, w) =
      (if \<not> ok then (Inl (Errorf ''cgroup2 controller is not mounted''), (j, w1))
       else case r of Inl e \<Rightarrow> (Inl (Wrapf ''failed to create cgroup'' e), (j, w2))
            | Inr _ \<Rightarrow> (Inr True, (j\<lparr>cgroupOuter := path_Join [p, cgroupName (ID j)]\<rparr>, w2)))"
    by (simp add: outer_cgroup_def with_job_def sm_bind_def assms(2) f Let_def sm_err_def
        sm_then_def sm_wrap_def on_world_def d set_job_def sm_ret_def split: sum.split)
  from eq assms(1) have ok and r: "r = Inr ()"
    and "j' = j\<lparr>cgroupOuter := path_Join [p, cgroupName (ID j)]\<rparr>" "b"
    by (auto split: if_splits sum.splits)
  with m[of w p w1] f show ?thesis by simp
qed

lemma setupCgroup_path:
  assumes "setupCgroup E (j, w) = (Inr (), (j', w'))" and "cgroupOuter j = []"
    and "\<And>tr. cgroup2_mount (fst (scan_lines (os_read E tr (SReadProc ''/proc/mounts'')))) = Some m"
  shows "cgroupInner j' = path_Join [path_Join [m, cgroupName (ID j)], ''inner'']"
proof -
  obtain b j1 w1 where o: "outer_cgroup E (j, w) = (Inr b, (j1, w1))"
    and i: "inner_cgroup E (j1, w1) = (Inr (), (j', w'))"
    using assms(1)
    by (auto simp: setupCgroup_def sm_bind_def sm_onerr_def split: prod.splits sum.splits if_splits)
  show ?thesis
    using outer_cgroup_path[OF o assms(2,3)] inner_cgroup_path[OF i] by simp
qed

lemma spawn_keeps_dir: "sm_pres (\<lambda>s. is_dir q (snd s)) (spawn (defSysFun E) E)"
  unfolding spawn_def Let_def defSysFun_calls
  by (intro pres; simp add: pres_is_dir)

lemma setupCgroup_jobDir:
  "ProcessState (job_cmd j) = None \<Longrightarrow> jobDir (fst (snd (setupCgroup E (j, w)))) = jobDir j"
  using sm_presD[OF setupCgroup_set_up, of j "(j, w)" E] by (simp add: set_up_def)

lemma launch_quoted:
  assumes "launch E (j, w) = (Inl e, (j', w'))" and "quoted e" and "cgroupOuter j = []"
    and "\<And>tr. cgroup2_mount (fst (scan_lines (os_read E tr (SReadProc ''/proc/mounts'')))) = Some m"
  shows "is_dir (path_Join [path_Join [m, cgroupName (ID j)], ''inner'']) w'"
proof -
  let ?p = "path_Join [path_Join [m, cgroupName (ID j)], ''inner'']"
  obtain r j1 w1 where s: "setupCgroup E (j, w) = (r, (j1, w1))" by (metis prod.exhaust)
  have "r = Inr ()"
    using setupCgroup_fails[of E] s assms(1,2)
    by (cases r) (auto simp: sm_fails_def launch_def sm_then_def sm_bind_def, metis fst_conv)
  with s setupCgroup_dir[of E j w j1 w1] setupCgroup_path[of E j w j1 w1, OF _ assms(3,4)]
  have dir: "is_dir ?p w1" by simp
  let ?rest = "sm_then (on_world (os_do E SPipe))
     (sm_finally (spawn (defSysFun E) E) (sm_try (on_world (os_do E (SClose pipe_r)))))"
  have eq: "launch E (j, w) = ?rest (j1, w1)"
    by (simp add: launch_def sm_then_def[of "setupCgroup E"] sm_bind_def s \<open>r = Inr ()\<close>)
  have "sm_pres (\<lambda>s. is_dir ?p (snd s)) ?rest"
    using spawn_keeps_dir by (auto intro!: pres simp: pres_is_dir)
  then have "is_dir ?p (snd (snd (?rest (j1, w1))))" by (rule sm_presD) (simp add: dir)
  moreover have "snd (?rest (j1, w1)) = (j', w')" unfolding eq[symmetric] assms(1) by simp
  ultimately show ?thesis by simp
qed

lemma guarded_start_quoted:
  assumes "guarded_start E (j, w) = (Inl e, (j', w'))" and "quoted e" and "cgroupOuter j = []"
    and "ProcessState (job_cmd j) = None"
    and "\<And>tr. cgroup2_mount (fst (scan_lines (os_read E tr (SReadProc ''/proc/mounts'')))) = Some m"
    and "\<not> under (jobDir j) (path_Join [path_Join [m, cgroupName (ID j)], ''inner''])"
  shows "is_dir (path_Join [path_Join [m, cgroupName (ID j)], ''inner'']) w'"
proof -
  let ?p = "path_Join [path_Join [m, cgroupName (ID j)], ''inner'']"
  obtain r w1 where c: "os_do E (SCreate (outFilePath j)) w = (r, w1)" by (metis prod.exhaust)
  have r: "r = Inr ()"
    using assms(1,2) c os_do_error[of E "SCreate (outFilePath j)" w]
    by (cases r) (auto simp: guarded_start_def with_job_def sm_then_def sm_bind_def sm_onerr_def
        on_world_def)
  obtain r2 j2 w2 where l: "launch E (j, w1) = (r2, (j2, w2))" by (metis prod.exhaust)
  let ?undo = "sm_then (sm_try (on_world (os_do E (SClose (outFilePath j))))) (sm_try (rmJobDirs E))"
  have eq: "guarded_start E (j, w) = sm_onerr (launch E) ?undo (j, w1)"
    using c r by (simp add: guarded_start_def with_job_def sm_then_def[of "sm_onerr _ _"]
        sm_bind_def sm_onerr_def[of "on_world _"] on_world_def)
  have "r2 = Inl e" and fin: "(j', w') = snd (?undo (j2, w2))"
    using assms(1) unfolding eq sm_onerr_def l by (auto split: sum.splits)
  have "jobDir j2 = jobDir j"
    using sm_presD[OF launch_set_up[OF assms(4), of E], of "(j, w1)"] l by (simp add: set_up_def)
  then have w': "w' = snd (os_call E (SRemoveAll (jobDir j)) (snd (os_call E (SClose (outFilePath j)) w2)))"
    using fin by (simp add: snd_try_then snd_rmJobDirs on_world_def case_prod_beta)
  have "is_dir ?p w2"
    using launch_quoted[of E j w1 e j2 w2, OF _ assms(2,3,5)] l \<open>r2 = Inl e\<close> by simp
  then show ?thesis
    unfolding w' using assms(6) by (simp add: sm_presD[OF pres_is_dir])
qed

text \<open>
  C40. When the shim reports that it could not be started, the directories of the job are
  removed but its control group is not: the inner group is still a directory. (The deferred
  clean-up of \<^verbatim>\<open>New\<close> tests a variable that nothing assigns.)
\<close>

theorem failed_creation_leaks_cgroup:
  assumes "createJob E cmd args lim i w = (Inl (ErrorfQ msg txt), w')"
    and "\<forall>tr. cgroup2_mount (fst (scan_lines (os_read E tr (SReadProc ''/proc/mounts'')))) = Some m"
    and "p = path_Join [path_Join [m, cgroupName (os_xid E (trace w))], ''inner'']"
    and "\<not> under (path_Join [defaultBasePath, os_xid E (trace w)]) p"
  shows "map_of (fs w') p = Some Dir"
  using assms(1)
proof (cases rule: createJob_cases)
  case (start_error e j2 w2 s)
  note j2 = initJobDirs_result[OF start_error(1), simplified]
  let ?j = "j2\<lparr>job_handler := activeHandler\<rparr>"
  have j: "ID ?j = os_xid E (trace w)" "jobDir ?j = path_Join [defaultBasePath, os_xid E (trace w)]"
    "cgroupOuter ?j = []" "ProcessState (job_cmd ?j) = None"
    by (simp_all add: j2 created_def new_job_def no_cmd_def job_dir_of_def)
  have "is_dir p (snd s)"
    using guarded_start_quoted[of E ?j w2 e "fst s" "snd s" m] start_error assms(2-4) j by auto
  then show ?thesis using start_error by (simp add: is_dir_def)
qed simp_all

theorem failed_creation_leaks_cgroup_witness:
  "\<exists>w. createJob (mounts_env [] ''boom'') ''ls'' [] no_limits root_ids empty_world
       = (Inl (ErrorfQ ''failed to start the process: '' ''boom''), w) \<and>
     map_of (fs w) ''/cg/job-x/inner'' = Some Dir"
proof -
  let ?E = "mounts_env [] ''boom''"
  obtain w where w: "createJob ?E ''ls'' [] no_limits root_ids empty_world
       = (Inl (ErrorfQ ''failed to start the process: '' ''boom''), w)"
    using demo_failed by (metis prod.collapse)
  have m: "\<forall>tr. cgroup2_mount (fst (scan_lines (os_read ?E tr (SReadProc ''/proc/mounts'')))) = Some ''/cg''"
    by (simp add: mounts_env_def) code_simp
  have p: "''/cg/job-x/inner'' = path_Join [path_Join [''/cg'', cgroupName (os_xid ?E (trace empty_world))], ''inner'']"
    by code_simp
  have u: "\<not> under (path_Join [defaultBasePath, os_xid ?E (trace empty_world)]) ''/cg/job-x/inner''"
    by code_simp
  from failed_creation_leaks_cgroup[OF w m p u] w show ?thesis by blast
qed

section \<open>The limits are written\<close>

text \<open>A line was written to a control file, by an append or over the start of a new file.\<close>

definition wrote :: "string \<Rightarrow> string \<Rightarrow> world \<Rightarrow> bool" where
  "wrote f txt w \<longleftrightarrow>
     SAppend f (txt @ [newline]) \<in> set (trace w) \<or> SOverwrite f (txt @ [newline]) \<in> set (trace w)"

lemma pres_wrote [pres]: "sm_pres (wrote f txt) (os_call E c)"
  by (auto simp: sm_pres_def wrote_def)

lemma pres_wrote_echo [pres]: "sm_pres (wrote f txt) (echo E t g)"
  by (intro pres)

lemma echo_wrote: "echo E txt f w = (Inr u, w') \<Longrightarrow> wrote f txt w'"
  by (auto simp: echo_def Let_def sm_finally_def sm_wrap_def sm_try_def wrote_def
      split: prod.splits sum.splits dest!: arg_cong[of "os_do _ _ _" _ snd])

lemma wrap_Inr [simp]: "sm_wrap m f w = (Inr u, w') \<longleftrightarrow> f w = (Inr u, w')"
  by (auto simp: sm_wrap_def split: prod.splits sum.splits)

lemma then_Inr: "sm_then m n w = (Inr u, w') \<longleftrightarrow> (\<exists>v w1. m w = (Inr v, w1) \<and> n w1 = (Inr u, w'))"
  by (auto simp: sm_then_def sm_bind_def split: prod.splits sum.splits)

lemma mapM_wrote:
  assumes "sm_mapM (\<lambda>b. sm_wrap m (echo E (g b) f)) bs w = (Inr u, w')" and "b \<in> set bs"
  shows "wrote f (g b) w'"
  using assms
proof (induction bs arbitrary: w)
  case (Cons c bs)
  let ?rest = "sm_mapM (\<lambda>b. sm_wrap m (echo E (g b) f)) bs"
  from Cons.prems(1) obtain w1 where h: "echo E (g c) f w = (Inr (), w1)" and r: "?rest w1 = (Inr u, w')"
    by (auto simp: then_Inr)
  have "sm_pres (wrote f (g c)) ?rest" by (intro pres)
  from sm_presD[OF this echo_wrote[OF h]] r have "wrote f (g c) w'" by simp
  with Cons.IH[OF r] Cons.prems(2) show ?case by auto
qed simp

lemma limit_calls_keep_wrote [pres]:
  "sm_pres (wrote f txt) (ram_limit E j)" "sm_pres (wrote f txt) (cpu_limit E j)"
  unfolding ram_limit_def cpu_limit_def by (intro pres)+

definition limits_on_disk :: "exec_limits \<Rightarrow> string \<Rightarrow> string list \<Rightarrow> world \<Rightarrow> bool" where
  "limits_on_disk lim dir disks w \<longleftrightarrow>
     (0 < MaxDiskIOBytes lim \<longrightarrow>
        (\<forall>b \<in> set disks. wrote (path_Join [dir, ''io.max''])
           (b @ '' rbps='' @ int_dec (MaxDiskIOBytes lim) @ '' wbps='' @ int_dec (MaxDiskIOBytes lim)) w)) \<and>
     (0 < MaxRAMBytes lim \<longrightarrow>
        wrote (path_Join [dir, ''memory.max'']) (int_dec (MaxRAMBytes lim)) w) \<and>
     (f32_pos (CPU lim) \<longrightarrow> wrote (path_Join [dir, ''cpu.max'']) (cpu_text (CPU lim)) w)"

lemma io_limit_wrote:
  assumes "io_limit E j w = (Inr (), w1)" and "0 < MaxDiskIOBytes (limits j)"
    and "\<And>tr. parse_lsblk (os_read E tr SLsblk) = Inr disks" and "b \<in> set disks"
  shows "wrote (path_Join [cgroupInner j, ''io.max''])
    (b @ '' rbps='' @ int_dec (MaxDiskIOBytes (limits j)) @ '' wbps='' @ int_dec (MaxDiskIOBytes (limits j))) w1"
proof -
  have l: "bs = disks" if "listBlockDevs E w = (Inr bs, w')" for bs w'
    using that assms(3) by (auto simp: listBlockDevs_def sm_bind_def sm_wrap_def os_call_def Let_def
        split: prod.splits sum.splits option.splits)
  obtain w0 where "sm_mapM (\<lambda>b. sm_wrap ''failed to configure IO limits''
      (echo E (b @ '' rbps='' @ int_dec (MaxDiskIOBytes (limits j)) @ '' wbps='' @ int_dec (MaxDiskIOBytes (limits j)))
         (path_Join [cgroupInner j, ''io.max'']))) disks w0 = (Inr (), w1)"
    using assms(1,2) l
    by (auto simp: io_limit_def itoa_def Let_def sm_bind_def[of "sm_wrap _ (listBlockDevs E)"]
        split: prod.splits sum.splits)
  from mapM_wrote[OF this assms(4)] show ?thesis .
qed

lemma inner_cgroup_limits:
  assumes "inner_cgroup E (j, w) = (Inr (), (j', w'))"
    and "\<And>tr. parse_lsblk (os_read E tr SLsblk) = Inr disks"
  shows "limits_on_disk (limits j) (cgroupInner j') disks w'"
proof -
  let ?j = "j\<lparr>cgroupInner := path_Join [cgroupOuter j, ''inner'']\<rparr>"
  have j': "j' = ?j" by (rule inner_cgroup_path[OF assms(1)])
  obtain w1 w2 w3 where io: "io_limit E ?j w1 = (Inr (), w2)" and ram: "ram_limit E ?j w2 = (Inr (), w3)"
    and cpu: "cpu_limit E ?j w3 = (Inr (), w')"
    using assms(1)
    by (auto simp: inner_cgroup_def then_Inr set_job_def with_job_def on_world_def split: prod.splits)
  have later: "wrote f t w'" if "wrote f t w2" for f t
    using sm_presD[OF limit_calls_keep_wrote(2) sm_presD[OF limit_calls_keep_wrote(1) that], of E ?j E ?j]
      ram cpu by simp
  have ram': "wrote (path_Join [cgroupInner ?j, ''memory.max'']) (int_dec (MaxRAMBytes (limits j))) w'"
    if "0 < MaxRAMBytes (limits j)"
    using sm_presD[OF limit_calls_keep_wrote(2), of _ _ w3 E ?j] cpu echo_wrote ram that
    by (auto simp: ram_limit_def itoa_def)
  have cpu': "wrote (path_Join [cgroupInner ?j, ''cpu.max'']) (cpu_text (CPU (limits j))) w'"
    if "f32_pos (CPU (limits j))"
    using echo_wrote cpu that by (auto simp: cpu_limit_def)
  show ?thesis
    using io_limit_wrote[OF io _ assms(2)] later ram' cpu' by (simp add: limits_on_disk_def j')
qed


lemma not_isl_unit:
  fixes x :: "('a + unit) \<times> ('b \<times> 'c)"
  shows "\<not> isl (fst x) \<Longrightarrow> \<exists>a b. x = (Inr (), (a, b))"
  by (cases x; cases "fst x") auto

definition lsblk_env :: os_env where
  "lsblk_env = (mounts_env [] [])\<lparr>os_read := (\<lambda>_ c. case c of
     SReadProc _ \<Rightarrow> ''cgroup2 /cg cgroup2 rw'' | SLsblk \<Rightarrow> ''sda 8:0 0 100G 0 disk'' | _ \<Rightarrow> [])\<rparr>"

definition limited_job :: job where
  "limited_job = (new_job ''x'' 0 0)\<lparr>limits := \<lparr>CPU = F32 1 0, MaxRAMBytes = 4096, MaxDiskIOBytes = 1000\<rparr>\<rparr>"

lemma lsblk_setup: "\<not> isl (fst (setupCgroup lsblk_env (limited_job, empty_world)))"
  by code_simp


end
