(* ===== verification/Go_Flag.thy ===== *)
theory Go_Flag
  imports Go_Strings
begin

text \<open>
  The command line parser of the package \<^verbatim>\<open>flag\<close>, as far as \<^verbatim>\<open>src/cmd/server/main.go\<close>
  uses it: string flags and \<^verbatim>\<open>int\<close> flags, and \<^verbatim>\<open>strconv.ParseInt\<close> with base 0, which reads the
  value of an \<^verbatim>\<open>int\<close> flag.
\<close>

section \<open>Integers with a base prefix\<close>

definition lower_char :: "char \<Rightarrow> char" where
  "lower_char c = (let n = of_char c :: nat in if 65 \<le> n \<and> n \<le> 90 then char_of (n + 32) else c)"

definition alnum_val :: "char \<Rightarrow> nat option" where
  "alnum_val c =
     (case digit_val c of
        Some d \<Rightarrow> Some d
      | None \<Rightarrow> let n = of_char (lower_char c) :: nat in
          if 97 \<le> n \<and> n \<le> 122 then Some (n - 97 + 10) else None)"

text \<open>The digits in base \<open>b\<close>; underscores are skipped.\<close>

fun base_val :: "nat \<Rightarrow> nat \<Rightarrow> string \<Rightarrow> nat option" where
  "base_val b acc [] = Some acc"
| "base_val b acc (c # cs) =
     (if c = CHR ''_'' then base_val b acc cs
      else case alnum_val c of
          None \<Rightarrow> None
        | Some d \<Rightarrow> if d < b then base_val b (b * acc + d) cs else None)"

definition split_base :: "string \<Rightarrow> nat \<times> string" where
  "split_base s =
     (if s \<noteq> [] \<and> hd s = CHR ''0'' then
        (if 3 \<le> length s \<and> lower_char (s ! 1) = CHR ''b'' then (2, drop 2 s)
         else if 3 \<le> length s \<and> lower_char (s ! 1) = CHR ''o'' then (8, drop 2 s)
         else if 3 \<le> length s \<and> lower_char (s ! 1) = CHR ''x'' then (16, drop 2 s)
         else (8, drop 1 s))
      else (10, s))"

text \<open>
  \<^verbatim>\<open>underscoreOK\<close>: an underscore follows a digit or the base prefix and precedes a digit.
  The state is the kind of the last character: beginning or other, digit, underscore.
\<close>

datatype last_char = LastOther | LastDigit | LastUnderscore

fun underscores_ok :: "bool \<Rightarrow> last_char \<Rightarrow> string \<Rightarrow> bool" where
  "underscores_ok hex l [] \<longleftrightarrow> l \<noteq> LastUnderscore"
| "underscores_ok hex l (c # cs) \<longleftrightarrow>
     (if digit_val c \<noteq> None \<or> (hex \<and> (case alnum_val c of None \<Rightarrow> False | Some d \<Rightarrow> d < 16))
      then underscores_ok hex LastDigit cs
      else if c = CHR ''_'' then l = LastDigit \<and> underscores_ok hex LastUnderscore cs
      else l \<noteq> LastUnderscore \<and> underscores_ok hex LastOther cs)"

definition underscoreOK :: "string \<Rightarrow> bool" where
  "underscoreOK s =
     (if 2 \<le> length s \<and> hd s = CHR ''0'' \<and> lower_char (s ! 1) \<in> set ''box''
      then underscores_ok (lower_char (s ! 1) = CHR ''x'') LastDigit (drop 2 s)
      else underscores_ok False LastOther s)"

definition parse_uint0 :: "string \<Rightarrow> nat option" where
  "parse_uint0 s =
     (if s = [] then None
      else case split_base s of (b, ds) \<Rightarrow>
        (case base_val b 0 ds of
           None \<Rightarrow> None
         | Some n \<Rightarrow> if CHR ''_'' \<in> set ds \<and> \<not> underscoreOK s then None else Some n))"

definition parse_int0 :: "string \<Rightarrow> int option" where
  "parse_int0 s =
     (let neg = (s \<noteq> [] \<and> hd s = CHR ''-'');
          body = (if s \<noteq> [] \<and> hd s \<in> set ''+-'' then tl s else s)
      in case parse_uint0 body of None \<Rightarrow> None | Some n \<Rightarrow> signed neg n)"

section \<open>Reading back a decimal text\<close>

lemma alnum_digit [simp]: "d < 10 \<Longrightarrow> alnum_val (digit_char d) = Some d"
  by (simp add: alnum_val_def)

lemma digit_char_neq:
  assumes "d < 10"
  shows "digit_char d \<noteq> CHR ''_''" and "digit_char d = CHR ''0'' \<longleftrightarrow> d = 0"
proof -
  have "digit_val CHR ''_'' = None" by (simp add: digit_val_def)
  then show "digit_char d \<noteq> CHR ''_''" using digit_val_char[OF assms] by auto
  have "digit_val CHR ''0'' = Some 0" by (simp add: digit_val_def)
  then show "digit_char d = CHR ''0'' \<longleftrightarrow> d = 0"
    using digit_val_char[OF assms] by (auto simp: digit_char_eval)
qed

lemma base_val_append:
  "base_val b acc (xs @ ys) = (case base_val b acc xs of None \<Rightarrow> None | Some a \<Rightarrow> base_val b a ys)"
  by (induction b acc xs rule: base_val.induct) (auto split: option.splits)

lemma nat_dec_digits: "set (nat_dec n) \<subseteq> digit_char ` {..<10}"
proof (induction n rule: nat_dec.induct)
  case (1 n)
  then show ?case by (cases "n < 10") (auto simp: nat_dec.simps[of n])
qed

lemma base_val_nat_dec: "base_val 10 0 (nat_dec n) = Some n"
proof (induction n rule: nat_dec.induct)
  case (1 n)
  show ?case
  proof (cases "n < 10")
    case True
    then show ?thesis by (simp add: nat_dec.simps[of n] digit_char_neq)
  next
    case False
    with 1 show ?thesis by (simp add: nat_dec.simps[of n] base_val_append digit_char_neq)
  qed
qed

lemma hd_nat_dec_pos: "0 < n \<Longrightarrow> hd (nat_dec n) \<noteq> CHR ''0''"
proof (induction n rule: nat_dec.induct)
  case (1 n)
  then show ?case
    by (cases "n < 10") (auto simp: nat_dec.simps[of n] hd_append digit_char_neq)
qed

lemma parse_uint0_nat_dec: "parse_uint0 (nat_dec n) = Some n"
proof (cases "n = 0")
  case True
  then show ?thesis by (simp add: parse_uint0_def nat_dec_eval digit_char_eval split_base_def)
next
  case False
  have "CHR ''_'' \<notin> set (nat_dec n)"
    using nat_dec_digits[of n] digit_char_neq(1) by fastforce
  with False hd_nat_dec_pos[of n] show ?thesis
    by (simp add: parse_uint0_def split_base_def base_val_nat_dec)
qed

lemma parse_int0_int_dec:
  assumes "int64 i"
  shows "parse_int0 (int_dec i) = Some i"
proof -
  have "hd (nat_dec n) \<notin> set ''+-''" for n
    using hd_nat_dec[of n] digit_char_not_sign by (metis empty_iff empty_set insert_iff list.simps(15))
  then show ?thesis
    using assms by (simp add: parse_int0_def int_dec_def parse_uint0_nat_dec signed_def)
qed

section \<open>The parser\<close>

text \<open>
  One argument: \<open>StopArgs\<close> when parsing ends with it (the Boolean says whether the argument
  is the terminator, which is consumed), \<open>BadArg\<close> for a syntax error, otherwise the name
  and the value if the argument has one.
\<close>

datatype arg_kind = StopArgs bool | BadArg | FlagArg string "string option"

definition split_value :: "string \<Rightarrow> string \<times> string option" where
  "split_value s =
     (let name = takeWhile (\<lambda>c. c \<noteq> CHR ''='') s in
      (name, if length name < length s then Some (drop (Suc (length name)) s) else None))"

definition classify :: "string \<Rightarrow> arg_kind" where
  "classify s =
     (if length s < 2 \<or> hd s \<noteq> CHR ''-'' then StopArgs False
      else if s = ''--'' then StopArgs True
      else let name = (if s ! 1 = CHR ''-'' then drop 2 s else drop 1 s) in
        if name = [] \<or> hd name \<in> set ''-='' then BadArg
        else case split_value name of (n, v) \<Rightarrow> FlagArg n v)"

text \<open>
  \<^verbatim>\<open>(*FlagSet).Parse\<close>: \<open>put n v fs\<close> sets the flag \<open>n\<close> and is \<open>None\<close> for an unknown name or a bad
  value; with \<^verbatim>\<open>flag.ExitOnError\<close> an error ends the process.
\<close>

fun parse_flags ::
  "(string \<Rightarrow> string \<Rightarrow> 'f \<Rightarrow> 'f option) \<Rightarrow> string list \<Rightarrow> 'f \<Rightarrow> ('f \<times> string list) option" where
  "parse_flags put [] fs = Some (fs, [])"
| "parse_flags put (a # as) fs =
     (case classify a of
        StopArgs True \<Rightarrow> Some (fs, as)
      | StopArgs False \<Rightarrow> Some (fs, a # as)
      | BadArg \<Rightarrow> None
      | FlagArg n (Some v) \<Rightarrow>
          (case put n v fs of None \<Rightarrow> None | Some fs' \<Rightarrow> parse_flags put as fs')
      | FlagArg n None \<Rightarrow>
          (case as of
             [] \<Rightarrow> None
           | v # as' \<Rightarrow> (case put n v fs of None \<Rightarrow> None | Some fs' \<Rightarrow> parse_flags put as' fs')))"

text \<open>An argument of the form \<^verbatim>\<open>--name=value\<close> is that flag, whatever the value is.\<close>

lemma classify_flag:
  assumes "n \<noteq> []" and "CHR ''='' \<notin> set n" and "hd n \<noteq> CHR ''-''"
  shows "classify (''--'' @ n @ ''='' @ v) = FlagArg n (Some v)"
proof -
  have t: "takeWhile (\<lambda>c. c \<noteq> CHR ''='') (n @ ''='' @ v) = n"
    using assms(2) by (subst takeWhile_append2) auto
  have "hd n \<noteq> CHR ''=''" using assms(1,2) by (metis hd_in_set)
  with assms(1,3) t show ?thesis by (simp add: classify_def split_value_def Let_def)
qed

end
