(* ===== verification/Shim.thy ===== *)
theory Shim
  imports Cgroup_Facts Go_Flag
begin

text \<open>
  The shim: the process that \<^verbatim>\<open>New\<close> starts in the new namespaces, which prepares itself and
  then runs the command of the job. The server binary calls it for \<^verbatim>\<open>--mode=shim\<close>
  (\<^verbatim>\<open>src/cmd/server/main.go\<close>, flags and \<^verbatim>\<open>main\<close>; \<^verbatim>\<open>src/pkg/server/shim/shim.go\<close>).
\<close>

section \<open>The flags of the binary\<close>

record server_flags =
  fl_address :: string
  fl_config :: string
  fl_mode :: string
  fl_cmd :: string
  fl_cgroup :: string
  fl_uid :: int
  fl_gid :: int
  fl_pidfile :: string

definition default_flags :: server_flags where
  "default_flags = \<lparr>fl_address = ''localhost'', fl_config = ''jobserver.yaml'', fl_mode = [],
     fl_cmd = [], fl_cgroup = [], fl_uid = 0, fl_gid = 0, fl_pidfile = []\<rparr>"

definition set_flag :: "string \<Rightarrow> string \<Rightarrow> server_flags \<Rightarrow> server_flags option" where
  "set_flag n v f =
     (if n = ''address'' then Some (f\<lparr>fl_address := v\<rparr>)
      else if n = ''config'' then Some (f\<lparr>fl_config := v\<rparr>)
      else if n = ''mode'' then Some (f\<lparr>fl_mode := v\<rparr>)
      else if n = ''cmd'' then Some (f\<lparr>fl_cmd := v\<rparr>)
      else if n = ''cgroup'' then Some (f\<lparr>fl_cgroup := v\<rparr>)
      else if n = ''uid'' then map_option (\<lambda>i. f\<lparr>fl_uid := i\<rparr>) (parse_int0 v)
      else if n = ''gid'' then map_option (\<lambda>i. f\<lparr>fl_gid := i\<rparr>) (parse_int0 v)
      else if n = ''pid'' then Some (f\<lparr>fl_pidfile := v\<rparr>)
      else None)"

text \<open>What \<^verbatim>\<open>main\<close> does with its arguments (without the program name).\<close>

datatype main_mode =
    NotRoot
  | BadFlags
  | RunShim string "string list" string int int
  | RunServer server_flags

definition main_start :: "int \<Rightarrow> string list \<Rightarrow> main_mode" where
  "main_start ruid args =
     (if ruid \<noteq> 0 then NotRoot
      else case parse_flags set_flag args default_flags of
        None \<Rightarrow> BadFlags
      | Some (f, rest) \<Rightarrow>
          if fl_mode f = ''shim'' then RunShim (fl_cmd f) rest (fl_cgroup f) (fl_uid f) (fl_gid f)
          else RunServer f)"

lemma classify_args:
  "classify (''--mode='' @ v) = FlagArg ''mode'' (Some v)"
  "classify (''--cmd='' @ v) = FlagArg ''cmd'' (Some v)"
  "classify (''--cgroup='' @ v) = FlagArg ''cgroup'' (Some v)"
  "classify (''--uid='' @ v) = FlagArg ''uid'' (Some v)"
  "classify (''--gid='' @ v) = FlagArg ''gid'' (Some v)"
  "classify ''--'' = StopArgs True"
  using classify_flag[of "''mode''" v] classify_flag[of "''cmd''" v] classify_flag[of "''cgroup''" v]
    classify_flag[of "''uid''" v] classify_flag[of "''gid''" v]
  by (simp_all add: classify_def)

text \<open>
  The command line that \<^verbatim>\<open>New\<close> builds for the shim is read back by the binary as
  exactly the command, the arguments, the control group and the identity of the job. No
  text in the command or in its arguments, be it empty, with spaces, with equal signs or
  with the form of a flag, can change another field.
\<close>

lemma shim_args_roundtrip:
  assumes "int64 (UID (ids j))" and "int64 (GID (ids j))"
  shows "main_start 0 (cmdArgs j) =
    RunShim (Command j) (job_Args j) (cgroupInner j) (UID (ids j)) (GID (ids j))"
proof -
  have mode: "classify ''--mode=shim'' = FlagArg ''mode'' (Some ''shim'')"
    using classify_args(1)[of "''shim''"] by simp
  show ?thesis
    using assms classify_args[unfolded append.simps]
    by (simp add: main_start_def cmdArgs_def mode set_flag_def default_flags_def parse_int0_int_dec)
qed

section \<open>Main\<close>

datatype shim_start = ShimExit int | ShimRun string "string list"

definition fd3 :: string where "fd3 = ''fd:3''"

text \<open>
  The part of \<^verbatim>\<open>Main\<close> before the command is started. Descriptor 3 is the write end of the
  pipe of \<^verbatim>\<open>New\<close>. It is closed before \<^verbatim>\<open>prctl\<close> is called, so the write of the message about
  a failing \<^verbatim>\<open>prctl\<close> and the second \<^verbatim>\<open>Close\<close> fail without a system call.
\<close>

definition shim_Main ::
  "os_env \<Rightarrow> string \<Rightarrow> string \<Rightarrow> string list \<Rightarrow> string \<Rightarrow> int \<Rightarrow> int \<Rightarrow> world \<Rightarrow> shim_start \<times> world" where
  "shim_Main E argv0 command args cgroup uid gid w =
     (if argv0 \<noteq> ''/proc/self/exe'' then (ShimExit 1, w)
      else case SetupProc E cgroup \<lparr>UID = uid, GID = gid\<rparr> w of
        (Inl e, w1) \<Rightarrow>
          let w2 = snd (os_do E (SWritePipe (''failed to setup the process: '' @ error_text e)) w1);
              w3 = snd (os_do E (SClose fd3) w2)
          in (ShimExit 1, w3)
      | (Inr _, w1) \<Rightarrow>
          let w2 = snd (os_do E (SClose fd3) w1) in
          case os_do E SPrctl w2 of
            (Inl e, w3) \<Rightarrow> (ShimExit 1, w3)
          | (Inr _, w3) \<Rightarrow> (ShimRun command args, w3))"

text \<open>
  The loop: the command ends with an exit code (-1 when a signal killed it), the parent
  dies, or a SIGTERM arrives. When the command could not be started, \<^verbatim>\<open>Wait\<close> fails at once,
  there is no process state and forwarding a signal dereferences a nil pointer. The status
  the parent sees is the exit code modulo 256.
\<close>

datatype shim_event = CmdDone int | ParentHup | TermSig

datatype shim_end = ShimExited int | ShimPanic | ShimWaits

text \<open>\<^verbatim>\<open>waitForOrphans\<close>: one Boolean for each \<^verbatim>\<open>wait4\<close>, true if it reaped a process.\<close>

fun waitForOrphans :: "bool list \<Rightarrow> bool" where
  "waitForOrphans [] \<longleftrightarrow> False"
| "waitForOrphans (reaped # obs) \<longleftrightarrow> (if reaped then waitForOrphans obs else True)"

fun shim_loop :: "os_env \<Rightarrow> bool \<Rightarrow> bool list \<Rightarrow> shim_event list \<Rightarrow> world \<Rightarrow> shim_end \<times> world" where
  "shim_loop E started orphans [] w = (ShimWaits, w)"
| "shim_loop E started orphans (CmdDone c # evs) w =
     (if waitForOrphans orphans then (ShimExited ((if started then c else - 1) mod 256), w)
      else (ShimWaits, w))"
| "shim_loop E started orphans (ParentHup # evs) w = (ShimExited 1, w)"
| "shim_loop E started orphans (TermSig # evs) w =
     (if started then shim_loop E started orphans evs (snd (os_do E (SSignal SIGTERM) w))
      else (ShimPanic, w))"

section \<open>What the shim guarantees\<close>

lemma os_do_trace: "os_do E c w = (r, w') \<Longrightarrow> trace w' = trace w @ [c]"
  using os_do_snd[of E c w] by simp

lemma echo_trace:
  assumes "echo E txt f w = (Inr u, w')"
  shows "\<exists>new. trace w' = trace w @ new \<and>
    (SAppend f (txt @ [newline]) \<in> set new \<or> SOverwrite f (txt @ [newline]) \<in> set new)"
  using assms
  by (auto simp: echo_def Let_def sm_finally_def sm_wrap_def sm_try_def
      split: prod.splits sum.splits dest!: os_do_trace)

lemma setupIDs_trace:
  "setupIDs E i w = (Inr u, w') \<Longrightarrow> trace w' = trace w @ [SSetgid (GID i), SSetgroups, SSetuid (UID i)]"
  by (auto simp: setupIDs_def then_Inr dest!: os_do_trace)

lemma shim_Main_runs:
  assumes "shim_Main E argv0 command args cg uid gid w = (ShimRun c as, w')"
  shows "c = command \<and> as = args \<and> argv0 = ''/proc/self/exe'' \<and>
    (\<exists>new. trace w' = trace w @ [SUnmount ''/proc'', SMount ''/proc''] @ new @
         [SSetgid gid, SSetgroups, SSetuid uid, SClose fd3, SPrctl] \<and>
       (SAppend (path_Join [cg, ''cgroup.procs'']) (int_dec (os_pid E) @ [newline]) \<in> set new \<or>
        SOverwrite (path_Join [cg, ''cgroup.procs'']) (int_dec (os_pid E) @ [newline]) \<in> set new))"
proof -
  obtain w1 u where sup: "SetupProc E cg \<lparr>UID = uid, GID = gid\<rparr> w = (Inr u, w1)"
    and a: "argv0 = ''/proc/self/exe''"
    using assms by (auto simp: shim_Main_def Let_def split: if_splits prod.splits sum.splits)
  obtain w2 w3 w4 where m: "os_do E (SUnmount ''/proc'') w = (Inr (), w2)" "os_do E (SMount ''/proc'') w2 = (Inr (), w3)"
    and g: "echo E (int_dec (os_pid E)) (path_Join [cg, ''cgroup.procs'']) w3 = (Inr (), w4)"
    and i: "setupIDs E \<lparr>UID = uid, GID = gid\<rparr> w4 = (Inr (), w1)"
    using sup by (auto simp: SetupProc_def remountProc_def addPidToCgroup_def then_Inr)
  obtain new where new: "trace w4 = trace w3 @ new"
    "SAppend (path_Join [cg, ''cgroup.procs'']) (int_dec (os_pid E) @ [newline]) \<in> set new \<or>
     SOverwrite (path_Join [cg, ''cgroup.procs'']) (int_dec (os_pid E) @ [newline]) \<in> set new"
    using echo_trace[OF g] by blast
  have fin: "c = command" "as = args" "trace w' = trace w1 @ [SClose fd3, SPrctl]"
    using assms a sup by (auto simp: shim_Main_def Let_def split: prod.splits sum.splits dest!: os_do_trace)
  show ?thesis
    using a new fin m[THEN os_do_trace] setupIDs_trace[OF i] by auto
qed


definition cg_world :: world where
  "cg_world = \<lparr>fs = [(''/cg'', Dir)], trace = []\<rparr>"

lemma cg_world_runs:
  "fst (shim_Main quiet_env ''/proc/self/exe'' ''ls'' [''-l''] ''/cg'' 1000 100 cg_world) = ShimRun ''ls'' [''-l'']"
  by code_simp


text \<open>The calls made so far, none of which wrote to the pipe.\<close>

definition quiet_pipe :: "syscall list \<Rightarrow> world \<Rightarrow> bool" where
  "quiet_pipe t w \<longleftrightarrow> (\<exists>new. trace w = t @ new \<and> (\<forall>m. SWritePipe m \<notin> set new))"

lemma pres_quiet_pipe [pres]: "(\<And>m. c \<noteq> SWritePipe m) \<Longrightarrow> sm_pres (quiet_pipe t) (os_call E c)"
  by (auto simp: sm_pres_def quiet_pipe_def) blast

lemma quiet_pipe_here: "quiet_pipe (trace w) w"
  by (simp add: quiet_pipe_def)

lemma SetupProc_quiet: "sm_pres (quiet_pipe t) (SetupProc E cg i)"
  unfolding SetupProc_def remountProc_def addPidToCgroup_def setupIDs_def
  by (intro pres) simp_all

text \<open>
  When the shim gives up, it tells its parent so through the pipe exactly if the setup
  of the process failed. When it gives up because \<^verbatim>\<open>prctl\<close> failed, nothing is written, so
  that \<^verbatim>\<open>New\<close> reads an empty message and takes the job for started.
\<close>

lemma shim_reports_setup_failure_only:
  assumes "shim_Main E ''/proc/self/exe'' command args cg uid gid w = (ShimExit c, w')"
  shows "(\<exists>new m. trace w' = trace w @ new \<and> SWritePipe m \<in> set new) \<longleftrightarrow>
    isl (fst (SetupProc E cg \<lparr>UID = uid, GID = gid\<rparr> w))"
proof -
  obtain r w1 where s: "SetupProc E cg \<lparr>UID = uid, GID = gid\<rparr> w = (r, w1)" by (metis prod.exhaust)
  have q: "quiet_pipe (trace w) w1"
    using sm_presD[OF SetupProc_quiet quiet_pipe_here[of w]] s by (metis snd_conv)
  then obtain new where new: "trace w1 = trace w @ new" "\<forall>m. SWritePipe m \<notin> set new"
    by (auto simp: quiet_pipe_def)
  show ?thesis
  proof (cases r)
    case (Inl e)
    then have "trace w' = trace w @ new @
        [SWritePipe (''failed to setup the process: '' @ error_text e), SClose fd3]"
      using assms s new by (auto simp: shim_Main_def Let_def)
    with s Inl show ?thesis by auto
  next
    case (Inr u)
    then have "trace w' = trace w @ new @ [SClose fd3, SPrctl]"
      using assms s new by (auto simp: shim_Main_def Let_def split: prod.splits sum.splits dest!: os_do_trace)
    with s Inr new show ?thesis by auto
  qed
qed

definition no_prctl_env :: os_env where
  "no_prctl_env = quiet_env\<lparr>os_fault := (\<lambda>_ c. if c = SPrctl then Some (''EINVAL'', []) else None)\<rparr>"

text \<open>
  The shim forwards every termination signal to the command and, once the command and
  all orphans are gone, exits with the exit code of the command (modulo 256, so that a
  command killed by a signal shows up as 255).
\<close>

lemma shim_forwards_and_exits:
  assumes "waitForOrphans orphans"
  shows "\<exists>w'. shim_loop E True orphans (replicate n TermSig @ CmdDone c # evs) w = (ShimExited (c mod 256), w') \<and>
    trace w' = trace w @ replicate n (SSignal SIGTERM)"
proof (induction n arbitrary: w)
  case 0
  with assms show ?case by simp
next
  case (Suc n)
  let ?w = "snd (os_do E (SSignal SIGTERM) w)"
  from Suc[of ?w] show ?case by simp
qed

end
