(* ===== verification/Client_Service.thy ===== *)
theory Client_Service
  imports Client_Commands Server_Config Shim
begin

text \<open>
  The client and the server together: what the commands guarantee whatever the service
  answers, and what a user sees when the stub calls the methods of the service through its
  interceptors.
\<close>

section \<open>What every command does\<close>

definition reaches :: "('cert, 's) cmd_env \<Rightarrow> 's session \<Rightarrow> 's JobServiceClient \<Rightarrow> bool" where
  "reaches C ss cl \<longleftrightarrow>
     (\<exists>p c. client_FindConfig (ce_viper C) (ce_home C) (ss_files ss) (ce_config C) = (p, Some c, None) \<and>
        client_New (ce_lib C) c = Inr cl)"

lemma FindConfig_ok: "client_FindConfig v h disk f = (p, c, None) \<Longrightarrow> c \<noteq> None"
  by (auto simp: client_FindConfig_def Let_def split: prod.splits sum.splits option.splits)

lemma connected_reaches:
  "reaches C ss cl \<Longrightarrow> connected C needs (a # as) body ss = body a as cl ss"
  by (auto simp: reaches_def connected_def)

lemma connected_cases:
  obtains (failed) m where "m \<noteq> []" "connected C needs args body ss = fail_with m ss"
  | (reached) a as cl where "args = a # as" "reaches C ss cl"
      "connected C needs args body ss = body a as cl ss"
proof -
  obtain p c e where f: "client_FindConfig (ce_viper C) (ce_home C) (ss_files ss) (ce_config C) = (p, c, e)"
    by (metis prod.exhaust)
  have nl: "m @ nl \<noteq> []" for m by (simp add: nl_def)
  show thesis
  proof (cases e)
    case (Some x)
    with f nl show thesis by (intro failed) (auto simp: connected_def)
  next
    case None
    obtain c' where c: "c = Some c'" using FindConfig_ok f None by fastforce
    show thesis
    proof (cases args)
      case Nil
      with f None nl show thesis by (intro failed) (auto simp: connected_def)
    next
      case (Cons a as)
      show thesis
      proof (cases "client_New (ce_lib C) c'")
        case (Inl x)
        with f None c Cons nl show thesis
          by (intro failed[of "''failed to connect: '' @ error_text x @ nl"]) (auto simp: connected_def)
      next
        case (Inr cl)
        with f None c Cons show thesis by (intro reached) (auto simp: connected_def reaches_def)
      qed
    qed
  qed
qed

lemma complain_fields [simp]:
  "ss_err (complain m ss) = ss_err ss @ m" "ss_out (complain m ss) = ss_out ss"
  "ss_srv (complain m ss) = ss_srv ss" "ss_files (complain m ss) = ss_files ss"
  by (simp_all add: complain_def)

lemma say_fields [simp]:
  "ss_out (say m ss) = ss_out ss @ m" "ss_err (say m ss) = ss_err ss"
  "ss_srv (say m ss) = ss_srv ss" "ss_files (say m ss) = ss_files ss"
  by (simp_all add: say_def)

text \<open>
  The result of a command as its user sees it: success with nothing on the error output,
  or exit code 1 with a message.
\<close>

definition told :: "bool \<Rightarrow> 's session \<Rightarrow> cmd_end \<times> 's session \<Rightarrow> bool" where
  "told on_out ss r \<longleftrightarrow>
     (case r of
        (ExitCode n, ss') \<Rightarrow>
          n = 0 \<and> ss_err ss' = ss_err ss \<or>
          n = 1 \<and> (\<exists>m. m \<noteq> [] \<and> ss_err ss' = ss_err ss @ m \<and> ss_out ss' = ss_out ss) \<or>
          n = 1 \<and> on_out \<and> (\<exists>m. m \<noteq> [] \<and> ss_out ss' = ss_out ss @ m)
      | (Hangs, ss') \<Rightarrow> ss_err ss' = ss_err ss
      | (Crash, ss') \<Rightarrow> False)"

lemma told_fail: "m \<noteq> [] \<Longrightarrow> ss_err ss1 = ss_err ss \<Longrightarrow> ss_out ss1 = ss_out ss \<Longrightarrow> told b ss (fail_with m ss1)"
  by (simp add: told_def fail_with_def)

lemma told_calling:
  assumes "\<And>x s'. told b ss (body x (ss\<lparr>ss_srv := s'\<rparr>))"
  shows "told b ss (calling t failed c body ss)"
proof -
  have "told b ss (fail_with (failed @ m @ nl) (ss\<lparr>ss_srv := s'\<rparr>))" for m s'
    by (rule told_fail) (simp_all add: nl_def)
  moreover have "told b ss (Hangs, ss\<lparr>ss_srv := s'\<rparr>)" for s' by (simp add: told_def)
  ultimately show ?thesis
    using assms by (simp add: calling_def split: prod.splits outcome.splits sum.splits)
qed

lemma told_done: "told b ss (done_with m (ss\<lparr>ss_srv := s'\<rparr>))"
  by (simp add: told_def done_with_def)

lemma recv_logs_result:
  "recv_logs t ds en ss =
     (case en of
        StreamEOF \<Rightarrow> (ExitCode 0, say (concat ds) ss)
      | StreamErr e \<Rightarrow> (ExitCode 1, say (concat ds @ ''failed to read logs: '' @ diagMessage t e @ nl) ss)
      | StreamOpen \<Rightarrow> (Hangs, say (concat ds) ss))"
  by (induction t ds en ss rule: recv_logs.induct)
    (simp_all add: say_def split: stream_end.splits)

lemma told_recv: "told True ss (recv_logs t ds en (ss\<lparr>ss_srv := s'\<rparr>))"
  by (auto simp: recv_logs_result told_def split: stream_end.splits)

lemma told_connected:
  assumes "\<And>a as cl. told b ss (body a as cl ss)"
  shows "told b ss (connected C needs args body ss)"
  by (cases rule: connected_cases[of C needs args body ss]) (auto simp: assms intro: told_fail)


section \<open>The stub of the running service\<close>

definition unary :: "'a rpc \<Rightarrow> (jobServer, 'a) call" where
  "unary h s =
     (case h s of
        (Ret r, s') \<Rightarrow> (Ret (map_sum FromStatus id r), s')
      | (Panic m, s') \<Rightarrow> (Panic m, s')
      | (Block, s') \<Rightarrow> (Block, s'))"

definition streamed ::
  "(jobServer \<Rightarrow> logs_result \<times> string list \<times> jobServer) \<Rightarrow> (jobServer, string list \<times> stream_end) call" where
  "streamed h s =
     (case h s of (res, out, s') \<Rightarrow>
        (Ret (Inr (out,
           case res of
             LogsReturn None \<Rightarrow> StreamEOF
           | LogsReturn (Some st) \<Rightarrow> StreamErr (FromStatus st)
           | _ \<Rightarrow> StreamOpen)), s'))"

definition stub ::
  "os_env \<Rightarrow> grpc_ctx \<Rightarrow> read_obs list \<Rightarrow> (jobServer \<Rightarrow> jobServer) \<Rightarrow> jobServer JobServiceClient" where
  "stub E ctx obs others =
     \<lparr>rpc_Start = (\<lambda>q. unary (interceptor (\<lambda>c. srv_Start E c q) ctx)),
      rpc_Stop = (\<lambda>i m. unary (interceptor (\<lambda>c. srv_Stop E c i m) ctx)),
      rpc_Inspect = (\<lambda>i. unary (interceptor (\<lambda>c. srv_Inspect c i) ctx)),
      rpc_Remove = (\<lambda>i. unary (interceptor (\<lambda>c. srv_Remove E c i) ctx)),
      rpc_Logs = (\<lambda>i follow. streamed (serve_logs E ctx i follow obs others))\<rparr>"

definition identified :: "grpc_ctx \<Rightarrow> string \<Rightarrow> bool" where
  "identified ctx cid \<longleftrightarrow> clientID ctx = Ret (Inr cid)"

lemma unary_identified:
  assumes "identified ctx cid"
  shows "unary (interceptor h ctx) s =
    (case h (StoreAuthID (ctx_vals ctx) cid) s of
       (Ret r, s') \<Rightarrow> (Ret (map_sum FromStatus id r), s')
     | (Panic m, s') \<Rightarrow> (Ret (Inl (FromStatus internal_error)), s')
     | (Block, s') \<Rightarrow> (Block, s'))"
  using assms
  by (simp add: identified_def unary_def interceptor_def split: prod.splits outcome.splits)

text \<open>What each command does against the running service.\<close>

definition run_limits :: "run_flags \<Rightarrow> exec_limits" where
  "run_limits fl = \<lparr>CPU = cpuLimit fl, MaxRAMBytes = memLimit fl, MaxDiskIOBytes = ioLimit fl\<rparr>"

lemma run_result:
  assumes "reaches C ss (stub E ctx obs others)" and "identified ctx cid"
  shows "runCmd C fl (a # as) ss =
    (case sup_Start E a as (run_limits fl) (srv_jobs (ss_srv ss)) of
       (Inl e, js) \<Rightarrow>
         fail_with (''failed to start the job: '' @ diagMessage (ce_text C) (FromStatus (to_status e)) @ nl)
           (ss\<lparr>ss_srv := (ss_srv ss)\<lparr>srv_jobs := js\<rparr>\<rparr>)
     | (Inr jid, js) \<Rightarrow>
         (ExitCode 0, say (jid @ nl) (ss\<lparr>ss_srv := (ss_srv ss)
           \<lparr>srv_jobs := js, srv_auth := acl_own jid cid (srv_auth (ss_srv ss))\<rparr>\<rparr>)))"
  unfolding runCmd_def connected_reaches[OF assms(1)]
  by (simp add: calling_def stub_def unary_identified[OF assms(2)] srv_Start_def toJobLimits_def
      run_limits_def acl_own_def done_with_def split: prod.splits sum.splits)

lemma inspect_result:
  assumes "reaches C ss (stub E ctx obs others)" and "identified ctx cid"
  shows "inspectCmd C [i] ss =
    (if \<not> acl_allowed (srv_auth (ss_srv ss)) cid i ReadAccess
     then fail_with (''failed to inspect: no such job'' @ nl) ss
     else case sup_Inspect i (srv_jobs (ss_srv ss)) of
       (Inl e, js) \<Rightarrow>
         fail_with (''failed to inspect: '' @ diagMessage (ce_text C) (FromStatus (to_status e)) @ nl)
           (ss\<lparr>ss_srv := (ss_srv ss)\<lparr>srv_jobs := js\<rparr>\<rparr>)
     | (Inr (st, c, t), js) \<Rightarrow>
         (ExitCode 0, say (inspect_text i \<lparr>det_status = fromJobStatus st, det_exit_code = c, det_command = t\<rparr>)
           (ss\<lparr>ss_srv := (ss_srv ss)\<lparr>srv_jobs := js\<rparr>\<rparr>)))"
  unfolding inspectCmd_def connected_reaches[OF assms(1)]
  by (simp add: calling_def stub_def unary_identified[OF assms(2)] srv_Inspect_def hasReadAccess_def
      acl_allowed_def diagMessage_def job_not_found_def done_with_def split: prod.splits sum.splits)

lemma rm_result:
  assumes "reaches C ss (stub E ctx obs others)" and "identified ctx cid"
    and "acl_allowed (srv_auth (ss_srv ss)) cid i FullAccess"
    and "sup_Remove E i (srv_jobs (ss_srv ss)) = (Ret (Inr ()), js)"
  shows "rmCmd C [i] ss = (ExitCode 0, say [] (ss\<lparr>ss_srv := (ss_srv ss)
    \<lparr>srv_jobs := js, srv_auth := acl_disown i (srv_auth (ss_srv ss))\<rparr>\<rparr>))"
  unfolding rmCmd_def connected_reaches[OF assms(1)]
  using assms(3,4)
  by (simp add: calling_def stub_def unary_identified[OF assms(2)] srv_Remove_def hasFullAccess_def
      acl_allowed_def[symmetric] acl_disown_def done_with_def)

lemma rm_refused:
  assumes "reaches C ss (stub E ctx obs others)" and "identified ctx cid"
    and "\<not> acl_allowed (srv_auth (ss_srv ss)) cid i FullAccess"
  shows "rmCmd C [i] ss = fail_with (''failed to stop the job: no such job'' @ nl) ss"
  unfolding rmCmd_def connected_reaches[OF assms(1)]
  using assms(3)
  by (simp add: calling_def stub_def unary_identified[OF assms(2)] srv_Remove_def hasFullAccess_def
      acl_allowed_def[symmetric] diagMessage_def job_not_found_def)

lemma removes_ended:
  assumes "no_faults E" and "map_of (jobs s) i = Some r" and "store s r = Some j"
    and "job_handler j = endedHandler" and "outLock j = 0"
  shows "\<exists>s'. sup_Remove E i s = (Ret (Inr ()), s')"
proof -
  let ?s = "s\<lparr>jobs := AList.delete i (jobs s)\<rparr>"
  have j: "store ?s r = Some j" using assms(3) by simp
  obtain w' where "os_do E (SRemoveAll (jobDir j)) (sup_world s) = (Inr (), w')"
    using no_faults_RemoveAll[OF assms(1)] by blast
  then have "on_job_outcome r (job_Cleanup E) ?s = (Ret (Inr ()), put_job r (setHandler zombieHandler j) w' ?s)"
    using assms(4,5) by (simp add: on_job_Cleanup[OF j])
  then show ?thesis
    using assms(2-4)
    by (simp add: sup_Remove_def Remove_unlink_def with_ref_def cleanup_or_add_def)
qed

lemma reaches_files: "ss_files ss' = ss_files ss \<Longrightarrow> reaches C ss cl \<Longrightarrow> reaches C ss' cl"
  by (simp add: reaches_def)

section \<open>Starting a job and looking at it\<close>

text \<open>
  C18. From the command line to the job and back: when \<^verbatim>\<open>jctrl run\<close> succeeds it has printed the
  identifier of the new job and nothing else; the job has the command, the arguments and
  the limits of the command line; an \<^verbatim>\<open>inspect\<close> of it by the same client shows it as active with
  this command line; and a client that is neither its owner nor a super user is told that
  there is no such job.
\<close>

theorem run_then_inspect:
  assumes "reaches C ss (stub E ctx obs others)" and "identified ctx cid"
    and "trim_space cid = cid" and "cid \<noteq> []" and "good_id E (ss_srv ss) x"
    and "runCmd C fl (a # as) ss = (ExitCode 0, ss1)"
  shows "ss_out ss1 = ss_out ss @ x @ nl \<and>
    (\<exists>j. sup_entry (srv_jobs (ss_srv ss1)) x = Some j \<and> Command j = a \<and> job_Args j = as \<and>
       limits j = run_limits fl) \<and>
    inspectCmd C [x] ss1 = (ExitCode 0, say (inspect_text x
      \<lparr>det_status = STATUS_ACTIVE, det_exit_code = 0, det_command = strings_Join (a # as) '' ''\<rparr>) ss1) \<and>
    (\<forall>C' ctx' u. reaches C' ss1 (stub E ctx' obs others) \<and> identified ctx' u \<and> u \<noteq> cid \<and>
       u \<notin> superUsers (srv_auth (ss_srv ss)) \<and> u \<notin> superReadUsers (srv_auth (ss_srv ss)) \<longrightarrow>
       inspectCmd C' [x] ss1 = fail_with (''failed to inspect: no such job'' @ nl) ss1)"
proof -
  let ?s = "ss_srv ss"
  obtain jid js where st: "sup_Start E a as (run_limits fl) (srv_jobs ?s) = (Inr jid, js)"
    and ss1: "ss1 = say (jid @ nl) (ss\<lparr>ss_srv := ?s\<lparr>srv_jobs := js, srv_auth := acl_own jid cid (srv_auth ?s)\<rparr>\<rparr>)"
    using assms(6) unfolding run_result[OF assms(1,2)]
    by (auto simp: fail_with_def split: prod.splits sum.splits)
  have x: "jid = x" "trim_space x = x" "x \<noteq> []"
    using sup_Start_frame(1)[OF st] assms(5) unfolding good_id_def by blast+
  obtain j w where c: "createJob E a as (run_limits fl) (sup_ids (srv_jobs ?s)) (sup_world (srv_jobs ?s)) = (Inr j, w)"
    and js: "jid = ID j" "js = (put_job (next_ref (srv_jobs ?s)) j w (srv_jobs ?s))
      \<lparr>jobs := AList.update (ID j) (next_ref (srv_jobs ?s)) (jobs (srv_jobs ?s)), next_ref := Suc (next_ref (srv_jobs ?s))\<rparr>"
    using st by (auto simp: sup_Start_def split: prod.splits sum.splits)
  note j = createJob_result[OF c]
  have entry: "sup_entry js x = Some j" using x js by (simp add: sup_entry_def)
  have insp: "sup_Inspect x js = (Inr (StatusActive, 0, strings_Join (a # as) '' ''), js)"
    using j x js by (simp add: sup_Inspect_def with_ref_def job_at_def job_Status_def fresh_job_def)
  have r1: "reaches C ss1 (stub E ctx obs others)"
    using reaches_files[OF _ assms(1)] by (simp add: ss1)
  have own: "acl_allowed (acl_own x cid (srv_auth ?s)) cid x ReadAccess"
    using acl.own_grants[of x cid "srv_auth ?s" ReadAccess] x assms(3,4) by simp
  have other: "\<not> acl_allowed (acl_own x cid (srv_auth ?s)) u x ReadAccess"
    if "u \<noteq> cid" "u \<notin> superUsers (srv_auth ?s)" "u \<notin> superReadUsers (srv_auth ?s)" for u
    using that assms(3,4) x by (auto simp: acl_allowed_iff acl_own_def owners_SetOwner)
  have "inspectCmd C [x] ss1 = (ExitCode 0, say (inspect_text x
      \<lparr>det_status = STATUS_ACTIVE, det_exit_code = 0, det_command = strings_Join (a # as) '' ''\<rparr>) ss1)"
    unfolding inspect_result[OF r1 assms(2)] using own insp x
    by (simp add: ss1 say_def fromJobStatus_def)
  moreover have "inspectCmd C' [x] ss1 = fail_with (''failed to inspect: no such job'' @ nl) ss1"
    if "reaches C' ss1 (stub E ctx' obs others)" "identified ctx' u" "u \<noteq> cid"
      "u \<notin> superUsers (srv_auth ?s)" "u \<notin> superReadUsers (srv_auth ?s)" for C' :: "('c, jobServer) cmd_env" and ctx' u
    unfolding inspect_result[OF that(1,2)] using other[OF that(3-5)] x by (simp add: ss1)
  moreover have "ss_out ss1 = ss_out ss @ x @ nl" and "srv_jobs (ss_srv ss1) = js" using x by (simp_all add: ss1)
  ultimately show ?thesis using entry j by blast
qed

definition demo_env :: "'s JobServiceClient \<Rightarrow> (unit, 's) cmd_env" where
  "demo_env cl =
     \<lparr>ce_viper = demo_viper, ce_home = None, ce_config = ''my.yaml'',
      ce_lib = \<lparr>lib_ReadFile = (\<lambda>_. Inr ''pem''), lib_AppendCerts = (\<lambda>_. True),
        lib_KeyPair = (\<lambda>_ _. Inr ()), lib_Dial = (\<lambda>_ _. Inr cl)\<rparr>,
      ce_text = (\<lambda>_. ''rpc error''), ce_create = (\<lambda>_. None), ce_encode = demo_encode\<rparr>"

definition demo_session :: "'s \<Rightarrow> 's session" where
  "demo_session srv =
     \<lparr>ss_srv = srv, ss_out = [], ss_err = [], ss_files = [''my.yaml'' \<mapsto> ''h:1,ca,crt,key'']\<rparr>"

definition demo_peer :: "string \<Rightarrow> grpc_ctx" where
  "demo_peer n = \<lparr>ctx_peer = Some (TLSInfo [[[n]]]), ctx_vals = []\<rparr>"

lemma demo_reaches: "reaches (demo_env cl) (demo_session srv) cl"
  by (simp add: reaches_def demo_env_def demo_session_def client_FindConfig_def search_for_def
      demo_viper_def demo_parse_def mapstructure_def client_New_Inr)

lemma demo_identified: "identified (demo_peer n) n"
  by (simp add: identified_def demo_peer_def clientID_def)

definition no_flags :: run_flags where
  "no_flags = \<lparr>cpuLimit = F32 0 0, memLimit = 0, ioLimit = 0\<rparr>"


theorem run_then_inspect_witness:
  "\<exists>ss1. runCmd (demo_env (stub (mounts_env [] []) (demo_peer ''bob'') [] id)) no_flags [''ls'', ''-l'']
       (demo_session new_srv) = (ExitCode 0, ss1) \<and> ss_out ss1 = ''x'' @ nl \<and>
     inspectCmd (demo_env (stub (mounts_env [] []) (demo_peer ''bob'') [] id)) [''x''] ss1 =
       (ExitCode 0, say (inspect_text ''x''
         \<lparr>det_status = STATUS_ACTIVE, det_exit_code = 0, det_command = ''ls -l''\<rparr>) ss1)"
proof -
  let ?E = "mounts_env [] []"
  let ?cl = "stub ?E (demo_peer ''bob'') [] id"
  have trim: "trim_space ''bob'' = ''bob''" "trim_space ''x'' = ''x''" by code_simp+
  have st: "sup_Start ?E ''ls'' [''-l''] (run_limits no_flags) (srv_jobs (ss_srv (demo_session new_srv)))
      = (Inr ''x'', demo_start)"
    using demo_start_result by (auto simp: run_limits_def no_flags_def no_limits_def demo_session_def new_srv_def)
  then obtain ss1 where r: "runCmd (demo_env ?cl) no_flags [''ls'', ''-l''] (demo_session new_srv) = (ExitCode 0, ss1)"
    unfolding run_result[OF demo_reaches demo_identified] by simp
  have g: "good_id ?E (ss_srv (demo_session new_srv)) ''x''"
    using trim by (simp add: good_id_def mounts_env_def new_srv_def sup_New_def demo_session_def)
  have l: "strings_Join [''ls'', ''-l''] '' '' = ''ls -l''" by code_simp
  have c: "''bob'' \<noteq> []" by simp
  note R = run_then_inspect[OF demo_reaches demo_identified trim(1) c g r]
  have "ss_out ss1 = ''x'' @ nl" using conjunct1[OF R] by (simp add: demo_session_def)
  with r conjunct1[OF conjunct2[OF conjunct2[OF R]]] show ?thesis unfolding l by blast
qed

section \<open>The end of a job\<close>

text \<open>
  The goroutine of a job: its process ends with a code, which \<^verbatim>\<open>cmd.Wait\<close> records, and the
  end is reported.
\<close>

definition process_ends :: "os_env \<Rightarrow> ref \<Rightarrow> int \<Rightarrow> supervisor \<Rightarrow> supervisor" where
  "process_ends E r code s =
     snd (on_job_outcome r (\<lambda>(j, w).
       job_exited E (j\<lparr>job_cmd := (job_cmd j)\<lparr>ProcessState := Some code\<rparr>\<rparr>, w)) s)"

lemma process_ends_result:
  assumes "store s r = Some j" and "job_handler j = activeHandler" and "\<not> done_closed j"
  shows "\<exists>j' w. process_ends E r code s = put_job r j' w s \<and> job_handler j' = endedHandler \<and>
    ID j' = ID j \<and> Command j' = Command j \<and> job_Args j' = job_Args j \<and> outLock j' = outLock j \<and>
    jobDir j' = jobDir j \<and> ProcessState (job_cmd j') = Some code \<and> follows j j'"
proof -
  let ?j = "j\<lparr>job_cmd := (job_cmd j)\<lparr>ProcessState := Some code\<rparr>, exitCode := code,
    done_closed := True, job_handler := endedHandler\<rparr>"
  have "\<exists>w. process_ends E r code s = put_job r ?j w s"
    using assms
    by (simp add: process_ends_def on_job_outcome_def job_at_def job_exited_eq closes_done_def
        before_kill_def setHandler_def record_exit_def Let_def) blast
  then show ?thesis by (elim exE, intro exI[of _ ?j]) (auto simp: assms(2) follows_def)
qed

lemma exit_code_fits: "sint (word_of_int (c mod 256) :: 32 word) = c mod 256"
  by (simp add: signed_of_int signed_take_bit_int_eq_self)

lemma ended_job_removed:
  assumes r2: "reaches C ss (stub E ctx obs others)" and id: "identified ctx cid"
    and ok: "acl_allowed (srv_auth (ss_srv ss)) cid x FullAccess" and sane: "sup_sane (srv_jobs (ss_srv ss))"
    and r: "map_of (jobs (srv_jobs (ss_srv ss))) x = Some r" and j: "store (srv_jobs (ss_srv ss)) r = Some j"
    and e: "job_handler j = endedHandler" and nf: "no_faults E" and l: "outLock j = 0" and d: "jobDir j \<noteq> []"
  shows "\<exists>ss3. rmCmd C [x] ss = (ExitCode 0, ss3) \<and> ss_out ss3 = ss_out ss \<and> ss_err ss3 = ss_err ss \<and>
    (\<forall>q. under (jobDir j) q \<longrightarrow> map_of (fs (sup_world (srv_jobs (ss_srv ss3)))) q = None) \<and>
    inspectCmd C [x] ss3 = fail_with (''failed to inspect: no such job'' @ nl) ss3 \<and>
    rmCmd C [x] ss3 = fail_with (''failed to stop the job: no such job'' @ nl) ss3"
proof -
  obtain js where rm: "sup_Remove E x (srv_jobs (ss_srv ss)) = (Ret (Inr ()), js)"
    using removes_ended[OF nf r j e l] by blast
  let ?ss3 = "say [] (ss\<lparr>ss_srv := (ss_srv ss)\<lparr>srv_jobs := js, srv_auth := acl_disown x (srv_auth (ss_srv ss))\<rparr>\<rparr>)"
  have run: "rmCmd C [x] ss = (ExitCode 0, ?ss3)" by (rule rm_result[OF r2 id ok rm])
  have gone: "\<forall>q. under (jobDir j) q \<longrightarrow> map_of (fs (sup_world js)) q = None"
    using Remove_result[OF sane rm] r j d by auto
  have r3: "reaches C ?ss3 (stub E ctx obs others)" by (rule reaches_files[OF _ r2]) simp
  have no: "\<not> acl_allowed (acl_disown x a) cid x b" for a b by (rule acl.disown_revokes)
  show ?thesis
    using run gone inspect_result[OF r3 id, of x] rm_refused[OF r3 id, of x] no
    by (intro exI[of _ ?ss3]) simp
qed

text \<open>
  C16. The life of a job ends as its owner is told. The command ends with a code, or by a signal
  (-1); the shim, once all orphans are gone, exits with this code modulo 256; the end is
  reported; then \<^verbatim>\<open>inspect\<close> shows the job as ended with exactly this number, which the 32-bit
  field of the answer does not change. Without faults and open readers \<^verbatim>\<open>rm\<close> then succeeds
  silently, nothing of its directory is left, and after that \<^verbatim>\<open>inspect\<close> and \<^verbatim>\<open>rm\<close> report that
  there is no such job.
\<close>

theorem ended_job_is_shown_and_removed:
  assumes "reaches C ss (stub E ctx obs others)" and "identified ctx cid"
    and "acl_allowed (srv_auth (ss_srv ss)) cid x FullAccess" and "sup_sane (srv_jobs (ss_srv ss))"
    and "map_of (jobs (srv_jobs (ss_srv ss))) x = Some r" and "store (srv_jobs (ss_srv ss)) r = Some j"
    and "job_handler j = activeHandler" and "\<not> done_closed j"
    and "ss2 = ss\<lparr>ss_srv := (ss_srv ss)\<lparr>srv_jobs := process_ends E r code (srv_jobs (ss_srv ss))\<rparr>\<rparr>"
    and "waitForOrphans orphans"
    and "fst (shim_loop E' True orphans (replicate n TermSig @ CmdDone c # evs) w0) = ShimExited code"
  shows "inspectCmd C [x] ss2 = (ExitCode 0, say (inspect_text x
      \<lparr>det_status = STATUS_ENDED, det_exit_code = word_of_int code,
       det_command = strings_Join (Command j # job_Args j) '' ''\<rparr>) ss2) \<and>
    code = c mod 256 \<and> sint (word_of_int code :: 32 word) = c mod 256 \<and>
    (no_faults E \<and> outLock j = 0 \<and> jobDir j \<noteq> [] \<longrightarrow>
      (\<exists>ss3. rmCmd C [x] ss2 = (ExitCode 0, ss3) \<and> ss_out ss3 = ss_out ss2 \<and> ss_err ss3 = ss_err ss2 \<and>
        (\<forall>q. under (jobDir j) q \<longrightarrow> map_of (fs (sup_world (srv_jobs (ss_srv ss3)))) q = None) \<and>
        inspectCmd C [x] ss3 = fail_with (''failed to inspect: no such job'' @ nl) ss3 \<and>
        rmCmd C [x] ss3 = fail_with (''failed to stop the job: no such job'' @ nl) ss3))"
proof -
  let ?s = "srv_jobs (ss_srv ss)"
  obtain j' w where e: "process_ends E r code ?s = put_job r j' w ?s"
    and j': "job_handler j' = endedHandler" "ID j' = ID j" "Command j' = Command j" "job_Args j' = job_Args j"
      "outLock j' = outLock j" "jobDir j' = jobDir j" "ProcessState (job_cmd j') = Some code"
    using process_ends_result[OF assms(6-8), of E code] by auto
  have r2: "reaches C ss2 (stub E ctx obs others)"
    using reaches_files[OF _ assms(1)] by (simp add: assms(9))
  have s2: "srv_jobs (ss_srv ss2) = put_job r j' w ?s" "srv_auth (ss_srv ss2) = srv_auth (ss_srv ss)"
    by (simp_all add: assms(9) e)
  have ok: "acl_allowed (srv_auth (ss_srv ss2)) cid x FullAccess" using assms(3) s2 by simp
  have "sup_Inspect x (put_job r j' w ?s) =
      (Inr (StatusEnded, word_of_int code, strings_Join (Command j # job_Args j) '' ''), put_job r j' w ?s)"
    using j' assms(5) by (simp add: sup_Inspect_def with_ref_def job_at_def job_Status_def state_ExitCode_def
        StatusEnded_def StatusActive_def StatusStopping_def)
  moreover have "acl_allowed (srv_auth (ss_srv ss2)) cid x ReadAccess" using ok by (rule acl.full_is_most)
  moreover have "fromJobStatus StatusEnded = STATUS_ENDED" by code_simp
  ultimately have shown: "inspectCmd C [x] ss2 = (ExitCode 0, say (inspect_text x
      \<lparr>det_status = STATUS_ENDED, det_exit_code = word_of_int code,
       det_command = strings_Join (Command j # job_Args j) '' ''\<rparr>) ss2)"
    unfolding inspect_result[OF r2 assms(2)] by (simp add: s2 assms(9) e)
  have "sup_sane (put_job r j' w ?s)" using assms(4,6) j' by (simp add: sup_sane_put)
  then have removed: "\<exists>ss3. rmCmd C [x] ss2 = (ExitCode 0, ss3) \<and> ss_out ss3 = ss_out ss2 \<and> ss_err ss3 = ss_err ss2 \<and>
      (\<forall>q. under (jobDir j) q \<longrightarrow> map_of (fs (sup_world (srv_jobs (ss_srv ss3)))) q = None) \<and>
      inspectCmd C [x] ss3 = fail_with (''failed to inspect: no such job'' @ nl) ss3 \<and>
      rmCmd C [x] ss3 = fail_with (''failed to stop the job: no such job'' @ nl) ss3"
    if "no_faults E" "outLock j = 0" "jobDir j \<noteq> []"
    using ended_job_removed[OF r2 assms(2) ok, of r j'] that assms(5) j' by (simp add: s2)
  have "code = c mod 256"
    using shim_forwards_and_exits[OF assms(10), of E' n c evs w0] assms(11) by auto
  with exit_code_fits have "code = c mod 256 \<and> sint (word_of_int code :: 32 word) = c mod 256" by blast
  with shown removed show ?thesis by blast
qed

definition demo_running :: jobServer where
  "demo_running = \<lparr>srv_jobs = demo_active\<lparr>store := (\<lambda>_. None)(0 \<mapsto> (new_job ''x'' 0 0)
       \<lparr>Command := ''ls'', job_Args := [''-l''], jobDir := ''/tmp/jobs/x''\<rparr>)\<rparr>,
     srv_auth = \<lparr>superUsers = {''root''}, superReadUsers = {''audit''}, owners = [''x'' \<mapsto> ''bob'']\<rparr>\<rparr>"

theorem ended_job_is_shown_and_removed_witness:
  "\<exists>ss2 ss3. ss_srv ss2 = demo_running\<lparr>srv_jobs := process_ends quiet_env 0 3 (srv_jobs demo_running)\<rparr> \<and>
     inspectCmd (demo_env (stub quiet_env (demo_peer ''root'') [] id)) [''x''] ss2 =
       (ExitCode 0, say (inspect_text ''x''
         \<lparr>det_status = STATUS_ENDED, det_exit_code = 3, det_command = ''ls -l''\<rparr>) ss2) \<and>
     rmCmd (demo_env (stub quiet_env (demo_peer ''root'') [] id)) [''x''] ss2 = (ExitCode 0, ss3)"
proof -
  let ?C = "demo_env (stub quiet_env (demo_peer ''root'') [] id)" and ?ss = "demo_session demo_running"
  let ?j = "(new_job ''x'' 0 0)\<lparr>Command := ''ls'', job_Args := [''-l''], jobDir := ''/tmp/jobs/x''\<rparr>"
  have a: "acl_allowed (srv_auth (ss_srv ?ss)) ''root'' ''x'' FullAccess"
    by (simp add: acl_allowed_iff demo_session_def demo_running_def)
  have s: "sup_sane (srv_jobs (ss_srv ?ss))"
    by (auto simp: sup_sane_def keys_ok_def refs_ok_def demo_session_def demo_running_def demo_active_def
        distinct_keys_def new_job_def split: if_splits)
  have m: "map_of (jobs (srv_jobs (ss_srv ?ss))) ''x'' = Some 0" "store (srv_jobs (ss_srv ?ss)) 0 = Some ?j"
    by (simp_all add: demo_session_def demo_running_def demo_active_def)
  have j: "job_handler ?j = activeHandler" "\<not> done_closed ?j" "outLock ?j = 0" "jobDir ?j \<noteq> []"
    by (simp_all add: new_job_def)
  have l: "strings_Join (Command ?j # job_Args ?j) '' '' = ''ls -l''" by code_simp
  have o: "waitForOrphans [True, False]" by simp
  have e: "fst (shim_loop quiet_env True [True, False] (replicate 1 TermSig @ CmdDone 259 # []) cg_world) = ShimExited 3"
    by simp
  note R = ended_job_is_shown_and_removed[OF demo_reaches demo_identified a s m j(1,2) refl o e]
  from conjunct2[OF conjunct2[OF conjunct2[OF R]]] no_faults_quiet j(3,4) obtain ss3 where
    "rmCmd ?C [''x''] (?ss\<lparr>ss_srv := (ss_srv ?ss)\<lparr>srv_jobs := process_ends quiet_env 0 3 (srv_jobs (ss_srv ?ss))\<rparr>\<rparr>)
      = (ExitCode 0, ss3)" by blast
  with conjunct1[OF R] show ?thesis unfolding l
    by (intro exI[of _ "?ss\<lparr>ss_srv := (ss_srv ?ss)\<lparr>srv_jobs := process_ends quiet_env 0 3 (srv_jobs (ss_srv ?ss))\<rparr>\<rparr>"]
        exI[of _ ss3]) (simp add: demo_session_def)
qed

section \<open>Reading the output\<close>

lemma opened_at_start:
  assumes "srv_Logs_open E ctx i s = (Ret (Inr (r, rd)), s')"
  shows "rd_pos rd = 0"
  using assms
  by (auto simp: srv_Logs_open_def Let_def sup_Logs_def with_ref_def sm_bind_def on_job_def sm_ret_def
      job_Logs_eq srv_reply_def split: prod.splits sum.splits if_splits option.splits)

lemma srv_Logs_delivers:
  assumes "srv_Logs E ctx i (Some follow) obs others s = (res, out, s')"
    and "\<forall>ob \<in> set obs. prefix (ob_content ob) F"
  shows "prefix (concat out) F" and "res = LogsReturn None \<Longrightarrow>
      \<forall>ob \<in> set obs. ob_fault ob = None \<Longrightarrow>
      sorted_wrt (\<lambda>a b. prefix (ob_content a) (ob_content b)) obs \<Longrightarrow>
      \<exists>k < length obs. concat out = ob_content (obs ! k) \<and> (follow \<longrightarrow> ob_done (obs ! k))"
proof -
  obtain o1 s1 where o: "srv_Logs_open E ctx i s = (o1, s1)" by (metis prod.exhaust)
  consider (opened) r rd lres rd' where "o1 = Ret (Inr (r, rd))" "logs_loop (Some follow) rd obs = (lres, out, rd')"
      "res = LogsReturn None \<longrightarrow> lres = LogsReturn None"
    | (refused) "out = []" "res \<noteq> LogsReturn None"
    using assms(1) o by (auto simp: srv_Logs_def Let_def split: prod.splits outcome.splits sum.splits if_splits)
  then have "prefix (concat out) F \<and> (res = LogsReturn None \<longrightarrow> (\<forall>ob \<in> set obs. ob_fault ob = None) \<longrightarrow>
      sorted_wrt (\<lambda>a b. prefix (ob_content a) (ob_content b)) obs \<longrightarrow>
      (\<exists>k < length obs. concat out = ob_content (obs ! k) \<and> (follow \<longrightarrow> ob_done (obs ! k))))"
  proof cases
    case opened
    have z: "rd_pos rd = 0" using opened_at_start o opened(1) by simp
    have "prefix (concat out) F" using logs_loop_prefix[OF assms(2) opened(2)] z by simp
    moreover have "\<exists>k < length obs. concat out = ob_content (obs ! k) \<and> (follow \<longrightarrow> ob_done (obs ! k))"
      if "res = LogsReturn None" "\<forall>ob \<in> set obs. ob_fault ob = None"
        "sorted_wrt (\<lambda>a b. prefix (ob_content a) (ob_content b)) obs"
      using logs_loop_complete_from[of obs F rd follow out rd'] assms(2) that opened(2,3) z by auto
    ultimately show ?thesis by blast
  qed simp
  then show "prefix (concat out) F" and "res = LogsReturn None \<Longrightarrow>
      \<forall>ob \<in> set obs. ob_fault ob = None \<Longrightarrow>
      sorted_wrt (\<lambda>a b. prefix (ob_content a) (ob_content b)) obs \<Longrightarrow>
      \<exists>k < length obs. concat out = ob_content (obs ! k) \<and> (follow \<longrightarrow> ob_done (obs ! k))"
    by blast+
qed

lemma serve_logs_identified:
  assumes "identified ctx cid"
  shows "serve_logs E ctx i follow obs others s =
    (case srv_Logs E (StoreAuthID (ctx_vals ctx) cid) i follow obs others s of
       (LogsPanic, out, s') \<Rightarrow> (LogsReturn (Some internal_error), out, s')
     | r \<Rightarrow> r)"
  using assms by (simp add: serve_logs_def streamInterceptor_def identified_def)

lemma logs_result_cmd:
  assumes "reaches C ss (stub E ctx obs others)"
    and "serve_logs E ctx i (Some follow) obs others (ss_srv ss) = (res, out, s')"
  shows "logsCmd C follow [i] ss =
    (case res of
       LogsReturn None \<Rightarrow> (ExitCode 0, say (concat out) (ss\<lparr>ss_srv := s'\<rparr>))
     | LogsReturn (Some st) \<Rightarrow>
         (ExitCode 1, say (concat out @ ''failed to read logs: '' @ diagMessage (ce_text C) (FromStatus st) @ nl)
           (ss\<lparr>ss_srv := s'\<rparr>))
     | _ \<Rightarrow> (Hangs, say (concat out) (ss\<lparr>ss_srv := s'\<rparr>)))"
  unfolding logsCmd_def connected_reaches[OF assms(1)]
  using assms(2)
  by (simp add: calling_def stub_def streamed_def recv_logs_result
      split: logs_result.splits option.splits)


definition abc_obs :: "read_obs list" where
  "abc_obs = [demo_obs ''ab'' False, demo_obs ''abc'' True, demo_obs ''abc'' True]"

lemma out_srv_streams:
  "fst (srv_Logs quiet_env (StoreAuthID [] ''bob'') ''x'' (Some True) abc_obs id out_srv) = LogsReturn None"
  by code_simp


end
