(* ===== verification/Job_Execution.thy ===== *)
theory Job_Execution
  imports Client_Service
begin

text \<open>
  From the command line of the client to the process of the job: what \<^verbatim>\<open>jctrl run\<close> asks for is
  what the shim runs.
\<close>

lemma process_command_line:
  assumes "createJob E cmd args lim i w = (Inr j, w')" and "int64 (UID i)" and "int64 (GID i)"
  shows "cmd_Path (job_cmd j) = ''/proc/self/exe'' \<and> cmd_Args (job_cmd j) = ''/proc/self/exe'' # cmdArgs j \<and>
    main_start 0 (cmdArgs j) = RunShim cmd args (cgroupInner j) (UID i) (GID i)"
proof -
  note j = createJob_result[OF assms(1)]
  have "int64 (UID (ids j))" "int64 (GID (ids j))" using j assms(2,3) by simp_all
  from shim_args_roundtrip[OF this] j show ?thesis by (simp add: defaultShimPath_def)
qed



end
