(* ===== verification/Service_Spec.thy ===== *)
theory Service_Spec
  imports Server_Main
begin

text \<open>
  What the service promises, without its mechanism: a map from the identifiers of jobs to
  their owner and to whether the job may still run. Every request, as the methods of
  \<^verbatim>\<open>src/pkg/server/server.go\<close> handle it, is a step of this specification.
\<close>

section \<open>The specification\<close>

type_synonym svc = "string \<rightharpoonup> string \<times> bool"

definition may :: "server_config \<Rightarrow> svc \<Rightarrow> string \<Rightarrow> string \<Rightarrow> access_type \<Rightarrow> bool" where
  "may cfg A u i a \<longleftrightarrow>
     (\<exists>w b. A i = Some (w, b) \<and>
        (u = w \<or> u \<in> set (su_FullAccess cfg) \<or> (a = ReadAccess \<and> u \<in> set (su_ReadAccess cfg))))"

inductive svc_step ::
  "server_config \<Rightarrow> string \<Rightarrow> request \<Rightarrow> rpc_status + response \<Rightarrow> svc \<Rightarrow> svc \<Rightarrow> bool" for cfg u where
  started: "svc_step cfg u (ReqStart q) (Inr (RespStart i)) A (A(i \<mapsto> (u, True)))" if "A i = None"
| not_started: "svc_step cfg u (ReqStart q) (Inl st) A A"
| denied: "svc_step cfg u req (Inl job_not_found) A A"
    if "req_job req = Some i" and "\<not> may cfg A u i (req_action req)"
| failed: "svc_step cfg u req (Inl (Status Internal e)) A A"
    if "req_job req = Some i" and "may cfg A u i (req_action req)"
      and "\<And>k. req \<noteq> ReqInspect k"
| stopped: "svc_step cfg u (ReqStop i m) (Inr RespStop) A (A(i \<mapsto> (w, m = STOP_MODE_GRACEFUL)))"
    if "may cfg A u i FullAccess" and "A i = Some (w, True)"
| removed: "svc_step cfg u (ReqRemove i) (Inr RespRemove) A (A(i := None))"
    if "may cfg A u i FullAccess" and "A i = Some (w, False)"
| inspected: "svc_step cfg u (ReqInspect i) (Inr (RespInspect d)) A A"
    if "may cfg A u i ReadAccess" and "A i = Some (w, b)"
      and "b \<longleftrightarrow> det_status d \<in> {STATUS_ACTIVE, STATUS_STOPPING}" and "b \<longrightarrow> det_exit_code d = 0"
| opened: "svc_step cfg u (ReqLogs i) (Inr (RespReader r rd)) A A"
    if "may cfg A u i ReadAccess" and "A i = Some (w, b)" and "rd_pos rd = 0"

text \<open>The state of the specification that a state of the service stands for.\<close>

definition svc_abs :: "jobServer \<Rightarrow> svc" where
  "svc_abs s i =
     (case (owners (srv_auth s) i, sup_entry (srv_jobs s) i) of
        (Some w, Some j) \<Rightarrow> Some (w, running (job_handler j))
      | _ \<Rightarrow> None)"

section \<open>The abstraction\<close>

lemma entry_iff_owner:
  assumes "srv_inv cfg s"
  shows "sup_entry (srv_jobs s) i = None \<longleftrightarrow> owners (srv_auth s) i = None"
proof -
  have "sup_sane (srv_jobs s)" and d: "dom (owners (srv_auth s)) = dom (map_of (jobs (srv_jobs s)))"
    using assms by (simp_all add: srv_inv_def)
  note e = sup_entry_None[OF this(1), of i]
  have "owners (srv_auth s) i \<noteq> None \<longleftrightarrow> map_of (jobs (srv_jobs s)) i \<noteq> None"
    using arg_cong[OF d, of "\<lambda>S. i \<in> S"] unfolding domIff .
  with e show ?thesis by blast
qed

lemma svc_abs_Some:
  assumes "srv_inv cfg s" and "owners (srv_auth s) i = Some w"
  obtains j where "sup_entry (srv_jobs s) i = Some j" "svc_abs s i = Some (w, running (job_handler j))"
proof -
  obtain j where j: "sup_entry (srv_jobs s) i = Some j" using entry_iff_owner[OF assms(1), of i] assms(2) by auto
  with assms(2) show thesis by (intro that[OF j]) (simp add: svc_abs_def)
qed

lemma allowed_iff_may:
  assumes "srv_inv cfg s"
  shows "acl_allowed (srv_auth s) u i a \<longleftrightarrow> may cfg (svc_abs s) u i a"
proof (cases "owners (srv_auth s) i")
  case None
  then show ?thesis by (simp add: acl_allowed_iff may_def svc_abs_def)
next
  case (Some w)
  obtain j where "sup_entry (srv_jobs s) i = Some j" "svc_abs s i = Some (w, running (job_handler j))"
    by (rule svc_abs_Some[OF assms Some])
  with Some assms show ?thesis by (simp add: acl_allowed_iff may_def srv_inv_def)
qed

lemma svc_abs_upd:
  assumes "\<And>i'. i' \<noteq> i \<Longrightarrow> sup_entry js i' = sup_entry (srv_jobs s) i'"
    and "owners (srv_auth s) i = Some w" and "sup_entry js i = Some j"
  shows "svc_abs (s\<lparr>srv_jobs := js\<rparr>) = (svc_abs s)(i \<mapsto> (w, running (job_handler j)))"
proof
  fix x show "svc_abs (s\<lparr>srv_jobs := js\<rparr>) x = ((svc_abs s)(i \<mapsto> (w, running (job_handler j)))) x"
    using assms(1)[of x] assms(2,3) by (cases "x = i") (simp_all add: svc_abs_def)
qed

section \<open>What the calls do to the entry\<close>

lemma entry_cases:
  assumes "sup_sane s" and "sup_entry s i = Some j"
  obtains r where "map_of (jobs s) i = Some r" "store s r = Some j"
  using assms by (auto simp: sup_entry_def split: option.splits)

lemma Stop_effect:
  assumes "sup_sane s" and "sup_entry s i = Some j" and "sup_Stop E i g s = (res, s')"
  shows "\<exists>j'. sup_entry s' i = Some j' \<and>
    (case res of Inl e \<Rightarrow> running (job_handler j') = running (job_handler j)
     | Inr _ \<Rightarrow> running (job_handler j) \<and> running (job_handler j') = g)"
proof -
  from assms(1,2) obtain r where r: "map_of (jobs s) i = Some r" "store s r = Some j" by (rule entry_cases)
  obtain x j' w' where m: "(if g then InitStop E (30 * time_Second) else job_Stop E) (j, sup_world s) = (x, (j', w'))"
    by (metis prod.exhaust)
  have s': "res = x" "s' = put_job r j' w' s"
    using assms(3) r m by (auto simp: sup_Stop_def with_ref_def on_job_def job_at_def split: if_splits)
  have "case x of Inl e \<Rightarrow> running (job_handler j') = running (job_handler j)
     | Inr _ \<Rightarrow> running (job_handler j) \<and> running (job_handler j') = g"
  proof (cases g)
    case True
    with m show ?thesis
      by (cases "job_handler j = activeHandler")
        (auto simp: InitStop_active InitStop_other split: prod.splits sum.splits)
  next
    case False
    with m show ?thesis
      by (cases "running (job_handler j)")
        (auto simp: job_Stop_running job_Stop_other split: prod.splits sum.splits)
  qed
  then show ?thesis using r s' by (simp add: sup_entry_def)
qed

lemma Logs_effect:
  assumes "sup_sane s" and "sup_entry s i = Some j" and "sup_Logs E i s = (res, s')"
  shows "\<exists>j'. sup_entry s' i = Some j' \<and> job_handler j' = job_handler j \<and>
    (\<forall>q rd. res = Inr (q, rd) \<longrightarrow> rd_pos rd = 0)"
proof -
  from assms(1,2) obtain r where r: "map_of (jobs s) i = Some r" "store s r = Some j" by (rule entry_cases)
  obtain x j' w' where m: "job_Logs E (j, sup_world s) = (x, (j', w'))" by (metis prod.exhaust)
  have s': "s' = put_job r j' w' s" "res = map_sum id (\<lambda>rd. (r, rd)) x"
    using assms(3) r m
    by (auto simp: sup_Logs_def with_ref_def sm_bind_def on_job_def job_at_def sm_ret_def split: sum.splits)
  have "job_handler j' = job_handler j" "\<forall>rd. x = Inr rd \<longrightarrow> rd_pos rd = 0"
    using m by (auto simp: job_Logs_eq split: if_splits prod.splits sum.splits)
  then show ?thesis using r s' by (cases x) (auto simp: sup_entry_def)
qed

lemma Inspect_effect:
  assumes "sup_sane s" and "sup_entry s i = Some j"
  shows "\<exists>c. sup_Inspect i s = (Inr (h_status (job_handler j), c, strings_Join (Command j # job_Args j) '' ''), s) \<and>
    (running (job_handler j) \<longrightarrow> c = 0)"
proof -
  from assms obtain r where r: "map_of (jobs s) i = Some r" "store s r = Some j" by (rule entry_cases)
  have "running (job_handler j) \<longleftrightarrow> h_status (job_handler j) = StatusActive \<or> h_status (job_handler j) = StatusStopping"
    by (cases "job_handler j") (simp_all add: status_defs)
  with r show ?thesis
    by (auto simp: sup_Inspect_def with_ref_def job_at_def job_Status_def Let_def)
qed

lemma shown_status:
  "fromJobStatus (h_status h) \<in> {STATUS_ACTIVE, STATUS_STOPPING} \<longleftrightarrow> running h"
  by (cases h) (simp_all add: fromJobStatus_def status_defs pb_status_defs)

section \<open>Refinement\<close>

text \<open>What a permitted call on a registered job does, and then call by call.\<close>

lemma permitted_call:
  assumes sane: "sup_sane (srv_jobs s)" and w: "owners (srv_auth s) i = Some w"
    and j: "sup_entry (srv_jobs s) i = Some j"
    and call: "sup_call E op i (srv_jobs s) = (Ret r, js)"
  shows "sup_entry js i = Some j' \<Longrightarrow>
      svc_abs (s\<lparr>srv_jobs := js\<rparr>) = (svc_abs s)(i \<mapsto> (w, running (job_handler j')))"
    and "sup_entry js i = Some j' \<Longrightarrow> running (job_handler j') = running (job_handler j) \<Longrightarrow>
      svc_abs (s\<lparr>srv_jobs := js\<rparr>) = svc_abs s"
    and "r = Inl e \<Longrightarrow> to_status e = Status Internal e"
proof -
  have others: "sup_entry js i' = sup_entry (srv_jobs s) i'" if "i' \<noteq> i" for i'
    using sup_call_others[OF sane call that] .
  show upd: "svc_abs (s\<lparr>srv_jobs := js\<rparr>) = (svc_abs s)(i \<mapsto> (w, running (job_handler j')))"
    if "sup_entry js i = Some j'" for j'
    by (rule svc_abs_upd[OF _ w that]) (rule others)
  show "to_status e = Status Internal e" if "r = Inl e"
    using sup_call_error[OF sane] call that j by (auto simp: to_status_def sup_entry_def split: option.splits)
  show "svc_abs (s\<lparr>srv_jobs := js\<rparr>) = svc_abs s"
    if "sup_entry js i = Some j'" "running (job_handler j') = running (job_handler j)" for j'
    using upd[OF that(1)] that(2) w j by (simp add: fun_upd_idem svc_abs_def)
qed

lemma stop_call_step:
  assumes sane: "sup_sane (srv_jobs s)" and w: "owners (srv_auth s) i = Some w"
    and j: "sup_entry (srv_jobs s) i = Some j"
    and may: "may cfg (svc_abs s) u i FullAccess"
    and call: "sup_Stop E i (m = STOP_MODE_GRACEFUL) (srv_jobs s) = (x, js)"
  shows "svc_step cfg u (ReqStop i m) (map_sum to_status (\<lambda>_. RespStop) x) (svc_abs s) (svc_abs (s\<lparr>srv_jobs := js\<rparr>))"
proof -
  note P = permitted_call[OF sane w j, where op = "OpStop (m = STOP_MODE_GRACEFUL)" and E = E and js = js]
  from Stop_effect[OF sane j call] obtain j' where j': "sup_entry js i = Some j'"
    "case x of Inl e \<Rightarrow> running (job_handler j') = running (job_handler j)
      | Inr _ \<Rightarrow> running (job_handler j) \<and> running (job_handler j') = (m = STOP_MODE_GRACEFUL)" by blast
  show ?thesis
  proof (cases x)
    case (Inl e)
    with j' P(2,3) call may show ?thesis by (auto intro!: svc_step.failed)
  next
    case (Inr y)
    with j' P(1)[OF _ j'(1)] call w j
    have "svc_abs (s\<lparr>srv_jobs := js\<rparr>) = (svc_abs s)(i \<mapsto> (w, m = STOP_MODE_GRACEFUL))"
      "svc_abs s i = Some (w, True)" by (simp_all add: svc_abs_def)
    with may Inr show ?thesis using svc_step.stopped[of cfg "svc_abs s" u i w m] by simp
  qed
qed

lemma remove_call_step:
  assumes sane: "sup_sane (srv_jobs s)" and w: "owners (srv_auth s) i = Some w"
    and j: "sup_entry (srv_jobs s) i = Some j"
    and may: "may cfg (svc_abs s) u i FullAccess" and call: "sup_Remove E i (srv_jobs s) = (Ret x, js)"
  shows "svc_step cfg u (ReqRemove i) (map_sum to_status (\<lambda>_. RespRemove) x) (svc_abs s)
    (svc_abs (if isl x then s\<lparr>srv_jobs := js\<rparr> else s\<lparr>srv_jobs := js, srv_auth := acl_disown i (srv_auth s)\<rparr>))"
proof -
  note P = permitted_call[OF sane w j, where op = OpRemove and E = E and js = js]
  note R = Remove_result[OF sane call]
  show ?thesis
  proof (cases x)
    case (Inl e)
    with R have "map_of (jobs js) = map_of (jobs (srv_jobs s))" "store js = store (srv_jobs s)" by simp_all
    then have "sup_entry js i = Some j" using j by (simp add: sup_entry_def cong: option.case_cong)
    with Inl P(2,3) call may show ?thesis by (auto intro!: svc_step.failed)
  next
    case (Inr y)
    with R j have "\<not> running (job_handler j)" "map_of (jobs js) i = None"
      by (auto simp: sup_entry_def)
    moreover have "svc_abs (s\<lparr>srv_jobs := js, srv_auth := acl_disown i (srv_auth s)\<rparr>) = (svc_abs s)(i := None)"
    proof
      fix n show "svc_abs (s\<lparr>srv_jobs := js, srv_auth := acl_disown i (srv_auth s)\<rparr>) n = ((svc_abs s)(i := None)) n"
        using sup_call_others[of "srv_jobs s" E OpRemove i "Ret (map_sum id (\<lambda>_. RepDone) x)" js n] sane call
        by (cases "n = i") (simp_all add: svc_abs_def acl.owner_disown)
    qed
    moreover have "svc_abs s i = Some (w, running (job_handler j))" using w j by (simp add: svc_abs_def)
    ultimately show ?thesis
      using Inr may svc_step.removed[of cfg "svc_abs s" u i w] by simp
  qed
qed

lemma logs_call_step:
  assumes sane: "sup_sane (srv_jobs s)" and w: "owners (srv_auth s) i = Some w"
    and j: "sup_entry (srv_jobs s) i = Some j"
    and may: "may cfg (svc_abs s) u i ReadAccess" and call: "sup_Logs E i (srv_jobs s) = (x, js)"
  shows "svc_step cfg u (ReqLogs i) (map_sum to_status (\<lambda>(q, rd). RespReader q rd) x) (svc_abs s) (svc_abs (s\<lparr>srv_jobs := js\<rparr>))"
proof -
  note P = permitted_call[OF sane w j, where op = OpLogs and E = E and js = js]
  from Logs_effect[OF sane j call] obtain j' where j': "sup_entry js i = Some j'" "job_handler j' = job_handler j"
    "\<forall>q rd. x = Inr (q, rd) \<longrightarrow> rd_pos rd = 0" by blast
  have s: "svc_abs (s\<lparr>srv_jobs := js\<rparr>) = svc_abs s" using P(2)[OF _ j'(1)] call j'(2) by simp
  show ?thesis
  proof (cases x)
    case (Inl e)
    with s P(3) call may show ?thesis by (auto intro!: svc_step.failed)
  next
    case (Inr y)
    moreover have "svc_abs s i = Some (w, running (job_handler j))" using w j by (simp add: svc_abs_def)
    ultimately show ?thesis using s may j'(3) by (cases y) (auto intro!: svc_step.opened)
  qed
qed

lemma call_step_at:
  assumes sane: "sup_sane (srv_jobs s)"
    and su: "superUsers (srv_auth s) = set (su_FullAccess cfg)" "superReadUsers (srv_auth s) = set (su_ReadAccess cfg)"
    and w: "owners (srv_auth s) i = Some w" and j: "sup_entry (srv_jobs s) i = Some j"
    and i: "req_job req = Some i" and ok: "acl_allowed (srv_auth s) u i (req_action req)"
    and call: "sup_call E (req_op req) i (srv_jobs s) = (Ret r, js)"
    and res: "(res, s') = (case r of
        Inl e \<Rightarrow> (Inl (to_status e), s\<lparr>srv_jobs := js\<rparr>)
      | Inr rep \<Rightarrow> (Inr (to_response req rep),
          if req_op req = OpRemove then s\<lparr>srv_jobs := js, srv_auth := acl_disown i (srv_auth s)\<rparr>
          else s\<lparr>srv_jobs := js\<rparr>))"
  shows "svc_step cfg u req res (svc_abs s) (svc_abs s')"
proof -
  have ab: "svc_abs s i = Some (w, running (job_handler j))" using j w by (simp add: svc_abs_def)
  then have may: "may cfg (svc_abs s) u i (req_action req)"
    using ok w su by (simp add: acl_allowed_iff may_def)
  show ?thesis
  proof (cases req)
    case (ReqStop k m)
    with i have k: "k = i" by simp
    obtain x where x: "sup_Stop E i (m = STOP_MODE_GRACEFUL) (srv_jobs s) = (x, js)" "r = map_sum id (\<lambda>_. RepDone) x"
      using call ReqStop by (auto split: prod.splits)
    from stop_call_step[OF sane w j _ x(1)] may res x(2) ReqStop k show ?thesis by (cases x) auto
  next
    case (ReqRemove k)
    with i have k: "k = i" by simp
    obtain x where x: "sup_Remove E i (srv_jobs s) = (Ret x, js)" "r = map_sum id (\<lambda>_. RepDone) x"
      using call ReqRemove by (auto split: prod.splits outcome.splits)
    from remove_call_step[OF sane w j _ x(1)] may res x(2) ReqRemove k show ?thesis by (cases x) auto
  next
    case (ReqInspect k)
    with i have k: "k = i" by simp
    obtain c where x: "sup_Inspect i (srv_jobs s) =
        (Inr (h_status (job_handler j), c, strings_Join (Command j # job_Args j) '' ''), srv_jobs s)"
      and c: "running (job_handler j) \<longrightarrow> c = 0" using Inspect_effect[OF sane j] by blast
    have "js = srv_jobs s" "r = Inr (RepDetails (h_status (job_handler j)) c (strings_Join (Command j # job_Args j) '' ''))"
      using call ReqInspect x by simp_all
    with res ReqInspect k may ab c show ?thesis
      by (auto intro!: svc_step.inspected simp: shown_status[symmetric])
  next
    case (ReqLogs k)
    with i have k: "k = i" by simp
    obtain x where x: "sup_Logs E i (srv_jobs s) = (x, js)" "r = map_sum id (\<lambda>(q, rd). RepReader q rd) x"
      using call ReqLogs by (auto split: prod.splits)
    from logs_call_step[OF sane w j _ x(1)] may res x(2) ReqLogs k show ?thesis by (cases x) auto
  qed (use i in simp)
qed

lemma call_step:
  assumes inv: "srv_inv cfg s" and i: "req_job req = Some i"
    and ok: "acl_allowed (srv_auth s) u i (req_action req)"
    and call: "sup_call E (req_op req) i (srv_jobs s) = (Ret r, js)"
    and res: "(res, s') = (case r of
        Inl e \<Rightarrow> (Inl (to_status e), s\<lparr>srv_jobs := js\<rparr>)
      | Inr rep \<Rightarrow> (Inr (to_response req rep),
          if req_op req = OpRemove then s\<lparr>srv_jobs := js, srv_auth := acl_disown i (srv_auth s)\<rparr>
          else s\<lparr>srv_jobs := js\<rparr>))"
  shows "svc_step cfg u req res (svc_abs s) (svc_abs s')"
proof -
  obtain w where w: "owners (srv_auth s) i = Some w" using ok by (auto simp: acl_allowed_iff)
  obtain j where j: "sup_entry (srv_jobs s) i = Some j" by (rule svc_abs_Some[OF inv w])
  from inv have "sup_sane (srv_jobs s)" "superUsers (srv_auth s) = set (su_FullAccess cfg)"
    "superReadUsers (srv_auth s) = set (su_ReadAccess cfg)" by (simp_all add: srv_inv_def)
  from call_step_at[OF this w j i ok call res] show ?thesis .
qed

lemma start_step:
  assumes inv: "srv_inv cfg s" and cl: "good_client ctx u" and gi: "good_id E s x"
    and run: "srv_Start E ctx q s = (Ret r, s')"
  shows "svc_step cfg u (ReqStart q) (map_sum id RespStart r) (svc_abs s) (svc_abs s')"
proof -
  let ?js = "srv_jobs s"
  have id: "authID ctx = (u, True)" "trim_space u = u" "u \<noteq> []" using cl by (simp_all add: good_client_def)
  have x: "x = os_xid E (trace (sup_world ?js))" "trim_space x = x" "x \<noteq> []"
    and new: "\<forall>r j. store ?js r = Some j \<longrightarrow> ID j \<noteq> x"
    using gi unfolding good_id_def by blast+
  obtain lim where l: "toJobLimits (req_Limits q) = Ret lim"
    using run id by (auto simp: srv_Start_def split: outcome.splits)
  obtain y js where st: "sup_Start E (req_Command q) (req_Args q) lim ?js = (y, js)" by (metis prod.exhaust)
  show ?thesis
  proof (cases y)
    case (Inl e)
    then obtain w where js: "js = ?js\<lparr>sup_world := w\<rparr>"
      using st by (auto simp: sup_Start_def split: prod.splits sum.splits)
    have "r = Inl (to_status e)" "s' = s\<lparr>srv_jobs := js\<rparr>"
      using run id l st Inl by (auto simp: srv_Start_def)
    moreover have "sup_entry js i = sup_entry ?js i" for i
      unfolding js by (simp add: sup_entry_def split: option.splits)
    then have "svc_abs (s\<lparr>srv_jobs := js\<rparr>) = svc_abs s" by (simp add: svc_abs_def fun_eq_iff)
    ultimately show ?thesis by (simp add: svc_step.not_started)
  next
    case (Inr jid)
    have r: "r = Inr jid" and s': "s' = s\<lparr>srv_jobs := js, srv_auth := acl_own jid u (srv_auth s)\<rparr>"
      using run id l st Inr by (auto simp: srv_Start_def acl_own_def)
    have st: "sup_Start E (req_Command q) (req_Args q) lim ?js = (Inr jid, js)" using st Inr by simp
    have jid: "jid = x" using sup_Start_frame(1)[OF st] x by simp
    have sane: "sup_sane ?js" using inv by (simp add: srv_inv_def)
    obtain j where j: "fresh_job j" "\<And>n. sup_entry js n = (if n = jid then Some j else sup_entry ?js n)"
      using sup_Start_entry[OF sane st] by blast
    have own: "owners (srv_auth s') = (owners (srv_auth s))(x \<mapsto> u)"
      using acl.owner_own[of jid u "srv_auth s"] x id jid by (simp add: s')
    have "svc_abs s' = (svc_abs s)(x \<mapsto> (u, True))"
      using own j jid by (auto simp: svc_abs_def s' fresh_job_def)
    moreover have "svc_abs s x = None" using sup_entry_new[OF sane new] by (simp add: svc_abs_def split: option.splits)
    ultimately show ?thesis using svc_step.started[of "svc_abs s" x cfg u q] r jid by simp
  qed
qed

lemma request_step:
  assumes inv: "srv_inv cfg s" and cl: "good_client ctx u" and gi: "good_id E s x"
    and run: "srv_handle E ctx req s = (Ret res, s')"
  shows "svc_step cfg u req res (svc_abs s) (svc_abs s')"
proof (cases "req_job req")
  case None
  then obtain q where q: "req = ReqStart q" by (cases req) auto
  then obtain r where "srv_Start E ctx q s = (Ret r, s')" "res = map_sum id RespStart r"
    using run by (cases "srv_Start E ctx q s"; cases "fst (srv_Start E ctx q s)") (auto simp: resp_def)
  with start_step[OF inv cl gi] q show ?thesis by simp
next
  case (Some i)
  have id: "authID ctx = (u, True)" using cl by (simp add: good_client_def)
  show ?thesis
  proof (cases "acl_allowed (srv_auth s) u i (req_action req)")
    case False
    with allowed_iff_may[OF inv] have "\<not> may cfg (svc_abs s) u i (req_action req)" by simp
    with False Some run show ?thesis by (auto simp: srv_handle_call[OF id Some] intro: svc_step.denied)
  next
    case True
    obtain r js where c: "sup_call E (req_op req) i (srv_jobs s) = (Ret r, js)"
      using run True by (auto simp: srv_handle_call[OF id Some] split: prod.splits outcome.splits)
    show ?thesis
      by (rule call_step[OF inv Some True c])
        (use run True c in \<open>cases r; simp add: srv_handle_call[OF id Some]\<close>)
  qed
qed

text \<open>
  C2. The service refines its specification. It starts without jobs; every request that is
  answered, in any reachable state, is a step of the specification with the same answer
  (a job is started for its client, only those who may are answered with anything but
  not-found, a stop succeeds only on a job that runs, a removal only on one that does not,
  an error changes nothing, an answer shows whether the job runs); and what the goroutines
  of the jobs do in between can only end a running job.
\<close>

theorem service_refines_spec:
  assumes "srv_reach E cfg s" and "good_client ctx u" and "good_id E s x"
    and "srv_handle E ctx req s = (Ret res, s')"
  shows "(\<forall>w s0. srv_New cfg w = Inr s0 \<longrightarrow> svc_abs s0 = Map.empty) \<and>
    svc_step cfg u req res (svc_abs s) (svc_abs s') \<and>
    (\<forall>i r j j' w v. map_of (jobs (srv_jobs s)) i = Some r \<and> store (srv_jobs s) r = Some j \<and> follows j j' \<and>
       svc_abs s i = Some v \<longrightarrow>
       svc_abs (s\<lparr>srv_jobs := put_job r j' w (srv_jobs s)\<rparr>) \<in> {svc_abs s, (svc_abs s)(i \<mapsto> (fst v, False))})"
proof (intro conjI allI impI; (elim conjE)?)
  note inv = srv_reach_inv[OF assms(1)]
  show "svc_step cfg u req res (svc_abs s) (svc_abs s')" by (rule request_step[OF inv assms(2-4)])
  show "svc_abs s0 = Map.empty" if "srv_New cfg w = Inr s0" for w s0
    using that by (auto simp: srv_New_result svc_abs_def fun_eq_iff split: option.splits)
  fix i r j j' w v
  assume a: "map_of (jobs (srv_jobs s)) i = Some r" "store (srv_jobs s) r = Some j" "follows j j'" "svc_abs s i = Some v"
  have sane: "sup_sane (srv_jobs s)" using inv by (simp add: srv_inv_def)
  obtain o' where o: "owners (srv_auth s) i = Some o'" "v = (o', running (job_handler j))"
    using a by (auto simp: svc_abs_def sup_entry_def split: option.splits)
  have "svc_abs (s\<lparr>srv_jobs := put_job r j' w (srv_jobs s)\<rparr>) = (svc_abs s)(i \<mapsto> (o', running (job_handler j')))"
    by (rule svc_abs_upd[OF _ o(1)]) (use entry_put[OF sane a(1)] a(1) in \<open>simp_all add: sup_entry_def\<close>)
  then show "svc_abs (s\<lparr>srv_jobs := put_job r j' w (srv_jobs s)\<rparr>) \<in> {svc_abs s, (svc_abs s)(i \<mapsto> (fst v, False))}"
    using a(3,4) o by (cases "running (job_handler j')") (auto simp: follows_def fun_upd_idem)
qed

theorem service_refines_spec_witness:
  "svc_step demo_config ''bob'' (ReqStart demo_request) (Inr (RespStart ''x''))
     (svc_abs new_srv)
     (svc_abs (new_srv\<lparr>srv_jobs := demo_start, srv_auth := acl_own ''x'' ''bob'' (srv_auth new_srv)\<rparr>))"
proof -
  have r: "srv_reach (mounts_env [] []) demo_config new_srv" using srv_reach.new[OF demo_srv_New] .
  have trim: "trim_space ''bob'' = ''bob''" "trim_space ''x'' = ''x''" by code_simp+
  have g: "good_id (mounts_env [] []) new_srv ''x''"
    using trim by (simp add: good_id_def mounts_env_def new_srv_def sup_New_def)
  have c: "good_client (StoreAuthID [] ''bob'') ''bob''" using trim by (simp add: good_client_def)
  have h: "srv_handle (mounts_env [] []) (StoreAuthID [] ''bob'') (ReqStart demo_request) new_srv =
     (Ret (Inr (RespStart ''x'')),
      new_srv\<lparr>srv_jobs := demo_start, srv_auth := acl_own ''x'' ''bob'' (srv_auth new_srv)\<rparr>)"
    using demo_srv_start[OF authID_Store] by (simp add: resp_def)
  from service_refines_spec[OF r c g h] show ?thesis by blast
qed

section \<open>The types of the answers\<close>

text \<open>
  The answer a client may expect of each request: a status with one of three codes, or the
  response that belongs to the request, whose status is a value of the enumeration. Only a
  removal may wait, and nothing panics.
\<close>

fun status_typed :: "rpc_status \<Rightarrow> bool" where
  "status_typed (Status c e) \<longleftrightarrow> c \<in> {Unauthenticated, NotFound, Internal}"

fun response_typed :: "request \<Rightarrow> response \<Rightarrow> bool" where
  "response_typed (ReqStart q) (RespStart i) \<longleftrightarrow> True"
| "response_typed (ReqStop i m) RespStop \<longleftrightarrow> True"
| "response_typed (ReqRemove i) RespRemove \<longleftrightarrow> True"
| "response_typed (ReqInspect i) (RespInspect d) \<longleftrightarrow>
     det_status d \<in> {STATUS_UNSPECIFIED, STATUS_ACTIVE, STATUS_STOPPING, STATUS_STOPPED, STATUS_ENDED} \<and>
     (det_status d \<in> {STATUS_ACTIVE, STATUS_STOPPING} \<longrightarrow> det_exit_code d = 0)"
| "response_typed (ReqLogs i) (RespReader r rd) \<longleftrightarrow> rd_pos rd = 0"
| "response_typed _ _ \<longleftrightarrow> False"

fun answer_typed :: "request \<Rightarrow> (rpc_status + response) outcome \<Rightarrow> bool" where
  "answer_typed req (Ret (Inl st)) \<longleftrightarrow> status_typed st"
| "answer_typed req (Ret (Inr r)) \<longleftrightarrow> response_typed req r"
| "answer_typed req Block \<longleftrightarrow> (\<exists>i. req = ReqRemove i)"
| "answer_typed req (Panic m) \<longleftrightarrow> False"

lemma to_status_typed [simp]: "status_typed (to_status e)"
  by (simp add: to_status_def job_not_found_def)

lemma status_typed_simps [simp]:
  "status_typed job_not_found" "status_typed invalid_client" "status_typed internal_error" "status_typed no_dn"
  by (simp_all add: job_not_found_def invalid_client_def internal_error_def no_dn_def)

lemma Inspect_typed:
  assumes "sup_Inspect i s = (Inr (st, c, t), s')"
  shows "st \<in> {StatusActive, StatusStopping} \<longrightarrow> c = 0"
  using assms by (auto simp: sup_Inspect_def with_ref_def job_Status_def Let_def split: option.splits if_splits prod.splits)

lemma fromJobStatus_typed:
  "fromJobStatus st \<in> {STATUS_UNSPECIFIED, STATUS_ACTIVE, STATUS_STOPPING, STATUS_STOPPED, STATUS_ENDED}"
  "fromJobStatus st \<in> {STATUS_ACTIVE, STATUS_STOPPING} \<longleftrightarrow> st \<in> {StatusActive, StatusStopping}"
  by (auto simp: fromJobStatus_def pb_status_defs status_defs)


end
