(* ===== verification/Client_Spec.thy ===== *)
theory Client_Spec
  imports Client_Service Service_Spec
begin

text \<open>
  The commands of the client against the specification of the service. \<open>job_service\<close> is the
  interface the commands rely on: every call of the stub that returns is a step of the
  specification. It is interpreted on the stub of the running service.
\<close>

section \<open>Commands and requests\<close>

fun cmd_request :: "subcommand \<Rightarrow> string \<Rightarrow> string list \<Rightarrow> request" where
  "cmd_request (CmdRun fl) a as = ReqStart \<lparr>req_Command = a, req_Args = as,
     req_Limits = Some \<lparr>Memory = memLimit fl, Cpus = cpuLimit fl, Io = ioLimit fl\<rparr>\<rparr>"
| "cmd_request (CmdStop force) a as = ReqStop a (if force then STOP_MODE_IMMEDIATE else STOP_MODE_GRACEFUL)"
| "cmd_request CmdRm a as = ReqRemove a"
| "cmd_request CmdInspect a as = ReqInspect a"
| "cmd_request _ a as = ReqLogs a"

fun shown :: "string \<Rightarrow> response \<Rightarrow> string" where
  "shown a (RespStart i) = i @ nl"
| "shown a (RespInspect d) = inspect_text a d"
| "shown a _ = []"

definition one_call :: "subcommand \<Rightarrow> bool" where
  "one_call cmd \<longleftrightarrow> (case cmd of CmdConfig \<Rightarrow> False | CmdLogs f \<Rightarrow> False | _ \<Rightarrow> True)"

section \<open>The interface\<close>

locale job_service =
  fixes cl :: "'s JobServiceClient"
    and abs :: "'s \<Rightarrow> svc"
    and ok :: "'s \<Rightarrow> bool"
    and cfg :: server_config
    and u :: string
  assumes start: "ok s \<Longrightarrow> rpc_Start cl q s = (Ret r, s') \<Longrightarrow>
      \<exists>a. r = map_sum FromStatus id a \<and> svc_step cfg u (ReqStart q) (map_sum id RespStart a) (abs s) (abs s')"
    and stop: "ok s \<Longrightarrow> rpc_Stop cl i m s = (Ret r', s') \<Longrightarrow>
      \<exists>a. r' = map_sum FromStatus id a \<and> svc_step cfg u (ReqStop i m) (map_sum id (\<lambda>_. RespStop) a) (abs s) (abs s')"
    and remove: "ok s \<Longrightarrow> rpc_Remove cl i s = (Ret r', s') \<Longrightarrow>
      \<exists>a. r' = map_sum FromStatus id a \<and> svc_step cfg u (ReqRemove i) (map_sum id (\<lambda>_. RespRemove) a) (abs s) (abs s')"
    and inspect: "ok s \<Longrightarrow> rpc_Inspect cl i s = (Ret d, s') \<Longrightarrow>
      \<exists>a. d = map_sum FromStatus id a \<and> svc_step cfg u (ReqInspect i) (map_sum id RespInspect a) (abs s) (abs s')"
begin

lemma calling_step:
  assumes run: "calling t failed c body ss = (ExitCode n, ss')"
    and call: "\<And>r s'. c (ss_srv ss) = (Ret r, s') \<Longrightarrow>
      \<exists>a. r = map_sum FromStatus id a \<and> svc_step cfg u req (map_sum id f a) (abs (ss_srv ss)) (abs s')"
    and body: "\<And>x s'. body x (ss\<lparr>ss_srv := s'\<rparr>) = (ExitCode 0, say (shown k (f x)) (ss\<lparr>ss_srv := s'\<rparr>))"
  shows "\<exists>ans. svc_step cfg u req ans (abs (ss_srv ss)) (abs (ss_srv ss')) \<and>
    (case ans of
       Inr r \<Rightarrow> n = 0 \<and> ss_out ss' = ss_out ss @ shown k r \<and> ss_err ss' = ss_err ss
     | Inl st \<Rightarrow> n = 1 \<and> ss_out ss' = ss_out ss \<and>
         ss_err ss' = ss_err ss @ failed @ diagMessage t (FromStatus st) @ nl)"
proof -
  obtain r s' where r: "c (ss_srv ss) = (Ret r, s')"
    using run by (auto simp: calling_def split: prod.splits outcome.splits)
  then obtain a where a: "r = map_sum FromStatus id a"
    "svc_step cfg u req (map_sum id f a) (abs (ss_srv ss)) (abs s')" using call by blast
  show ?thesis
  proof (cases a)
    case (Inl st)
    with run r a show ?thesis
      by (intro exI[of _ "Inl st"]) (auto simp: calling_def fail_with_def)
  next
    case (Inr x)
    with run r a body show ?thesis
      by (intro exI[of _ "Inr (f x)"]) (auto simp: calling_def)
  qed
qed

lemma command_step:
  assumes "ok (ss_srv ss)" and "reaches C ss cl" and "one_call cmd"
    and "subcommand_run C cmd (a # as) ss = (ExitCode n, ss')"
  shows "\<exists>failed ans. svc_step cfg u (cmd_request cmd a as) ans (abs (ss_srv ss)) (abs (ss_srv ss')) \<and>
    (case ans of
       Inr r \<Rightarrow> n = 0 \<and> ss_out ss' = ss_out ss @ shown a r \<and> ss_err ss' = ss_err ss
     | Inl st \<Rightarrow> n = 1 \<and> ss_out ss' = ss_out ss \<and>
         ss_err ss' = ss_err ss @ failed @ diagMessage (ce_text C) (FromStatus st) @ nl)"
proof (cases cmd)
  case (CmdRun fl)
  note run = assms(4)[unfolded CmdRun subcommand_run.simps runCmd_def connected_reaches[OF assms(2)]]
  show ?thesis unfolding CmdRun cmd_request.simps
    by (rule exI[of _ "''failed to start the job: ''"], rule calling_step[OF run start[OF assms(1)]])
      (simp_all add: done_with_def)
next
  case (CmdStop force)
  note run = assms(4)[unfolded CmdStop subcommand_run.simps stopCmd_def connected_reaches[OF assms(2)]]
  show ?thesis unfolding CmdStop cmd_request.simps
    by (rule exI[of _ "''failed to stop the job: ''"], rule calling_step[OF run stop[OF assms(1)]])
      (simp_all add: done_with_def)
next
  case CmdRm
  note run = assms(4)[unfolded CmdRm subcommand_run.simps rmCmd_def connected_reaches[OF assms(2)]]
  show ?thesis unfolding CmdRm cmd_request.simps
    by (rule exI[of _ "''failed to stop the job: ''"], rule calling_step[OF run remove[OF assms(1)]])
      (simp_all add: done_with_def)
next
  case CmdInspect
  note run = assms(4)[unfolded CmdInspect subcommand_run.simps inspectCmd_def connected_reaches[OF assms(2)]]
  show ?thesis unfolding CmdInspect cmd_request.simps
    by (rule exI[of _ "''failed to inspect: ''"], rule calling_step[OF run inspect[OF assms(1)]])
      (simp_all add: done_with_def)
qed (use assms(3) in \<open>simp_all add: one_call_def\<close>)

end

section \<open>The running service provides it\<close>

definition stub_ok :: "os_env \<Rightarrow> grpc_ctx \<Rightarrow> server_config \<Rightarrow> string \<Rightarrow> jobServer \<Rightarrow> bool" where
  "stub_ok E ctx cfg u s \<longleftrightarrow>
     srv_inv cfg s \<and> (\<exists>x. good_id E s x) \<and> identified ctx u \<and> trim_space u = u \<and> u \<noteq> []"

lemma stub_call:
  assumes ok: "stub_ok E ctx cfg u s" and run: "unary (interceptor h ctx) s = (Ret r, s')"
    and h: "\<And>v. apfst (resp f) (h (StoreAuthID v u) s) = srv_handle E (StoreAuthID v u) req s"
    and panic: "\<And>v m s1. h (StoreAuthID v u) s \<noteq> (Panic m, s1)"
  shows "\<exists>a. r = map_sum FromStatus id a \<and> svc_step cfg u req (map_sum id f a) (svc_abs s) (svc_abs s')"
proof -
  have id: "identified ctx u" and inv: "srv_inv cfg s" using ok by (simp_all add: stub_ok_def)
  obtain x where x: "good_id E s x" using ok by (auto simp: stub_ok_def)
  have good: "good_client (StoreAuthID (ctx_vals ctx) u) u" using ok by (simp add: stub_ok_def good_client_def)
  obtain a where a: "h (StoreAuthID (ctx_vals ctx) u) s = (Ret a, s')" "r = map_sum FromStatus id a"
    using run panic unfolding unary_identified[OF id] by (auto split: prod.splits outcome.splits)
  have "srv_handle E (StoreAuthID (ctx_vals ctx) u) req s = (Ret (map_sum id f a), s')"
    unfolding h[symmetric] a(1) by (simp add: resp_def)
  from request_step[OF inv good x this] a(2) show ?thesis by blast
qed

lemma Remove_no_panic: "sup_Remove E i s \<noteq> (Panic m, s')"
  by (auto simp: sup_Remove_def cleanup_or_add_def on_job_outcome_def job_Cleanup_eq
      split: prod.splits sum.splits outcome.splits if_splits)

interpretation cli: job_service "stub E ctx obs others" svc_abs "stub_ok E ctx cfg u" cfg u
  for E ctx obs others cfg u
proof
  fix s r s' q
  assume ok: "stub_ok E ctx cfg u s" and run: "rpc_Start (stub E ctx obs others) q s = (Ret r, s')"
  show "\<exists>a. r = map_sum FromStatus id a \<and> svc_step cfg u (ReqStart q) (map_sum id RespStart a) (svc_abs s) (svc_abs s')"
  proof (cases "req_Limits q")
    case None
    have id: "identified ctx u" using ok by (simp add: stub_ok_def)
    have "r = Inl (FromStatus internal_error)" "s' = s"
      using run None by (simp_all add: stub_def unary_identified[OF id] srv_Start_def toJobLimits_def)
    then show ?thesis by (intro exI[of _ "Inl internal_error"]) (simp add: svc_step.not_started)
  next
    case (Some l)
    from run show ?thesis
      by (intro stub_call[OF ok, where h = "\<lambda>c. srv_Start E c q"])
        (use Some in \<open>auto simp: stub_def srv_Start_def toJobLimits_def split: prod.splits sum.splits\<close>)
  qed
next
  fix s r s' i m
  assume ok: "stub_ok E ctx cfg u s" and run: "rpc_Stop (stub E ctx obs others) i m s = (Ret r, s')"
  then show "\<exists>a. r = map_sum FromStatus id a \<and> svc_step cfg u (ReqStop i m) (map_sum id (\<lambda>_. RespStop) a) (svc_abs s) (svc_abs s')"
    by (intro stub_call[OF ok, where h = "\<lambda>c. srv_Stop E c i m"])
      (auto simp: stub_def srv_Stop_def srv_reply_def split: prod.splits sum.splits)
next
  fix s r s' i
  assume ok: "stub_ok E ctx cfg u s" and run: "rpc_Remove (stub E ctx obs others) i s = (Ret r, s')"
  then show "\<exists>a. r = map_sum FromStatus id a \<and> svc_step cfg u (ReqRemove i) (map_sum id (\<lambda>_. RespRemove) a) (svc_abs s) (svc_abs s')"
    by (intro stub_call[OF ok, where h = "\<lambda>c. srv_Remove E c i"])
      (auto simp: stub_def srv_Remove_def Remove_no_panic split: prod.splits sum.splits outcome.splits)
next
  fix s r s' i
  assume ok: "stub_ok E ctx cfg u s" and run: "rpc_Inspect (stub E ctx obs others) i s = (Ret r, s')"
  then show "\<exists>a. r = map_sum FromStatus id a \<and> svc_step cfg u (ReqInspect i) (map_sum id RespInspect a) (svc_abs s) (svc_abs s')"
    by (intro stub_call[OF ok, where h = "\<lambda>c. srv_Inspect c i"])
      (auto simp: stub_def srv_Inspect_def split: prod.splits sum.splits)
qed

text \<open>
  C3. The commands implement the specification of the service for their user: a command that
  makes one call and returns has taken one step of the specification for the request that
  the command line describes; it prints what the answer contains and exits with 0, or
  reports the status of the answer on the error output and exits with 1, and then, as the
  specification says, nothing has changed.
\<close>

theorem commands_refine_the_service:
  assumes "srv_reach E cfg (ss_srv ss)" and "good_id E (ss_srv ss) x" and "identified ctx u"
    and "trim_space u = u" and "u \<noteq> []" and "reaches C ss (stub E ctx obs others)"
    and "one_call cmd" and "subcommand_run C cmd (a # as) ss = (ExitCode n, ss')"
  shows "\<exists>failed ans. svc_step cfg u (cmd_request cmd a as) ans (svc_abs (ss_srv ss)) (svc_abs (ss_srv ss')) \<and>
    (case ans of
       Inr r \<Rightarrow> n = 0 \<and> ss_out ss' = ss_out ss @ shown a r \<and> ss_err ss' = ss_err ss
     | Inl st \<Rightarrow> n = 1 \<and> svc_abs (ss_srv ss') = svc_abs (ss_srv ss) \<and> ss_out ss' = ss_out ss \<and>
         ss_err ss' = ss_err ss @ failed @ diagMessage (ce_text C) (FromStatus st) @ nl)"
proof -
  have ok: "stub_ok E ctx cfg u (ss_srv ss)"
    using assms(1-5) srv_reach_inv by (auto simp: stub_ok_def)
  have keeps: "B = A" if "svc_step cfg u req (Inl st) A B" for req st A B
    using that by (cases rule: svc_step.cases) simp_all
  from cli.command_step[OF ok assms(6-8)] obtain failed ans where
    s: "svc_step cfg u (cmd_request cmd a as) ans (svc_abs (ss_srv ss)) (svc_abs (ss_srv ss'))" and
    r: "case ans of
       Inr r \<Rightarrow> n = 0 \<and> ss_out ss' = ss_out ss @ shown a r \<and> ss_err ss' = ss_err ss
     | Inl st \<Rightarrow> n = 1 \<and> ss_out ss' = ss_out ss \<and>
         ss_err ss' = ss_err ss @ failed @ diagMessage (ce_text C) (FromStatus st) @ nl" by blast
  show ?thesis
  proof (cases ans)
    case (Inl st)
    with s r keeps show ?thesis by (intro exI[of _ failed] exI[of _ ans]) simp
  next
    case (Inr a')
    with s r show ?thesis by (intro exI[of _ failed] exI[of _ ans]) simp
  qed
qed

theorem commands_refine_the_service_witness:
  "\<exists>ss' failed ans. subcommand_run (demo_env (stub (mounts_env [] []) (demo_peer ''bob'') [] id)) CmdInspect [''nojob'']
       (demo_session new_srv) = (ExitCode 1, ss') \<and>
     svc_step demo_config ''bob'' (ReqInspect ''nojob'') ans (svc_abs new_srv) (svc_abs (ss_srv ss')) \<and>
     ss_err ss' = failed @ ''no such job'' @ nl"
proof -
  let ?E = "mounts_env [] []"
  let ?C = "demo_env (stub ?E (demo_peer ''bob'') [] id)"
  have reach: "srv_reach ?E demo_config (ss_srv (demo_session new_srv))"
    using srv_reach.new[OF demo_srv_New] by (simp add: demo_session_def)
  have trim: "trim_space ''bob'' = ''bob''" "trim_space ''x'' = ''x''" by code_simp+
  have g: "good_id ?E (ss_srv (demo_session new_srv)) ''x''"
    using trim by (simp add: good_id_def mounts_env_def new_srv_def sup_New_def demo_session_def)
  have "\<not> acl_allowed (srv_auth (ss_srv (demo_session new_srv))) ''bob'' ''nojob'' ReadAccess"
    by (simp add: acl_allowed_iff demo_session_def new_srv_def)
  then have r: "subcommand_run ?C CmdInspect [''nojob''] (demo_session new_srv)
      = (ExitCode 1, complain (''failed to inspect: no such job'' @ nl) (demo_session new_srv))"
    by (simp add: inspect_result[OF demo_reaches demo_identified] fail_with_def)
  have b: "''bob'' \<noteq> []" and o: "one_call CmdInspect" by (simp_all add: one_call_def)
  from commands_refine_the_service[OF reach g demo_identified trim(1) b demo_reaches o r]
  obtain ans where "svc_step demo_config ''bob'' (ReqInspect ''nojob'') ans (svc_abs new_srv)
      (svc_abs (ss_srv (complain (''failed to inspect: no such job'' @ nl) (demo_session new_srv))))"
    by (auto simp: demo_session_def)
  with r show ?thesis
    by (intro exI[of _ "complain (''failed to inspect: no such job'' @ nl) (demo_session new_srv)"]
        exI[of _ "''failed to inspect: ''"] exI[of _ ans]) (simp add: demo_session_def)
qed

end
