(* ===== verification/Cpu_Quota.thy ===== *)
theory Cpu_Quota
  imports Cgroup Complex_Main
begin

text \<open>
  How exact the CPU limit is that is written to \<^verbatim>\<open>cpu.max\<close> (\<^verbatim>\<open>src/pkg/job/cgroup.go\<close>): the
  product with the period is rounded to 24 bits, the text to four decimals.
\<close>

section \<open>The length of a number\<close>

lemma bit_length_bounds: "0 < n \<Longrightarrow> 2 ^ (bit_length n - 1) \<le> n \<and> n < 2 ^ bit_length n \<and> 0 < bit_length n"
proof (induction n rule: less_induct)
  case (less n)
  show ?case
  proof (cases "n = 1")
    case False
    with less.prems have d: "0 < n div 2" "n div 2 < n" by auto
    note IH = less.IH[OF d(2,1)]
    have b: "bit_length n = Suc (bit_length (n div 2))" using less.prems by (simp add: bit_length.simps[of n])
    have p: "2 ^ bit_length (n div 2) = (2 :: nat) * 2 ^ (bit_length (n div 2) - 1)"
      using IH by (simp add: power_eq_if)
    have "2 ^ bit_length (n div 2) \<le> 2 * (n div 2)" using IH p by linarith
    moreover have "2 * (n div 2) \<le> n" by simp
    moreover have "n < 2 * 2 ^ bit_length (n div 2)" using IH by linarith
    ultimately show ?thesis by (simp add: b)
  qed (simp add: bit_length.simps[of 1] bit_length.simps[of 0])
qed

lemma bit_length_le: "n < 2 ^ k \<Longrightarrow> bit_length n \<le> k"
proof (cases "n = 0")
  case False
  assume n: "n < 2 ^ k"
  have "2 ^ (bit_length n - 1) < (2 :: nat) ^ k"
    using bit_length_bounds[of n] False n by (meson gr0I le_less_trans)
  then have "bit_length n - 1 < k" by (rule power_less_imp_less_exp[rotated]) simp
  then show ?thesis by simp
qed (simp add: bit_length.simps[of 0])

section \<open>Values\<close>

definition f32_value :: "int \<Rightarrow> int \<Rightarrow> real" where
  "f32_value m e = real_of_int m * 2 powi e"

text \<open>Positive numbers of the type, up to 80 as exponent, so that the product stays finite.\<close>

definition cpu_range :: "int \<Rightarrow> int \<Rightarrow> bool" where
  "cpu_range m e \<longleftrightarrow> 0 < m \<and> m < 2 ^ 24 \<and> - 149 \<le> e \<and> e \<le> 80"

lemma round_shift_close:
  "\<bar>real (round_shift n k) * 2 ^ k - real n\<bar> \<le> 2 ^ k / 2"
proof -
  have "real (2 * (round_shift n k * 2 ^ k)) \<le> real (2 * n + 2 ^ k)"
    "real (2 * n) \<le> real (2 * (round_shift n k * 2 ^ k) + 2 ^ k)"
    using round_shift_bounds[of n k] by (simp_all only: of_nat_le_iff)
  then have "2 * (real (round_shift n k) * 2 ^ k) \<le> 2 * real n + 2 ^ k"
    "2 * real n \<le> 2 * (real (round_shift n k) * 2 ^ k) + 2 ^ k" by simp_all
  then show ?thesis unfolding abs_le_iff by (simp add: field_simps)
qed

lemma round_shift_24:
  assumes "0 < n" and "bit_length n = 24 + k"
  shows "round_shift n k < 2 ^ 25" and "(2 :: real) ^ k / 2 \<le> real n / 2 ^ 24"
proof -
  have b: "n < 2 ^ (24 + k)" "2 ^ (23 + k) \<le> n"
    using bit_length_bounds[OF assms(1)] assms(2) by simp_all
  have "2 * (round_shift n k * 2 ^ k) \<le> 2 * n + 2 ^ k" by (rule round_shift_bounds)
  also have "\<dots> < 2 * 2 ^ (24 + k) + 2 ^ k" using b by simp
  also have "\<dots> = (2 ^ 25 + 1) * 2 ^ k" by (simp add: power_add algebra_simps)
  also have "\<dots> \<le> (2 * 2 ^ 25) * 2 ^ k" by simp
  finally show "round_shift n k < 2 ^ 25" by simp
  have "real (2 ^ (23 + k)) \<le> real n" using b by (simp only: of_nat_le_iff)
  then show "(2 :: real) ^ k / 2 \<le> real n / 2 ^ 24" by (simp add: power_add field_simps)
qed

lemma powi_add: "(2 :: real) powi (i + j) = 2 powi i * 2 powi j"
  by (simp add: power_int_add)

lemma powi_nat: "0 \<le> i \<Longrightarrow> (2 :: real) powi i = 2 ^ nat i"
  by (simp add: power_int_def)

section \<open>The product and its text\<close>

lemma period_product:
  assumes "cpu_range m e"
  shows "\<exists>m' e'. f32_mul cpu_period (F32 m e) = F32 m' e' \<and> 0 \<le> m' \<and>
    \<bar>f32_value m' e' - 10000 * f32_value m e\<bar> \<le> 10000 * f32_value m e / 2 ^ 24"
proof -
  define n where "n = nat (10000 * m)"
  have n: "0 < n" "int n = 10000 * m" "real n = 10000 * real_of_int m"
    using assms by (simp_all add: n_def cpu_range_def)
  have mul: "f32_mul cpu_period (F32 m e) = f32_round False n e"
    using assms by (simp add: cpu_period_def n_def cpu_range_def abs_of_pos)
  have val: "10000 * f32_value m e = real n * 2 powi e" by (simp add: f32_value_def n)
  have "int n < 274877906944" using n(2) assms by (simp add: cpu_range_def)
  then have "n < 2 ^ 38" by simp
  then have b: "bit_length n \<le> 38" by (rule bit_length_le)
  show ?thesis
  proof (cases "bit_length n \<le> 24")
    case True
    then have "f32_round False n e = F32 (int n) e"
      using assms by (simp add: f32_round_def f32_signed_def cpu_range_def Let_def)
    moreover have "f32_value (int n) e = real n * 2 powi e" by (simp add: f32_value_def)
    ultimately show ?thesis using mul val by (intro exI[of _ "int n"] exI[of _ e]) simp
  next
    case False
    define k where "k = bit_length n - 24"
    have k: "bit_length n = 24 + k" "0 < k" "k \<le> 14" using False b by (simp_all add: k_def)
    note R = round_shift_24[OF n(1) k(1)]
    have "bit_length (round_shift n k) \<le> 25" by (rule bit_length_le) (rule R(1))
    then have "f32_round False n e = F32 (int (round_shift n k)) (e + int k)"
      using assms k by (simp add: f32_round_def f32_signed_def cpu_range_def Let_def max_def)
    moreover have "\<bar>f32_value (int (round_shift n k)) (e + int k) - 10000 * f32_value m e\<bar>
        \<le> 10000 * f32_value m e / 2 ^ 24"
    proof -
      have "f32_value (int (round_shift n k)) (e + int k) - 10000 * f32_value m e
          = (real (round_shift n k) * 2 ^ k - real n) * 2 powi e"
        unfolding val by (simp add: f32_value_def powi_add algebra_simps)
      also have "\<bar>\<dots>\<bar> = \<bar>real (round_shift n k) * 2 ^ k - real n\<bar> * 2 powi e"
        by (simp add: abs_mult)
      also have "\<dots> \<le> (real n / 2 ^ 24) * 2 powi e"
        using round_shift_close[of n k] R(2) by (intro mult_right_mono) simp_all
      finally show ?thesis unfolding val by simp
    qed
    ultimately show ?thesis
      using mul by (intro exI[of _ "int (round_shift n k)"] exI[of _ "e + int k"]) simp
  qed
qed

lemma scaled4_close: "\<bar>real (scaled4 m e) - 10000 * (real m * 2 powi e)\<bar> \<le> 1 / 2"
proof (cases "0 \<le> e")
  case True
  then show ?thesis by (simp add: scaled4_def powi_nat)
next
  case False
  define k where "k = nat (- e)"
  have k: "e = - int k" using False by (simp add: k_def)
  define q p x :: real where "q = real (scaled4 m e)" and "p = 2 ^ k" and "x = real (m * 10000)"
  have pos: "0 < p" by (simp add: p_def)
  have "\<bar>q * p - x\<bar> \<le> p / 2"
    using False round_shift_close[of "m * 10000" k] by (simp add: q_def p_def x_def scaled4_def k)
  moreover have "q * p - x = (q - x / p) * p" using pos by (simp add: field_simps)
  ultimately have "\<bar>q - x / p\<bar> * p \<le> (1 / 2) * p" using pos by (simp add: abs_mult)
  then have "\<bar>q - x / p\<bar> \<le> 1 / 2" using pos by (simp only: mult_le_cancel_right_pos)
  moreover have "x / p = 10000 * (real m * 2 powi e)"
    by (simp add: x_def p_def k power_int_minus divide_inverse)
  ultimately show ?thesis by (simp add: q_def)
qed

text \<open>
  C24. The CPU quota in the control file is what was asked for, up to rounding: for a limit of
  \<open>c\<close> CPUs the text is a decimal number with four decimals and the period of 10000, and the
  number differs from \<open>10000 c\<close> by at most one part in \<open>2 ^ 24\<close> and half a unit of the last
  decimal. In particular a limit never becomes infinite or negative.
\<close>

theorem cpu_quota_accuracy:
  assumes "cpu_range m e"
  shows "\<exists>q. cpu_text (F32 m e) = fixed4 q @ '' 10000.0000'' \<and>
    \<bar>real q / 10000 - 10000 * f32_value m e\<bar> \<le> 10000 * f32_value m e / 2 ^ 24 + 1 / 20000"
proof -
  obtain m' e' where p: "f32_mul cpu_period (F32 m e) = F32 m' e'" "0 \<le> m'"
    "\<bar>f32_value m' e' - 10000 * f32_value m e\<bar> \<le> 10000 * f32_value m e / 2 ^ 24"
    using period_product[OF assms] by blast
  let ?q = "scaled4 (nat m') e'"
  have q: "\<bar>real ?q - 10000 * f32_value m' e'\<bar> \<le> 1 / 2"
    using scaled4_close[of "nat m'" e'] p(2) by (simp add: f32_value_def)
  have "f32_fmt4 cpu_period = ''10000.0000''" by code_simp
  then have t: "cpu_text (F32 m e) = fixed4 ?q @ '' 10000.0000''"
    using p(1,2) by (simp add: cpu_text_def)
  have "\<bar>real ?q / 10000 - 10000 * f32_value m e\<bar> \<le> 10000 * f32_value m e / 2 ^ 24 + 1 / 20000"
    using q p(3) unfolding abs_le_iff by (simp add: field_simps)
  with t show ?thesis by blast
qed

theorem cpu_quota_accuracy_witness:
  "\<exists>q. cpu_text (F32 13421773 (- 27)) = fixed4 q @ '' 10000.0000'' \<and> \<bar>real q / 10000 - 1000\<bar> \<le> 1 / 1000"
proof -
  have "cpu_range 13421773 (- 27)" by (simp add: cpu_range_def)
  from cpu_quota_accuracy[OF this]
  obtain q where q: "cpu_text (F32 13421773 (- 27)) = fixed4 q @ '' 10000.0000''"
    "\<bar>real q / 10000 - 10000 * f32_value 13421773 (- 27)\<bar>
       \<le> 10000 * f32_value 13421773 (- 27) / 2 ^ 24 + 1 / 20000" by blast
  have "f32_value 13421773 (- 27) = 13421773 / 134217728"
    by (simp add: f32_value_def power_int_minus powi_nat)
  then have "\<bar>real q / 10000 - 1000\<bar> \<le> 1 / 1000"
    using q(2) unfolding abs_le_iff by (simp add: field_simps)
  with q(1) show ?thesis by blast
qed

end
