(* ===== verification/Job_Liveness.thy ===== *)
theory Job_Liveness
  imports Job_Concurrency
begin

text \<open>
  What a job does in the end: the abstract life cycle it implements, the graceful stop
  with its timer, and two situations in which it gets stuck.
\<close>

section \<open>The abstract life cycle\<close>

text \<open>
  The state diagram of the design document (running, ending, ended), with the removal the
  code adds. A stopped job is ending until the exit of its process has been reported.
\<close>

datatype life = Running | Ending | Over | Removed

definition abs_life :: "jsys \<Rightarrow> life" where
  "abs_life s =
     (case job_handler (sj s) of
        activeHandler \<Rightarrow> Running
      | stoppingHandler \<Rightarrow> Ending
      | stoppedHandler \<Rightarrow> if before_report (proc s) then Ending else Over
      | endedHandler \<Rightarrow> Over
      | zombieHandler \<Rightarrow> Removed)"

inductive life_step :: "life \<Rightarrow> life \<Rightarrow> bool" where
  stutter: "life_step a a"
| ending: "life_step Running Ending"
| over: "life_step Running Over"
| ended: "life_step Ending Over"
| removed: "life_step a Removed"

inductive_simps life_step_simps [simp]: "life_step a b"

lemma abs_life_running:
  "running (job_handler (sj s)) \<Longrightarrow> job_handler (sj s') = stoppedHandler \<Longrightarrow> proc s' = proc s \<Longrightarrow>
     before_report (proc s) \<Longrightarrow> life_step (abs_life s) (abs_life s')"
  by (auto simp: abs_life_def running_def)

lemma jinv_running_before: "jinv s \<Longrightarrow> running (job_handler (sj s)) \<Longrightarrow> before_report (proc s)"
  by (simp add: jinv_def)

text \<open>
  C10. The job refines its abstract life cycle: every step of every goroutine is a step of
  the diagram running, ending, over, removed, or leaves the abstract state unchanged.
\<close>

theorem job_refines_life_cycle:
  assumes "jreach E s" and "jstep E s e s'"
  shows "life_step (abs_life s) (abs_life s')"
proof -
  have inv: "jinv s" by (rule jreach_inv[OF assms(1)])
  from assms(2) show ?thesis
  proof (cases rule: jstep.cases)
    case (init_stop d j w r)
    with InitStop_result[OF init_stop(4)] show ?thesis by (auto simp: abs_life_def)
  next
    case (stop j w r)
    with job_Stop_result[OF stop(4)] jinv_running_before[OF inv] show ?thesis
      by (auto simp: abs_life_def running_def)
  next
    case (logs follow rd j w)
    with job_Logs_result[OF logs(4)] show ?thesis by (auto simp: abs_life_def)
  next
    case (logs_err follow e' j w)
    with job_Logs_result[OF logs_err(4)] show ?thesis by (auto simp: abs_life_def)
  next
    case (cleanup_done j w r)
    with job_Cleanup_result[OF cleanup_done(4)] show ?thesis
      by (auto simp: abs_life_def split: sum.splits)
  next
    case (exited c r j w)
    have "\<not> done_closed (sj s)" using inv exited(4) by (simp add: jinv_def)
    from job_exited_result[OF exited(5) this] exited show ?thesis
      by (cases "job_handler (sj s)") (auto simp: abs_life_def closes_done_def)
  next
    case (timer j w r)
    with timer_stop_result[OF timer(5)] jinv_running_before[OF inv] show ?thesis
      by (auto simp: abs_life_def running_def)
  next
    case (end_reader i r j w)
    with reader_Close_result[OF end_reader(5)] show ?thesis by (auto simp: abs_life_def)
  next
    case (cancel i r j w)
    with reader_Close_result[OF cancel(4)] show ?thesis by (auto simp: abs_life_def)
  qed (auto simp: abs_life_def)
qed

theorem job_refines_life_cycle_witness:
  "life_step (abs_life (jsys_init demo_job demo_world)) Ending"
  using job_refines_life_cycle[OF reach_demo demo_stop]
  by (simp add: abs_life_def jsys_init_def demo_job_def new_job_def)

section \<open>Graceful stop\<close>

text \<open>
  A graceful stop sends SIGTERM and arms a timer with the given time; when that timer
  fires before the process is gone, and the kill succeeds, SIGKILL is the next call, the
  timer is spent and the job is stopped.
\<close>

lemma graceful_stop_then_kill:
  assumes active: "job_handler j = activeHandler"
    and init: "InitStop E d (j, w) = (Inr (), (j1, w1))"
    and kill: "fst (os_do E (SSignal SIGKILL) w1) = Inr ()"
  shows "job_handler j1 = stoppingHandler \<and> trace w1 = trace w @ [SSignal SIGTERM] \<and>
    stopTimer j1 = Some (nextTimer j) \<and> (nextTimer j, d) \<in> set (armed j1) \<and>
    (\<exists>j2 w2. job_Stop E (disarm (nextTimer j) j1, w1) = (Inr (), (j2, w2)) \<and>
       job_handler j2 = stoppedHandler \<and> nextTimer j \<notin> fst ` set (armed j2) \<and>
       trace w2 = trace w @ [SSignal SIGTERM, SSignal SIGKILL])"
proof -
  obtain x where os: "os_do E (SSignal SIGTERM) w = (x, w1)" "x = Inr ()"
    and j1: "j1 = setHandler stoppingHandler (arm_timer d j)"
    using init active by (auto simp: InitStop_active split: prod.splits sum.splits)
  have tr: "trace w1 = trace w @ [SSignal SIGTERM]"
    using os(1) os_do_snd[of E "SSignal SIGTERM" w] os_call_trace by (metis snd_conv)
  obtain w2 where w2: "os_do E (SSignal SIGKILL) w1 = (Inr (), w2)"
    using kill by (cases "os_do E (SSignal SIGKILL) w1") auto
  have tr2: "trace w2 = trace w1 @ [SSignal SIGKILL]"
    using w2 os_do_snd[of E "SSignal SIGKILL" w1] os_call_trace by (metis snd_conv)
  let ?k = "disarm (nextTimer j) j1"
  have "job_Stop E (?k, w1) = (Inr (), (setHandler stoppedHandler (before_kill ?k), w2))"
    using w2 by (simp add: job_Stop_running j1)
  moreover have "nextTimer j \<notin> fst ` set (armed (setHandler stoppedHandler (before_kill ?k)))"
    by (auto simp: before_kill_def stop_timer_def disarm_def split: option.splits)
  ultimately show ?thesis
    using tr tr2 by (auto simp: j1 arm_timer_def setHandler_def)
qed

text \<open>
  When the signal of a graceful stop cannot be sent, the call reports the error and
  the job stays active, but the timer stays armed: its goroutine will still try to kill
  the job that the caller was told is not being stopped.
\<close>

lemma failed_graceful_stop_leaves_timer:
  assumes "job_handler j = activeHandler" and "InitStop E d (j, w) = (Inl e, (j1, w1))"
  shows "job_handler j1 = activeHandler \<and> (nextTimer j, d) \<in> set (armed j1) \<and>
    (fst (os_do E (SSignal SIGKILL) w1) = Inr () \<longrightarrow>
      job_handler (fst (snd (job_Stop E (disarm (nextTimer j) j1, w1)))) = stoppedHandler)"
proof -
  have j1: "j1 = arm_timer d j"
    using assms by (auto simp: InitStop_active split: prod.splits sum.splits)
  then show ?thesis
    using assms(1)
    by (auto simp: job_Stop_running arm_timer_def disarm_def split: prod.splits sum.splits)
qed

definition no_term_env :: os_env where
  "no_term_env = quiet_env\<lparr>os_fault := (\<lambda>_ c. if c = SSignal SIGTERM then Some (''EPERM'', []) else None)\<rparr>"

section \<open>Stuck jobs\<close>

text \<open>
  A call of \<^verbatim>\<open>Cleanup\<close> waits for a reader that follows the output, before the exit of
  the process has been reported.
\<close>

definition stuck :: "jsys \<Rightarrow> bool" where
  "stuck s \<longleftrightarrow> jinv s \<and> cleaning s \<and> job_handler (sj s) \<noteq> zombieHandler \<and>
     \<not> done_closed (sj s) \<and> (\<exists>rd. (rd, True) \<in> set (sreaders s))"

definition client_gone :: "jevent \<Rightarrow> bool" where
  "client_gone e \<longleftrightarrow> (\<exists>i. e = EvCancel i)"

lemma in_remove_nth:
  assumes "x \<in> set xs" and "i < length xs" and "xs ! i \<noteq> x"
  shows "x \<in> set (remove_nth i xs)"
proof -
  have "xs = take i xs @ xs ! i # drop (Suc i) xs"
    using assms(2) by (rule id_take_nth_drop)
  then have "set xs = set (take i xs) \<union> {xs ! i} \<union> set (drop (Suc i) xs)"
    by (metis Un_assoc Un_insert_left insert_is_Un list.simps(15) set_append sup_bot.left_neutral)
  with assms(1,3) show ?thesis by (auto simp: remove_nth_def)
qed

lemma stuck_step:
  assumes "jstep E s e s'" and "\<not> client_gone e" and st: "stuck s"
  shows "stuck s'"
proof -
  have inv: "jinv s'" using assms jstep_inv by (auto simp: stuck_def)
  have len: "outLock (sj s) \<noteq> 0"
    using st by (auto simp: stuck_def jinv_def)
  from assms(1) show ?thesis
  proof (cases rule: jstep.cases)
    case (cleanup_done j w r)
    then have False using st len by (simp add: stuck_def job_Cleanup_eq)
    then show ?thesis ..
  next
    case (end_reader i r j w)
    then have "\<not> snd (sreaders s ! i)" using st by (simp add: stuck_def)
    then have keep: "(rd, True) \<in> set (sreaders s) \<Longrightarrow> (rd, True) \<in> set (remove_nth i (sreaders s))" for rd
      using end_reader(3) by (intro in_remove_nth) auto
    from st inv keep reader_Close_result[OF end_reader(5)] show ?thesis
      unfolding end_reader(2) by (auto simp: stuck_def)
  next
    case (cancel i r j w)
    with assms(2) show ?thesis by (simp add: client_gone_def)
  qed (use st inv in \<open>auto simp: stuck_def\<close>)
qed

text \<open>
  C38. A removal can deadlock. Once \<^verbatim>\<open>Cleanup\<close> holds the mutex of a job whose exit has
  not been reported while a client follows its output, nothing but that client going away
  can end the wait: the waiting goroutine cannot report the exit (it needs the mutex), so
  \<^verbatim>\<open>done\<close> stays open, so the reader never reaches its end, so \<^verbatim>\<open>Cleanup\<close> keeps waiting.
\<close>

theorem cleanup_deadlock:
  assumes "stuck s" and "jrun E s es s'" and "list_all (\<lambda>e. \<not> client_gone e) es"
  shows "cleaning s' \<and> \<not> done_closed (sj s') \<and> job_handler (sj s') \<noteq> zombieHandler \<and>
    fst (job_Cleanup E (sj s', sw s')) = Block"
proof -
  have "stuck s'"
    using assms
  proof (induction es arbitrary: s)
    case (Cons e es)
    then show ?case by (auto intro: stuck_step)
  qed simp
  then show ?thesis by (auto simp: stuck_def job_Cleanup_eq jinv_def)
qed

text \<open>The deadlock is reachable: open a following reader, stop the job by force, remove it.\<close>

lemma demo_stuck:
  "\<exists>s. jreach quiet_env s \<and> stuck s \<and> job_handler (sj s) = stoppedHandler"
proof -
  let ?s0 = "jsys_init demo_job demo_world"
  have h: "job_handler demo_job = activeHandler" "outFilePath demo_job = ''/j/o''"
    by (simp_all add: demo_job_def new_job_def)
  obtain w1 where w1: "os_do quiet_env (SOpenRead ''/j/o'') demo_world = (Inr (), w1)"
    by (simp add: os_do_def os_call_def quiet_env_def demo_world_def fs_exists_def sm_defs Let_def)
  let ?rd = "\<lparr>rd_path = ''/j/o'', rd_pos = 0\<rparr>"
  let ?j1 = "demo_job\<lparr>outLock := outLock demo_job + 1, logReaders := logReaders demo_job + 1\<rparr>"
  let ?s1 = "?s0\<lparr>sj := ?j1, sw := w1, sreaders := sreaders ?s0 @ [(?rd, True)]\<rparr>"
  have s1: "jstep quiet_env ?s0 (EvLogs True) ?s1"
    by (rule jstep.logs) (simp_all add: jsys_init_def job_Logs_eq h w1)
  let ?w2 = "w1\<lparr>trace := trace w1 @ [SSignal SIGKILL]\<rparr>"
  let ?s2 = "?s1\<lparr>sj := setHandler stoppedHandler ?j1, sw := ?w2\<rparr>"
  have s2: "jstep quiet_env ?s1 EvStop ?s2"
    by (rule jstep.stop[where r = "Inr ()"])
      (simp_all add: jsys_init_def job_Stop_running before_kill_def h)
  let ?s3 = "?s2\<lparr>cleaning := True\<rparr>"
  have s3: "jstep quiet_env ?s2 EvCleanup ?s3"
    by (rule jstep.cleanup) (simp add: jsys_init_def)
  from reach_demo s1 s2 s3 have r: "jreach quiet_env ?s3"
    by (blast intro: jreach.step)
  then have "jinv ?s3" by (rule jreach_inv)
  moreover have "\<not> done_closed demo_job" by (simp add: demo_job_def new_job_def)
  ultimately have "stuck ?s3" by (simp add: stuck_def jsys_init_def)
  with r show ?thesis by (intro exI[of _ ?s3]) simp
qed

theorem cleanup_deadlock_witness:
  "\<exists>s. jreach quiet_env s \<and> Completed (sj s) \<and> fst (job_Cleanup quiet_env (sj s, sw s)) = Block"
proof -
  from demo_stuck obtain s where s: "jreach quiet_env s" "stuck s" "job_handler (sj s) = stoppedHandler"
    by blast
  from cleanup_deadlock[OF s(2), of quiet_env "[]" s] s show ?thesis by auto
qed

text \<open>
  A job that is removed before its exit is reported never closes \<^verbatim>\<open>done\<close>: the
  removed state ignores the exit, so \<^verbatim>\<open>Wait\<close> on that job blocks for ever.
\<close>

lemma removed_job_wait_blocks:
  assumes "jreach E s" and "job_handler (sj s) = zombieHandler" and "before_report (proc s)"
    and "jrun E s es s'"
  shows "job_Wait (sj s') = Block"
proof -
  have open_s: "\<not> done_closed (sj s)"
    using jreach_inv[OF assms(1)] assms(3) by (simp add: jinv_def)
  have step: "job_handler (sj t') = zombieHandler \<and> \<not> done_closed (sj t')"
    if "jstep E t e t'" and z: "job_handler (sj t) = zombieHandler" "\<not> done_closed (sj t)" for t e t'
    using that(1)
  proof (cases rule: jstep.cases)
    case (init_stop d j w r)
    with InitStop_result[OF init_stop(4)] z show ?thesis by auto
  next
    case (stop j w r)
    with job_Stop_result[OF stop(4)] z show ?thesis by auto
  next
    case (logs follow rd j w)
    with job_Logs_result[OF logs(4)] z show ?thesis by auto
  next
    case (logs_err follow e' j w)
    with job_Logs_result[OF logs_err(4)] z show ?thesis by auto
  next
    case (cleanup_done j w r)
    with job_Cleanup_result[OF cleanup_done(4)] z show ?thesis by (auto split: sum.splits)
  next
    case (exited c r j w)
    with job_exited_result[OF exited(5)] z show ?thesis by (auto simp: closes_done_def)
  next
    case (timer j w r)
    with timer_stop_result[OF timer(5)] z show ?thesis by auto
  next
    case (end_reader i r j w)
    with reader_Close_result[OF end_reader(5)] z show ?thesis by auto
  next
    case (cancel i r j w)
    with reader_Close_result[OF cancel(4)] z show ?thesis by auto
  qed (use z in auto)
  have "job_handler (sj s') = zombieHandler \<and> \<not> done_closed (sj s')"
    using assms(2) open_s assms(4) by (induction es arbitrary: s) (auto dest: step)
  then show ?thesis by (simp add: job_Wait_def)
qed

end
