(* ===== verification/Fair_Runs.thy ===== *)
theory Fair_Runs
  imports Prelude
begin

text \<open>
  Infinite runs of a step relation, weak fairness, and the argument by a decreasing rank with
  which a fair run is shown to reach a goal. \<open>Job_Termination\<close> interprets the locale on the
  steps of a job.
\<close>

section \<open>Runs\<close>

text \<open>In each moment of a run there is a step, or nothing happens (\<open>None\<close>).\<close>

definition run_of :: "('s \<Rightarrow> 'e \<Rightarrow> 's \<Rightarrow> bool) \<Rightarrow> (nat \<Rightarrow> 's) \<Rightarrow> (nat \<Rightarrow> 'e option) \<Rightarrow> bool" where
  "run_of step s e \<longleftrightarrow>
     (\<forall>n. case e n of None \<Rightarrow> s (Suc n) = s n | Some a \<Rightarrow> step (s n) a (s (Suc n)))"

text \<open>An action that stays enabled for ever from some moment on is taken at a later one.\<close>

definition weakly_fair ::
  "('c \<Rightarrow> 's \<Rightarrow> bool) \<Rightarrow> ('e \<Rightarrow> 'c option) \<Rightarrow> (nat \<Rightarrow> 's) \<Rightarrow> (nat \<Rightarrow> 'e option) \<Rightarrow> bool" where
  "weakly_fair en cls s e \<longleftrightarrow>
     (\<forall>c n. (\<forall>k\<ge>n. en c (s k)) \<longrightarrow> (\<exists>k\<ge>n. \<exists>a. e k = Some a \<and> cls a = Some c))"

lemma run_of_step: "run_of step s e \<Longrightarrow> e n = Some a \<Longrightarrow> step (s n) a (s (Suc n))"
  unfolding run_of_def by (drule spec[of _ n]) simp

lemma run_of_idle: "run_of step s e \<Longrightarrow> e n = None \<Longrightarrow> s (Suc n) = s n"
  unfolding run_of_def by (drule spec[of _ n]) simp

lemma run_of_suffix: "run_of step s e \<Longrightarrow> run_of step (\<lambda>n. s (k + n)) (\<lambda>n. e (k + n))"
  unfolding run_of_def
proof
  fix n assume "\<forall>n. case e n of None \<Rightarrow> s (Suc n) = s n | Some a \<Rightarrow> step (s n) a (s (Suc n))"
  from this[rule_format, of "k + n"]
  show "case e (k + n) of None \<Rightarrow> s (k + Suc n) = s (k + n) | Some a \<Rightarrow> step (s (k + n)) a (s (k + Suc n))"
    by (simp only: add_Suc_right)
qed

lemma weakly_fair_suffix:
  assumes "weakly_fair en cls s e"
  shows "weakly_fair en cls (\<lambda>n. s (k + n)) (\<lambda>n. e (k + n))"
  unfolding weakly_fair_def
proof (intro allI impI)
  fix c n assume on: "\<forall>m\<ge>n. en c (s (k + m))"
  have "\<forall>m\<ge>k + n. en c (s m)"
  proof (intro allI impI)
    fix m assume "k + n \<le> m"
    then show "en c (s m)" using on[rule_format, of "m - k"] by simp
  qed
  with assms obtain m a where m: "k + n \<le> m" "e m = Some a" "cls a = Some c"
    unfolding weakly_fair_def by blast
  then show "\<exists>m\<ge>n. \<exists>a. e (k + m) = Some a \<and> cls a = Some c"
    by (intro exI[of _ "m - k"]) simp
qed

lemma run_keeps:
  assumes "run_of step s e" and "P (s n)"
    and "\<And>m a. n \<le> m \<Longrightarrow> P (s m) \<Longrightarrow> e m = Some a \<Longrightarrow> step (s m) a (s (Suc m)) \<Longrightarrow> P (s (Suc m))"
  shows "n \<le> m \<Longrightarrow> P (s m)"
proof (induction m rule: dec_induct)
  case base
  show ?case by (rule assms(2))
next
  case (step m)
  then show ?case
    using assms(3)[of m] run_of_step[OF assms(1), of m] run_of_idle[OF assms(1), of m]
    by (cases "e m") auto
qed

text \<open>
  Runs that exist: finitely many steps to a state in which no action is enabled are the
  beginning of a fair run.
\<close>

fun steps_via :: "('s \<Rightarrow> 'e \<Rightarrow> 's \<Rightarrow> bool) \<Rightarrow> 's \<Rightarrow> 'e list \<Rightarrow> 's \<Rightarrow> bool" where
  "steps_via step s [] s' \<longleftrightarrow> s' = s"
| "steps_via step s (e # es) s' \<longleftrightarrow> (\<exists>t. step s e t \<and> steps_via step t es s')"

lemma steps_via_run_of:
  assumes "steps_via step x es t"
  shows "\<exists>s. run_of step s (\<lambda>n. if n < length es then Some (es ! n) else None) \<and> s 0 = x \<and>
    (\<forall>n\<ge>length es. s n = t)"
  using assms
proof (induction es arbitrary: x)
  case Nil
  then show ?case by (intro exI[of _ "\<lambda>_. t"]) (simp add: run_of_def)
next
  case (Cons a es)
  then obtain y' where y': "step x a y'" "steps_via step y' es t" by auto
  from Cons.IH[OF y'(2)] y'(1) obtain y s where y: "step x a y" "s 0 = y" "\<forall>n\<ge>length es. s n = t"
    and run: "run_of step s (\<lambda>n. if n < length es then Some (es ! n) else None)"
    by blast
  let ?s = "case_nat x s"
  have "run_of step ?s (\<lambda>n. if n < length (a # es) then Some ((a # es) ! n) else None)"
    unfolding run_of_def
  proof
    fix n
    show "case if n < length (a # es) then Some ((a # es) ! n) else None of None \<Rightarrow> ?s (Suc n) = ?s n
      | Some b \<Rightarrow> step (?s n) b (?s (Suc n))"
      using y(1,2) run_of_idle[OF run, of "n - 1"] run_of_step[OF run, of "n - 1"] by (cases n) auto
  qed
  moreover have "\<forall>n\<ge>length (a # es). ?s n = t" using y(3) by (auto split: nat.split)
  ultimately show ?case by (intro exI[of _ ?s]) simp
qed

lemma steps_via_fair:
  assumes "steps_via step x es t" and off: "\<And>c. \<not> en c t"
  shows "\<exists>s e. run_of step s e \<and> weakly_fair en cls s e \<and> s 0 = x \<and>
    (\<forall>n a. e n = Some a \<longleftrightarrow> n < length es \<and> a = es ! n)"
proof -
  obtain s where s: "run_of step s (\<lambda>n. if n < length es then Some (es ! n) else None)" "s 0 = x"
    and t: "\<forall>n\<ge>length es. s n = t" using steps_via_run_of[OF assms(1)] by blast
  have "\<exists>k\<ge>n. \<not> en c (s k)" for c n
    using off[of c] t by (intro exI[of _ "n + length es"]) simp
  then have "weakly_fair en cls s (\<lambda>n. if n < length es then Some (es ! n) else None)"
    unfolding weakly_fair_def by blast
  with s show ?thesis by (intro exI[of _ s] exI[of _ "\<lambda>n. if n < length es then Some (es ! n) else None"]) auto
qed

section \<open>Progress by a rank\<close>

text \<open>A rank that never rises becomes constant.\<close>

lemma rank_settles:
  fixes f :: "nat \<Rightarrow> nat"
  assumes "\<And>n. f (Suc n) \<le> f n"
  shows "\<exists>n. \<forall>k\<ge>n. f k = f n"
proof -
  have anti: "f k \<le> f n" if "n \<le> k" for n k
    using that assms by (rule lift_Suc_antimono_le[rotated])
  obtain n where n: "\<And>k. f n \<le> f k"
    using ex_has_least_nat[of "\<lambda>_. True" 0 f] by auto
  then have "\<forall>k\<ge>n. f k = f n" using anti by (simp add: le_antisym)
  then show ?thesis ..
qed

text \<open>
  \<open>ok\<close> restricts what may happen in a state. As long as the goal is not reached, the helpful
  action of the state is enabled, no step raises the rank or changes the helpful action
  without lowering the rank, and the helpful action lowers it.
\<close>

locale ranked_progress =
  fixes step :: "'s \<Rightarrow> 'e \<Rightarrow> 's \<Rightarrow> bool"
    and ok :: "'s \<Rightarrow> 'e \<Rightarrow> bool"
    and inv :: "'s \<Rightarrow> bool"
    and goal :: "'s \<Rightarrow> bool"
    and rank :: "'s \<Rightarrow> nat"
    and helpful :: "'s \<Rightarrow> 'c"
    and en :: "'c \<Rightarrow> 's \<Rightarrow> bool"
    and cls :: "'e \<Rightarrow> 'c option"
  assumes keep: "inv s \<Longrightarrow> \<not> goal s \<Longrightarrow> ok s a \<Longrightarrow> step s a s' \<Longrightarrow> goal s' \<or> inv s'"
    and helps: "inv s \<Longrightarrow> \<not> goal s \<Longrightarrow> en (helpful s) s"
    and no_rise: "inv s \<Longrightarrow> \<not> goal s \<Longrightarrow> ok s a \<Longrightarrow> step s a s' \<Longrightarrow>
      goal s' \<or> rank s' < rank s \<or> (rank s' = rank s \<and> helpful s' = helpful s)"
    and falls: "inv s \<Longrightarrow> \<not> goal s \<Longrightarrow> ok s a \<Longrightarrow> cls a = Some (helpful s) \<Longrightarrow> step s a s' \<Longrightarrow>
      goal s' \<or> rank s' < rank s"
begin

lemma eventually:
  assumes run: "run_of step s e" and fair: "weakly_fair en cls s e" and start: "inv (s 0)"
    and allowed: "\<And>n a. e n = Some a \<Longrightarrow> ok (s n) a"
  shows "\<exists>n. goal (s n)"
proof (rule ccontr)
  assume "\<not> (\<exists>n. goal (s n))"
  then have ng: "\<not> goal (s n)" for n by blast
  have inv: "inv (s n)" for n
  proof (rule run_keeps[OF run, of inv, OF start])
    fix m a assume "inv (s m)" "e m = Some a" "step (s m) a (s (Suc m))"
    then show "inv (s (Suc m))" using keep[of "s m" a "s (Suc m)"] ng allowed[of m a] by blast
  qed simp
  have one: "rank (s (Suc n)) < rank (s n) \<or> rank (s (Suc n)) = rank (s n) \<and> helpful (s (Suc n)) = helpful (s n)" for n
  proof (cases "e n")
    case None
    then show ?thesis using run_of_idle[OF run None] by simp
  next
    case (Some a)
    from no_rise[OF inv ng allowed[OF Some] run_of_step[OF run Some]] ng show ?thesis by blast
  qed
  have "rank (s (Suc n)) \<le> rank (s n)" for n using one[of n] by auto
  from rank_settles[of "\<lambda>n. rank (s n)", OF this] obtain n where n: "\<forall>k\<ge>n. rank (s k) = rank (s n)" by blast
  have same: "helpful (s k) = helpful (s n)" if "n \<le> k" for k
    using that
  proof (induction k rule: dec_induct)
    case (step k)
    have "rank (s (Suc k)) = rank (s k)"
      using n[rule_format, of k] n[rule_format, of "Suc k"] step(1) by linarith
    with one[of k] step(3) show ?case by simp
  qed simp
  have "\<forall>k\<ge>n. en (helpful (s n)) (s k)"
  proof (intro allI impI)
    fix k assume "n \<le> k"
    from helps[OF inv ng, of k] same[OF this] show "en (helpful (s n)) (s k)" by simp
  qed
  with fair obtain k a where k: "n \<le> k" "e k = Some a" "cls a = Some (helpful (s n))"
    unfolding weakly_fair_def by blast
  have "cls a = Some (helpful (s k))" using k(3) same[OF k(1)] by simp
  from falls[OF inv ng allowed[OF k(2)] this run_of_step[OF run k(2)]] ng
  have "rank (s (Suc k)) < rank (s k)" by blast
  then show False using n[rule_format, of k] n[rule_format, of "Suc k"] k(1) by linarith
qed

end

end
