(* ===== verification/Job_Termination.thy ===== *)
theory Job_Termination
  imports Job_Liveness Fair_Runs
begin

text \<open>
  A job that is being stopped comes to its end: in every run in which timers fire, a killed
  process dies, and the goroutines of the job get their turn, \<^verbatim>\<open>Wait\<close> returns in the end,
  whatever the clients do meanwhile; and once nobody opens a reader any more, \<^verbatim>\<open>Cleanup\<close> does
  not have to wait. Both are what \<^verbatim>\<open>StopSupervisor\<close> waits for.
\<close>

section \<open>Fairness\<close>

text \<open>What the program and the operating system do by themselves, and when they can.\<close>

datatype job_action = FireTimer | RunTimer | ProcessDies | CollectExit | ReportExit | ReaderEnds

fun job_action_of :: "jevent \<Rightarrow> job_action option" where
  "job_action_of (EvFire t) = Some FireTimer"
| "job_action_of EvTimerStop = Some RunTimer"
| "job_action_of (EvDie c) = Some ProcessDies"
| "job_action_of EvWait = Some CollectExit"
| "job_action_of EvExited = Some ReportExit"
| "job_action_of (EvEnd i) = Some ReaderEnds"
| "job_action_of (EvCancel i) = Some ReaderEnds"
| "job_action_of _ = None"

text \<open>
  A process has to die only after a kill; the state is stopped only when \<^verbatim>\<open>SIGKILL\<close> could be
  sent. A reader has to end only when \<^verbatim>\<open>done\<close> is closed.
\<close>

fun job_action_enabled :: "job_action \<Rightarrow> jsys \<Rightarrow> bool" where
  "job_action_enabled FireTimer s \<longleftrightarrow> armed (sj s) \<noteq> []"
| "job_action_enabled RunTimer s \<longleftrightarrow> \<not> cleaning s \<and> 0 < fired s"
| "job_action_enabled ProcessDies s \<longleftrightarrow> proc s = Alive \<and> job_handler (sj s) = stoppedHandler"
| "job_action_enabled CollectExit s \<longleftrightarrow> (\<exists>c. proc s = Dead c)"
| "job_action_enabled ReportExit s \<longleftrightarrow> \<not> cleaning s \<and> (\<exists>c. proc s = Collected c)"
| "job_action_enabled ReaderEnds s \<longleftrightarrow> sreaders s \<noteq> [] \<and> done_closed (sj s)"

definition fair_job :: "(nat \<Rightarrow> jsys) \<Rightarrow> (nat \<Rightarrow> jevent option) \<Rightarrow> bool" where
  "fair_job = weakly_fair job_action_enabled job_action_of"

section \<open>The end of the process is reported\<close>

text \<open>
  Stopped, or stopping with a timer that is still armed or whose goroutine has yet to run.
\<close>

definition ending :: "jsys \<Rightarrow> bool" where
  "ending s \<longleftrightarrow> jinv s \<and> \<not> cleaning s \<and>
     (job_handler (sj s) = stoppedHandler \<or>
      job_handler (sj s) = stoppingHandler \<and>
        (proc s = Alive \<longrightarrow> armed (sj s) \<noteq> [] \<or> 0 < fired s))"

definition end_rank :: "jsys \<Rightarrow> nat" where
  "end_rank s =
     (case proc s of
        Alive \<Rightarrow> if job_handler (sj s) = stoppedHandler then 3 else if 0 < fired s then 4 else 5
      | Dead c \<Rightarrow> 2
      | Collected c \<Rightarrow> 1
      | Reported c \<Rightarrow> 0)"

definition end_helpful :: "jsys \<Rightarrow> job_action" where
  "end_helpful s =
     (case proc s of
        Alive \<Rightarrow> if job_handler (sj s) = stoppedHandler then ProcessDies
                 else if 0 < fired s then RunTimer else FireTimer
      | Dead c \<Rightarrow> CollectExit
      | _ \<Rightarrow> ReportExit)"

text \<open>
  What may happen before \<^verbatim>\<open>done\<close> is closed: anything, except that no clean-up may start (it
  could wait for ever, \<open>cleanup_deadlock\<close>) and a kill of a live process has to succeed.
\<close>

definition undisturbed :: "os_env \<Rightarrow> jsys \<Rightarrow> jevent \<Rightarrow> bool" where
  "undisturbed E s a \<longleftrightarrow>
     (\<not> done_closed (sj s) \<longrightarrow> a \<noteq> EvCleanup) \<and>
     (a \<in> {EvStop, EvTimerStop} \<and> proc s = Alive \<longrightarrow> fst (os_do E (SSignal SIGKILL) (sw s)) = Inr ())"

lemma job_Stop_kills:
  assumes "job_Stop E (j, w) = (r, (j', w'))" and "running (job_handler j)"
    and "fst (os_do E (SSignal SIGKILL) w) = Inr ()"
  shows "job_handler j' = stoppedHandler"
  using assms by (auto simp: job_Stop_running split: prod.splits)

lemma timer_stop_kills:
  assumes "timer_stop E (j, w) = (r, (j', w'))" and "running (job_handler j)"
    and "fst (os_do E (SSignal SIGKILL) w) = Inr ()"
  shows "job_handler j' = stoppedHandler"
proof -
  obtain r' where "job_Stop E (j, w) = (r', (j', w'))"
    using assms(1) by (cases "job_Stop E (j, w)") (auto simp: timer_stop_def sm_try_def)
  then show ?thesis using assms(2,3) by (rule job_Stop_kills)
qed

text \<open>A step that leaves the handler, the process and the timers alone.\<close>

lemma ending_same:
  assumes "jinv s'" and "ending s" and "job_handler (sj s') = job_handler (sj s)" and "cleaning s' = cleaning s"
    and "proc s' = proc s" and "armed (sj s') = armed (sj s)" and "fired s' = fired s"
  shows "ending s' \<and> end_rank s' = end_rank s \<and> end_helpful s' = end_helpful s"
  using assms unfolding ending_def end_rank_def end_helpful_def by auto

lemma ending_killed:
  assumes "jinv s'" and "ending s" and "\<not> cleaning s'" and "proc s' = proc s"
    and "job_handler (sj s') = stoppedHandler"
  shows "ending s' \<and> (end_rank s' < end_rank s \<or> end_rank s' = end_rank s \<and> end_helpful s' = end_helpful s)"
  using assms unfolding ending_def end_rank_def end_helpful_def
  by (auto split: pstate.splits)

lemma ending_not_alive:
  assumes "jinv s'" and "ending s" and "\<not> cleaning s'" and "proc s' = proc s" and "proc s \<noteq> Alive"
    and "job_handler (sj s') \<in> {stoppingHandler, stoppedHandler}"
  shows "ending s' \<and> end_rank s' = end_rank s \<and> end_helpful s' = end_helpful s"
  using assms unfolding ending_def end_rank_def end_helpful_def
  by (auto split: pstate.splits)

lemma ending_reported:
  assumes "ending s" and "proc s = Collected c" and "job_exited E (sj s, sw s) = (r, (j, w))"
  shows "done_closed j"
proof -
  have "\<not> done_closed (sj s)" and "closes_done (job_handler (sj s))"
    using assms(1,2) by (auto simp: ending_def jinv_def closes_done_def)
  with job_exited_result[OF assms(3)] show ?thesis by simp
qed

lemma ending_kill:
  assumes e: "ending s" and c: "undisturbed E s a" "a \<in> {EvStop, EvTimerStop}"
    and inv: "jinv s'" and s': "proc s' = proc s" "cleaning s' = cleaning s"
    and j: "sj s' = sj s \<or> (running (job_handler (sj s)) \<and>
        (sj s' = before_kill (sj s) \<or> sj s' = setHandler stoppedHandler (before_kill (sj s))))"
    and k: "running (job_handler (sj s)) \<Longrightarrow> proc s = Alive \<Longrightarrow> job_handler (sj s') = stoppedHandler"
  shows "ending s' \<and> (end_rank s' < end_rank s \<or> end_rank s' = end_rank s \<and> end_helpful s' = end_helpful s)"
proof (cases "proc s = Alive")
  case True
  have "job_handler (sj s') = stoppedHandler"
    using e k[OF _ True] j by (auto simp: ending_def)
  then show ?thesis using e inv s' by (intro ending_killed) (simp_all add: ending_def)
next
  case False
  have "job_handler (sj s') \<in> {stoppingHandler, stoppedHandler}"
    using e j by (auto simp: ending_def)
  with ending_not_alive[OF inv e _ s'(1) False] e s'(2) show ?thesis by (simp add: ending_def)
qed

lemma disarm_nil: "armed (disarm t j) = [] \<Longrightarrow> t \<in> fst ` set (armed j) \<Longrightarrow> fst ` set (armed j) = {t}"
  by (force simp: disarm_def filter_empty_conv)

lemma ending_step:
  assumes e: "ending s" and nd: "\<not> done_closed (sj s)" and u: "undisturbed E s a" and st: "jstep E s a s'"
  shows "done_closed (sj s') \<or>
    ending s' \<and> (end_rank s' < end_rank s \<or> end_rank s' = end_rank s \<and> end_helpful s' = end_helpful s)"
proof -
  have inv: "jinv s'" using e st jstep_inv by (auto simp: ending_def)
  have nc: "\<not> cleaning s" and h: "job_handler (sj s) \<in> {stoppingHandler, stoppedHandler}"
    using e by (auto simp: ending_def)
  from st show ?thesis
  proof (cases rule: jstep.cases)
    case (init_stop d r j w)
    have "j = sj s" using InitStop_result[OF init_stop(4)] h by auto
    then show ?thesis using ending_same[OF inv e] init_stop(2) by simp
  next
    case (stop r j w)
    have "running (job_handler (sj s)) \<Longrightarrow> proc s = Alive \<Longrightarrow> job_handler j = stoppedHandler"
      using job_Stop_kills[OF stop(4)] u stop(1) by (simp add: undisturbed_def)
    with ending_kill[OF e u _ inv] stop(1,2) job_Stop_result[OF stop(4)] show ?thesis by simp
  next
    case (logs rd j w follow)
    then show ?thesis using ending_same[OF inv e] job_Logs_result[OF logs(4)] by simp
  next
    case (logs_err x j w follow)
    then show ?thesis using ending_same[OF inv e] job_Logs_result[OF logs_err(4)] by simp
  next
    case cleanup
    then show ?thesis using u nd by (simp add: undisturbed_def)
  next
    case (cleanup_done r j w)
    then show ?thesis using nc by simp
  next
    case (die c)
    then show ?thesis using e inv nc h by (auto simp: ending_def end_rank_def)
  next
    case (wait c)
    then show ?thesis using e inv nc h by (auto simp: ending_def end_rank_def)
  next
    case (exited c r j w)
    then show ?thesis using ending_reported[OF e exited(4,5)] by simp
  next
    case (fire t)
    then show ?thesis using e inv nc h
      by (auto simp: ending_def end_rank_def end_helpful_def split: pstate.splits)
  next
    case (timer r j w)
    have "running (job_handler (sj s)) \<Longrightarrow> proc s = Alive \<Longrightarrow> job_handler j = stoppedHandler"
      using timer_stop_kills[OF timer(5)] u timer(1) by (simp add: undisturbed_def)
    with ending_kill[OF e u _ inv] timer(1,2) timer_stop_result[OF timer(5)] show ?thesis by simp
  next
    case (end_reader i r j w)
    then show ?thesis using ending_same[OF inv e] reader_Close_result[OF end_reader(5)] by simp
  next
    case (cancel i r j w)
    then show ?thesis using ending_same[OF inv e] reader_Close_result[OF cancel(4)] by simp
  qed
qed

lemma ending_helpful:
  assumes e: "ending s" and nd: "\<not> done_closed (sj s)"
  shows "job_action_enabled (end_helpful s) s"
  using assms by (cases "proc s") (auto simp: ending_def end_helpful_def jinv_def)

lemma ending_falls:
  assumes e: "ending s" and nd: "\<not> done_closed (sj s)" and u: "undisturbed E s a"
    and a: "job_action_of a = Some (end_helpful s)" and st: "jstep E s a s'"
  shows "done_closed (sj s') \<or> end_rank s' < end_rank s"
proof -
  have h: "job_handler (sj s) \<in> {stoppingHandler, stoppedHandler}" using e by (auto simp: ending_def)
  from st show ?thesis
  proof (cases rule: jstep.cases)
    case (exited c r j w)
    then show ?thesis using ending_reported[OF e exited(4,5)] by simp
  next
    case (timer r j w)
    then have p: "proc s = Alive" "job_handler (sj s) = stoppingHandler"
      using a h by (auto simp: end_helpful_def split: pstate.splits if_splits)
    then have "job_handler j = stoppedHandler"
      using timer_stop_kills[OF timer(5)] u timer(1) by (simp add: undisturbed_def)
    then show ?thesis using timer p by (simp add: end_rank_def)
  qed (use a h in \<open>auto simp: end_helpful_def end_rank_def split: pstate.splits if_splits\<close>)
qed

interpretation job_end: ranked_progress "jstep E" "undisturbed E" ending "\<lambda>s. done_closed (sj s)"
  end_rank end_helpful job_action_enabled job_action_of for E
  by unfold_locales (use ending_step ending_helpful ending_falls in blast)+

section \<open>The readers end\<close>

lemma done_stays:
  assumes "jinv s" and "done_closed (sj s)" and "jstep E s a s'"
  shows "done_closed (sj s')"
  using assms(3)
proof (cases rule: jstep.cases)
  case (init_stop d r j w)
  with InitStop_result[OF init_stop(4)] assms(2) show ?thesis by auto
next
  case (stop r j w)
  with job_Stop_result[OF stop(4)] assms(2) show ?thesis by auto
next
  case (logs rd j w follow)
  with job_Logs_result[OF logs(4)] assms(2) show ?thesis by auto
next
  case (logs_err x j w follow)
  with job_Logs_result[OF logs_err(4)] assms(2) show ?thesis by auto
next
  case (cleanup_done r j w)
  with job_Cleanup_result[OF cleanup_done(4)] assms(2) show ?thesis by (auto split: sum.splits)
next
  case (exited c r j w)
  with assms(1,2) show ?thesis by (auto simp: jinv_def)
next
  case (timer r j w)
  with timer_stop_result[OF timer(5)] assms(2) show ?thesis by auto
next
  case (end_reader i r j w)
  with reader_Close_result[OF end_reader(5)] assms(2) show ?thesis by auto
next
  case (cancel i r j w)
  with reader_Close_result[OF cancel(4)] assms(2) show ?thesis by auto
qed (use assms(2) in auto)

definition no_new_reader :: "jsys \<Rightarrow> jevent \<Rightarrow> bool" where
  "no_new_reader s a \<longleftrightarrow> (\<forall>f. a \<noteq> EvLogs f)"

lemma readers_step:
  assumes "jstep E s a s'" and "no_new_reader s a"
  shows "sreaders s' = sreaders s \<or> length (sreaders s') < length (sreaders s)"
  using assms
  by (cases rule: jstep.cases) (auto simp: no_new_reader_def length_remove_nth)

lemma readers_fall:
  assumes "jstep E s a s'" and "job_action_of a = Some ReaderEnds"
  shows "length (sreaders s') < length (sreaders s)"
  using assms
  by (cases rule: jstep.cases) (auto simp: length_remove_nth)

interpretation readers_end: ranked_progress "jstep E" no_new_reader "\<lambda>s. jinv s \<and> done_closed (sj s)"
  "\<lambda>s. sreaders s = []" "\<lambda>s. length (sreaders s)" "\<lambda>_. ReaderEnds" job_action_enabled job_action_of for E
proof unfold_locales
  fix s a s'
  assume inv: "jinv s \<and> done_closed (sj s)" and st: "jstep E s a s'"
  show "sreaders s' = [] \<or> jinv s' \<and> done_closed (sj s')"
    using inv st jstep_inv done_stays by blast
  show "sreaders s' = [] \<or> length (sreaders s') < length (sreaders s)" if "job_action_of a = Some ReaderEnds"
    using readers_fall[OF st that] by simp
  show "sreaders s' = [] \<or> length (sreaders s') < length (sreaders s) \<or>
      length (sreaders s') = length (sreaders s) \<and> ReaderEnds = ReaderEnds" if "no_new_reader s a"
    using readers_step[OF st that] by auto
qed simp

section \<open>A stopped job ends\<close>

lemma stopped_end_lasting:
  assumes run: "run_of (jstep E) s e" and fair: "fair_job s e" and start: "ending (s 0)"
    and calm: "\<And>n a. e n = Some a \<Longrightarrow> undisturbed E (s n) a"
  shows "\<exists>n. \<forall>k\<ge>n. jinv (s k) \<and> done_closed (sj (s k))"
proof -
  have fair: "weakly_fair job_action_enabled job_action_of s e" using fair by (simp add: fair_job_def)
  obtain n where n: "done_closed (sj (s n))" using job_end.eventually[OF run fair start calm] by blast
  have inv: "jinv (s k)" for k
    by (rule run_keeps[OF run, of jinv 0]) (use start jstep_inv in \<open>auto simp: ending_def\<close>)
  have "done_closed (sj (s k))" if "n \<le> k" for k
    using that by (rule run_keeps[OF run, of "\<lambda>s. done_closed (sj s)", OF n, rotated]) (rule done_stays[OF inv])
  with inv show ?thesis by blast
qed


text \<open>Both kinds of stop lead to such a state.\<close>

lemma stops_lead_to_ending:
  assumes "jreach E s" and "jstep E s a s'" and "\<not> cleaning s"
  shows "job_handler (sj s) = activeHandler \<Longrightarrow> a = EvInitStop d \<Longrightarrow>
      job_handler (sj s') = stoppingHandler \<Longrightarrow> ending s'"
    and "a = EvStop \<Longrightarrow> job_handler (sj s') = stoppedHandler \<Longrightarrow> ending s'"
proof -
  have inv: "jinv s'" using assms jreach_inv jstep_inv by blast
  {
    assume "job_handler (sj s) = activeHandler" "a = EvInitStop d" "job_handler (sj s') = stoppingHandler"
    with assms(2) inv assms(3) show "ending s'"
      by (cases rule: jstep.cases)
        (auto simp: ending_def InitStop_active arm_timer_def split: prod.splits sum.splits)
  next
    assume "a = EvStop" "job_handler (sj s') = stoppedHandler"
    with assms(2) inv assms(3) show "ending s'"
      by (cases rule: jstep.cases) (auto simp: ending_def)
  }
qed

text \<open>
  Runs that exist: finitely many steps to a state in which nothing happens by itself are
  the beginning of a fair run, and a process may die, be waited for and be reported.
\<close>

lemma jrun_steps_via: "jrun E x es t \<longleftrightarrow> steps_via (jstep E) x es t"
  by (induction es arbitrary: x) auto

lemma jrun_fair:
  assumes "jrun E x es t" and "\<And>c. \<not> job_action_enabled c t"
  shows "\<exists>s e. run_of (jstep E) s e \<and> fair_job s e \<and> s 0 = x \<and>
    (\<forall>n a. e n = Some a \<longleftrightarrow> n < length es \<and> a = es ! n)"
  using steps_via_fair[of "jstep E" x es t job_action_enabled job_action_of] assms
  unfolding jrun_steps_via fair_job_def by blast

lemma process_may_end:
  assumes x: "jinv x" "\<not> cleaning x" "proc x = Alive" "fired x = 0" "sreaders x = []"
    and j: "closes_done (job_handler (sj x))" "armed (before_kill (sj x)) = []"
  shows "\<exists>t. jrun E x [EvDie c, EvWait, EvExited] t \<and> (\<forall>a. \<not> job_action_enabled a t)"
proof -
  let ?x2 = "x\<lparr>sj := (sj x)\<lparr>job_cmd := (job_cmd (sj x))\<lparr>ProcessState := Some c\<rparr>\<rparr>, proc := Collected c\<rparr>"
  obtain r j w where ex: "job_exited E (sj ?x2, sw ?x2) = (r, (j, w))" by (metis prod.exhaust)
  let ?t = "?x2\<lparr>sj := j, sw := w, proc := Reported c, panicked := panicked ?x2 \<or> panics r\<rparr>"
  have "jstep E x (EvDie c) (x\<lparr>proc := Dead c\<rparr>)" using x(3) by (rule jstep.die)
  moreover have "jstep E (x\<lparr>proc := Dead c\<rparr>) EvWait ?x2"
    using jstep.wait[of "x\<lparr>proc := Dead c\<rparr>" c E] by simp
  moreover have "jstep E ?x2 EvExited ?t" by (rule jstep.exited[OF _ _ ex]) (simp_all add: x(2))
  ultimately have "jrun E x [EvDie c, EvWait, EvExited] ?t" by (auto simp del: jsys.update_convs)
  moreover have "armed j = []"
    using job_exited_result[OF ex] x j
    by (auto simp: jinv_def record_exit_def before_kill_def stop_timer_def disarm_def split: if_splits option.splits)
  then have "\<not> job_action_enabled a ?t" for a using x by (cases a) simp_all
  ultimately show ?thesis by blast
qed

text \<open>A run: the job is killed, its process dies, is waited for and reported.\<close>

definition demo_killed :: jsys where
  "demo_killed = (jsys_init demo_job demo_world)\<lparr>sj := setHandler stoppedHandler demo_job,
     sw := demo_world\<lparr>trace := [SSignal SIGKILL]\<rparr>\<rparr>"

lemma demo_fair_run:
  "\<exists>s e. run_of (jstep quiet_env) s e \<and> fair_job s e \<and> s 0 = demo_killed \<and> ending (s 0) \<and>
     (\<forall>n a. e n = Some a \<longrightarrow> undisturbed quiet_env (s n) a) \<and> (\<forall>k f. e k \<noteq> Some (EvLogs f))"
proof -
  note D = demo_killed_def jsys_init_def demo_job_def new_job_def
  have inv: "jinv demo_killed"
    using jreach_inv[OF jreach.step[OF reach_demo demo_stop]] by (simp add: demo_killed_def)
  have "\<exists>t. jrun quiet_env demo_killed [EvDie 137, EvWait, EvExited] t \<and> (\<forall>a. \<not> job_action_enabled a t)"
    by (rule process_may_end[OF inv]) (simp_all add: D closes_done_def before_kill_def)
  then obtain t where t: "jrun quiet_env demo_killed [EvDie 137, EvWait, EvExited] t"
    "\<And>a. \<not> job_action_enabled a t" by blast
  obtain s e where run: "run_of (jstep quiet_env) s e" "fair_job s e" "s 0 = demo_killed"
    and e: "\<forall>n a. e n = Some a \<longleftrightarrow> n < length [EvDie 137, EvWait, EvExited] \<and> a = [EvDie 137, EvWait, EvExited] ! n"
    using jrun_fair[OF t] by blast
  have start: "ending demo_killed" using inv by (simp add: ending_def) (simp add: D)
  have mem: "a \<in> set [EvDie 137, EvWait, EvExited]" if "e n = Some a" for n a
    using that e nth_mem by metis
  have "undisturbed quiet_env (s n) a" if "e n = Some a" for n a
    using mem[OF that] by (auto simp: undisturbed_def)
  moreover have "e k \<noteq> Some (EvLogs f)" for k f using mem[of k "EvLogs f"] by auto
  ultimately show ?thesis using run start by metis
qed


end
