(* ===== verification/Server_Run.thy ===== *)
theory Server_Run
  imports Server_Config Shim Fair_Runs
begin

text \<open>
  The rest of \<^verbatim>\<open>main\<close> of \<^verbatim>\<open>src/cmd/server/main.go\<close>: from the built server to the listener, and
  the life of the process from there on: requests, the signal that ends it, the two
  goroutines of the shutdown and the exit.
\<close>

section \<open>Coming up\<close>

text \<open>What \<^verbatim>\<open>os\<close>, \<^verbatim>\<open>x509\<close> and \<^verbatim>\<open>net\<close> answer.\<close>

record main_lib =
  ml_ReadFile :: "string \<Rightarrow> go_error + string"
  ml_AppendCerts :: "string \<Rightarrow> bool"
  ml_Listen :: "string \<Rightarrow> go_error option"

text \<open>The TLS configuration of the listener; the certificate it presents is that of the loader.\<close>

datatype client_auth = NoClientCert | RequireAndVerifyClientCert

record server_tls =
  st_ClientCAs :: string
  st_MinVersion :: nat
  st_ClientAuth :: client_auth

datatype 'c listen_result =
    NotUp "'c main_result"
  | Listening jobServer "'c loader" server_tls

text \<open>
  After the certificate loader: the CA of the clients is read and the listener is opened;
  every error ends the process with code 1. 772 is TLS 1.3.
\<close>

definition main_listen ::
  "main_lib \<Rightarrow> (go_error + server_config) \<Rightarrow> (string \<Rightarrow> string \<Rightarrow> go_error + 'c) \<Rightarrow> world \<Rightarrow> 'c listen_result" where
  "main_listen L config pair w =
     (case main_build config pair w of
        MainReady js l \<Rightarrow>
          (case config of
             Inl e \<Rightarrow> NotUp (MainExit ''failed to start the server'')
           | Inr cfg \<Rightarrow>
               (case ml_ReadFile L (tls_CAPath cfg) of
                  Inl e \<Rightarrow> NotUp (MainExit ''failed to load CA cert'')
                | Inr ca \<Rightarrow>
                    if \<not> ml_AppendCerts L ca then NotUp (MainExit ''failed to add CA cert'')
                    else case ml_Listen L (Address cfg) of
                      Some e \<Rightarrow> NotUp (MainExit ''failed to start server'')
                    | None \<Rightarrow> Listening js l
                        \<lparr>st_ClientCAs = ca, st_MinVersion = 772, st_ClientAuth = RequireAndVerifyClientCert\<rparr>))
      | r \<Rightarrow> NotUp r)"

text \<open>
  Before all that the number of the process is written to the file of \<^verbatim>\<open>--pid\<close>, if there is
  one, with \<^verbatim>\<open>os.WriteFile\<close>, which creates or empties the file, writes and closes it; an error
  is ignored. \<open>look_up\<close> is \<^verbatim>\<open>FindConfig\<close> on the name of the configuration.
\<close>

definition write_pidfile :: "os_env \<Rightarrow> string \<Rightarrow> (world, unit) sm" where
  "write_pidfile E p =
     (if p = [] then sm_ret ()
      else sm_try (sm_then (os_do E (SCreate p))
             (sm_finally (os_do E (SAppend p (int_dec (os_pid E)))) (sm_try (os_do E (SClose p))))))"

definition main_server ::
  "os_env \<Rightarrow> main_lib \<Rightarrow> server_flags \<Rightarrow> (string \<Rightarrow> go_error + server_config) \<Rightarrow>
     (string \<Rightarrow> string \<Rightarrow> go_error + 'c) \<Rightarrow> world \<Rightarrow> 'c listen_result" where
  "main_server E L f look_up pair w =
     main_listen L (look_up (fl_config f)) pair (snd (write_pidfile E (fl_pidfile f) w))"

lemma main_listen_ready:
  "main_listen L config pair w = Listening js l t \<Longrightarrow> \<exists>cfg. config = Inr cfg \<and> srv_New cfg w = Inr js"
  by (auto simp: main_listen_def main_build_def split: main_result.splits sum.splits if_splits
      option.splits prod.splits outcome.splits)

lemma main_listen_world: "main_listen L config pair w = Listening js l t \<Longrightarrow> sup_world (srv_jobs js) = w"
  by (auto dest!: main_listen_ready simp: srv_New_result sup_New_def split: option.splits)

lemma pidfile_written:
  assumes "no_faults E" and "p \<noteq> []" and "parent_ok (fs w) p" and "map_of (fs w) p \<noteq> Some Dir"
  shows "map_of (fs (snd (write_pidfile E p w))) p = Some (File (int_dec (os_pid E)))"
  using assms
  by (simp add: write_pidfile_def no_faults_def sm_defs os_do_def os_call_def Let_def fs_create_def
      fs_write_def
      split: option.splits)

text \<open>
  C26. From the configuration to the running service: when the configuration could be read
  and the configured or, with priority, the given user and group exist, the server listens
  if its key pair and the CA can be loaded and the address is free; its jobs run with the
  ids of that user and group and there are none yet, it has a certificate, which is reloaded
  at the configured interval, or every 30 seconds if none is configured, and it accepts only
  clients with a certificate of this CA. Building it never panics, and whether the file of
  \<^verbatim>\<open>--pid\<close> could be written makes no difference; without faults it holds the process number.
\<close>

theorem configured_server_listens:
  assumes "usr (case fuid of None \<Rightarrow> ids_UID conf | Some v \<Rightarrow> v) = Some (int_dec uid)"
    and "grp (case fgid of None \<Rightarrow> ids_GID conf | Some v \<Rightarrow> v) = Some (int_dec gid)"
    and "int64 uid" and "int64 gid" and "tls_ReloadSec conf \<le> 9223372036"
    and "pair (tls_CertPath conf) (tls_KeyPath conf) = Inr c"
    and "ml_ReadFile L (tls_CAPath conf) = Inr ca" and "ml_AppendCerts L ca"
    and "ml_Listen L (Address conf) = None"
    and "look_up (fl_config f) = FindConfig usr grp fuid fgid (Inr ()) (Inr conf)"
  shows "\<exists>js l. main_server E L f look_up pair w = Listening js l
      \<lparr>st_ClientCAs = ca, st_MinVersion = 772, st_ClientAuth = RequireAndVerifyClientCert\<rparr> \<and>
    sup_ids (srv_jobs js) = \<lparr>UID = uid, GID = gid\<rparr> \<and> jobs (srv_jobs js) = [] \<and>
    loader_Cert l = Some c \<and> running_tickers l \<noteq> [] \<and>
    Reload l = (if tls_ReloadSec conf \<le> 0 then 30 else tls_ReloadSec conf) * time_Second \<and>
    (no_faults E \<and> fl_pidfile f \<noteq> [] \<and> parent_ok (fs w) (fl_pidfile f) \<and>
       map_of (fs w) (fl_pidfile f) \<noteq> Some Dir \<longrightarrow>
     map_of (fs (sup_world (srv_jobs js))) (fl_pidfile f) = Some (File (int_dec (os_pid E))))"
proof -
  let ?w = "snd (write_pidfile E (fl_pidfile f) w)"
  obtain js l where b: "main_build (FindConfig usr grp fuid fgid (Inr ()) (Inr conf)) pair ?w = MainReady js l"
    and r: "sup_ids (srv_jobs js) = \<lparr>UID = uid, GID = gid\<rparr>" "jobs (srv_jobs js) = []"
      "loader_Cert l = Some c" "running_tickers l \<noteq> []"
      "Reload l = (if tls_ReloadSec conf \<le> 0 then 30 else tls_ReloadSec conf) * time_Second"
    using configured_server_builds[where usr = usr and grp = grp and fuid = fuid and fgid = fgid and pair = pair] assms(1-6) by blast
  obtain cfg where f: "FindConfig usr grp fuid fgid (Inr ()) (Inr conf) = Inr cfg"
    "tls_CAPath cfg = tls_CAPath conf" "Address cfg = Address conf"
    by (simp add: FindConfig_def)
  have up: "main_server E L f look_up pair w = Listening js l
      \<lparr>st_ClientCAs = ca, st_MinVersion = 772, st_ClientAuth = RequireAndVerifyClientCert\<rparr>"
    using b f assms(7-10) by (simp add: main_server_def main_listen_def)
  then have "sup_world (srv_jobs js) = ?w" unfolding main_server_def by (rule main_listen_world)
  with up r pidfile_written show ?thesis by (intro exI[of _ js] exI[of _ l]) simp
qed

theorem configured_server_listens_witness:
  "\<exists>js l t. main_server quiet_env
        \<lparr>ml_ReadFile = (\<lambda>_. Inr ''pem''), ml_AppendCerts = (\<lambda>_. True), ml_Listen = (\<lambda>_. None)\<rparr>
        (default_flags\<lparr>fl_pidfile := ''pid''\<rparr>)
        (\<lambda>_. FindConfig (\<lambda>n. if n = ''nobody'' then Some (int_dec 99) else None)
          (\<lambda>n. Some (int_dec 7)) (Some ''nobody'') None (Inr ()) (Inr demo_config)) (\<lambda>_ _. Inr ''cert'') empty_world
      = Listening js l t \<and> sup_ids (srv_jobs js) = \<lparr>UID = 99, GID = 7\<rparr> \<and> loader_Cert l = Some ''cert'' \<and>
     map_of (fs (sup_world (srv_jobs js))) ''pid'' = Some (File (int_dec 1))"
proof -
  let ?usr = "\<lambda>n. if n = ''nobody'' then Some (int_dec 99) else None"
  let ?find = "\<lambda>_ :: string. FindConfig ?usr (\<lambda>n. Some (int_dec 7)) (Some ''nobody'') None (Inr ()) (Inr demo_config)"
  let ?pair = "\<lambda>(_ :: string) (_ :: string). (Inr ''cert'' :: go_error + string)"
  let ?L = "\<lparr>ml_ReadFile = (\<lambda>_. Inr ''pem''), ml_AppendCerts = (\<lambda>_. True), ml_Listen = (\<lambda>_. None)\<rparr>"
  let ?f = "default_flags\<lparr>fl_pidfile := ''pid''\<rparr>"
  have "int64 99" "int64 7" "tls_ReloadSec demo_config \<le> 9223372036"
    by (simp_all add: int64_def demo_config_def)
  then have "\<exists>js l. main_server quiet_env ?L ?f ?find ?pair empty_world = Listening js l
        \<lparr>st_ClientCAs = ''pem'', st_MinVersion = 772, st_ClientAuth = RequireAndVerifyClientCert\<rparr> \<and>
      sup_ids (srv_jobs js) = \<lparr>UID = 99, GID = 7\<rparr> \<and> jobs (srv_jobs js) = [] \<and>
      loader_Cert l = Some ''cert'' \<and> running_tickers l \<noteq> [] \<and>
      Reload l = (if tls_ReloadSec demo_config \<le> 0 then 30 else tls_ReloadSec demo_config) * time_Second \<and>
      (no_faults quiet_env \<and> fl_pidfile ?f \<noteq> [] \<and> parent_ok (fs empty_world) (fl_pidfile ?f) \<and>
         map_of (fs empty_world) (fl_pidfile ?f) \<noteq> Some Dir \<longrightarrow>
       map_of (fs (sup_world (srv_jobs js))) (fl_pidfile ?f) = Some (File (int_dec (os_pid quiet_env))))"
    by (intro configured_server_listens) simp_all
  moreover have "parent_ok (fs empty_world) ''pid''" "map_of (fs empty_world) ''pid'' = None"
    "os_pid quiet_env = 1"
    by (simp_all add: parent_ok_def parent_dir_def slash_def empty_world_def quiet_env_def)
  ultimately show ?thesis by auto
qed

section \<open>Starting a job in two steps\<close>

text \<open>
  \<^verbatim>\<open>Start\<close> of the supervisor creates the job before it takes the lock and registers it with
  the lock held; \<open>register_job\<close> is the second part.
\<close>

definition register_job :: "job \<Rightarrow> supervisor \<Rightarrow> supervisor" where
  "register_job j s =
     (put_job (next_ref s) j (sup_world s) s)
       \<lparr>jobs := AList.update (ID j) (next_ref s) (jobs s), next_ref := Suc (next_ref s)\<rparr>"

lemma sup_Start_register:
  "sup_Start E cmd args lim s =
     (case createJob E cmd args lim (sup_ids s) (sup_world s) of
        (Inl e, w) \<Rightarrow> (Inl e, s\<lparr>sup_world := w\<rparr>)
      | (Inr j, w) \<Rightarrow> (Inr (ID j), register_job j (s\<lparr>sup_world := w\<rparr>)))"
  by (simp add: sup_Start_def register_job_def put_job_def split: prod.splits sum.splits)

lemma sup_sane_register:
  assumes "sup_sane s" and "\<forall>r k. store s r = Some k \<longrightarrow> ID k \<noteq> ID j"
  shows "sup_sane (register_job j s)"
proof -
  have new: "\<forall>r k. store s r = Some k \<longrightarrow> ID j \<noteq> ID k" using assms(2) by metis
  have old: "q \<noteq> next_ref s" if "store s q = Some k" for q k
    using assms(1) that by (auto simp: sup_sane_def refs_ok_def)
  have keys: "\<exists>k. store s q = Some k \<and> ID k = n" if "map_of (jobs s) n = Some q" for n q
    using assms(1) that by (auto elim: sup_saneD)
  have "keys_ok (register_job j s)"
    using assms(1) keys old by (fastforce simp: keys_ok_def sup_sane_def register_job_def split: if_splits)
  moreover have "refs_ok (register_job j s)"
    using assms new old by (auto simp: refs_ok_def sup_sane_def register_job_def less_Suc_eq split: if_splits)
  ultimately show ?thesis by (simp add: sup_sane_def)
qed

section \<open>What the goroutines of the jobs do\<close>

inductive goroutines :: "supervisor \<Rightarrow> supervisor \<Rightarrow> bool" where
  none: "goroutines s s"
| one: "goroutines s (put_job r j' w t)" if "goroutines s t" and "store t r = Some j" and "follows j j'"

lemma goroutines_keep:
  assumes "goroutines s t"
  shows "jobs t = jobs s \<and> (\<forall>r. store s r \<noteq> None \<longrightarrow> store t r \<noteq> None) \<and> (sup_sane s \<longrightarrow> sup_sane t)"
  using assms
proof (induction rule: goroutines.induct)
  case (one s t r j j' w)
  then show ?case using sup_sane_put[of t r j j' w] by (auto simp: follows_def)
qed simp

lemma goroutines_on_job:
  assumes "store s r = Some j" and "\<And>x j' w'. m (j, sup_world s) = (x, (j', w')) \<Longrightarrow> follows j j'"
  shows "goroutines s (snd (on_job r m s))"
proof -
  obtain x j' w' where m: "m (j, sup_world s) = (x, (j', w'))" by (metis prod.exhaust)
  then have "snd (on_job r m s) = put_job r j' w' s"
    using assms(1) by (simp add: on_job_def job_at_def)
  then show ?thesis using goroutines.one[OF goroutines.none assms(1) assms(2)[OF m]] by simp
qed

lemma goroutines_trans: "goroutines t u \<Longrightarrow> goroutines s t \<Longrightarrow> goroutines s u"
  by (induction rule: goroutines.induct) (auto intro: goroutines.intros)

lemma goroutines_stop_jobs:
  "(\<And>r. r \<in> set rs \<Longrightarrow> store s r \<noteq> None) \<Longrightarrow> goroutines s (stop_jobs E rs s)"
proof (induction rs arbitrary: s)
  case (Cons r rs)
  let ?t = "snd (on_job r (InitStop E (10 * time_Second)) s)"
  obtain j where "store s r = Some j" using Cons.prems by fastforce
  then have g: "goroutines s ?t" by (rule goroutines_on_job) (rule follows_InitStop)
  have "store ?t q \<noteq> None" if "q \<in> set rs" for q
    using goroutines_keep[OF g] Cons.prems[of q] that by simp
  then have "goroutines ?t (stop_jobs E rs ?t)" by (rule Cons.IH)
  from goroutines_trans[OF this g] show ?case by (simp add: stop_jobs_def)
qed (simp add: stop_jobs_def goroutines.none)

lemma goroutines_cleanup_jobs:
  "(\<And>r. r \<in> set rs \<Longrightarrow> store s r \<noteq> None) \<Longrightarrow> goroutines s (snd (cleanup_jobs E rs s))"
proof (induction rs arbitrary: s)
  case (Cons r rs)
  obtain j where j: "store s r = Some j" using Cons.prems by fastforce
  obtain x j' w' where m: "job_Cleanup E (j, sup_world s) = (x, (j', w'))" by (metis prod.exhaust)
  let ?t = "put_job r j' w' s"
  have c: "on_job_outcome r (job_Cleanup E) s = (x, ?t)" using j m by (simp add: on_job_outcome_def job_at_def)
  have g: "goroutines s ?t" using goroutines.one[OF goroutines.none j follows_Cleanup[OF m]] .
  have "goroutines ?t (snd (cleanup_jobs E rs ?t))"
    using goroutines_keep[OF g] Cons.prems by (intro Cons.IH) simp
  from goroutines_trans[OF this g] g show ?case using c by (cases x) simp_all
qed (simp add: goroutines.none)

section \<open>The process\<close>

text \<open>
  The state of the running server: the calls of \<^verbatim>\<open>Start\<close> that have created their job and wait
  for the lock, with the client of each; the signal; the two goroutines of the shutdown
  (\<^verbatim>\<open>GracefulStop\<close> of gRPC and \<^verbatim>\<open>StopServer\<close>) and the wait group; the exit code. \<open>mn_late\<close> records
  the identifiers that were registered after \<^verbatim>\<open>StopServer\<close> had returned.
\<close>

record main_state =
  mn_srv :: jobServer
  mn_creating :: "(string \<times> job) list"
  mn_signalled :: bool
  mn_grpc_done :: bool
  mn_jobs_done :: bool
  mn_wg :: nat
  mn_exit :: "nat option"
  mn_late :: "string list"

text \<open>The identifiers that the store knows, registered or not.\<close>

definition known :: "supervisor \<Rightarrow> string \<Rightarrow> bool" where
  "known s i \<longleftrightarrow> (\<exists>r j. store s r = Some j \<and> ID j = i)"

definition main_init :: "jobServer \<Rightarrow> main_state" where
  "main_init js =
     \<lparr>mn_srv = js, mn_creating = [], mn_signalled = False, mn_grpc_done = False, mn_jobs_done = False,
      mn_wg = 0, mn_exit = None, mn_late = []\<rparr>"

definition with_sup :: "(supervisor \<Rightarrow> supervisor) \<Rightarrow> main_state \<Rightarrow> main_state" where
  "with_sup f m = m\<lparr>mn_srv := (mn_srv m)\<lparr>srv_jobs := f (srv_jobs (mn_srv m))\<rparr>\<rparr>"

definition register_start :: "string \<Rightarrow> job \<Rightarrow> jobServer \<Rightarrow> jobServer" where
  "register_start cid j s =
     s\<lparr>srv_jobs := register_job j (srv_jobs s), srv_auth := snd (SetOwner (ID j) cid (srv_auth s))\<rparr>"

text \<open>
  \<^verbatim>\<open>GracefulStop\<close> returns when no call is pending; then \<^verbatim>\<open>Serve\<close> returns without an error and
  \<^verbatim>\<open>main\<close> waits for the group. While \<^verbatim>\<open>StopServer\<close> runs it holds the lock of the supervisor, so
  only the goroutines of the jobs change anything. Identifiers of new jobs are unique.
\<close>

datatype main_event =
    MnCreate
  | MnRefuse
  | MnRegister string job
  | MnRequest
  | MnJob
  | MnSignal
  | MnGrpcStopped
  | MnJobsStopped
  | MnExit
  | MnFail

inductive main_step :: "os_env \<Rightarrow> main_state \<Rightarrow> main_event \<Rightarrow> main_state \<Rightarrow> bool" for E where
  create: "main_step E m MnCreate (with_sup (\<lambda>s. s\<lparr>sup_world := w\<rparr>) m\<lparr>mn_creating := (cid, j) # mn_creating m\<rparr>)"
    if "mn_exit m = None" and "\<not> mn_grpc_done m"
      and "createJob E cmd args lim (sup_ids (srv_jobs (mn_srv m))) (sup_world (srv_jobs (mn_srv m))) = (Inr j, w)"
| create_err: "main_step E m MnRefuse (with_sup (\<lambda>s. s\<lparr>sup_world := w\<rparr>) m)"
    if "mn_exit m = None" and "\<not> mn_grpc_done m"
      and "createJob E cmd args lim (sup_ids (srv_jobs (mn_srv m))) (sup_world (srv_jobs (mn_srv m))) = (Inl e, w)"
| register: "main_step E m (MnRegister cid j) (m\<lparr>mn_srv := register_start cid j (mn_srv m),
      mn_creating := remove1 (cid, j) (mn_creating m),
      mn_late := (if mn_jobs_done m then ID j # mn_late m else mn_late m)\<rparr>)"
    if "mn_exit m = None" and "(cid, j) \<in> set (mn_creating m)"
      and "\<forall>r k. store (srv_jobs (mn_srv m)) r = Some k \<longrightarrow> ID k \<noteq> ID j"
| request: "main_step E m MnRequest (m\<lparr>mn_srv := s'\<rparr>)"
    if "mn_exit m = None" and "\<not> mn_grpc_done m" and "authID ctx = (cid, True)" and "req_job req = Some i"
      and "srv_handle E ctx req (mn_srv m) = (Ret res, s')"
| job: "main_step E m MnJob (with_sup (put_job r j' w) m)"
    if "mn_exit m = None" and "store (srv_jobs (mn_srv m)) r = Some j" and "follows j j'"
| signal: "main_step E m MnSignal (m\<lparr>mn_signalled := True, mn_wg := mn_wg m + 2\<rparr>)"
    if "mn_exit m = None" and "\<not> mn_signalled m"
| grpc_stopped: "main_step E m MnGrpcStopped (m\<lparr>mn_grpc_done := True, mn_wg := mn_wg m - 1\<rparr>)"
    if "mn_exit m = None" and "mn_signalled m" and "\<not> mn_grpc_done m" and "mn_creating m = []"
| jobs_stopped: "main_step E m MnJobsStopped (m\<lparr>mn_srv := s', mn_jobs_done := True, mn_wg := mn_wg m - 1\<rparr>)"
    if "mn_exit m = None" and "mn_signalled m" and "\<not> mn_jobs_done m"
      and "set rs = ran (map_of (jobs (srv_jobs (mn_srv m))))" and "distinct rs"
      and "set rs' = set rs" and "distinct rs'"
      and "goroutines (stop_jobs E rs (srv_jobs (mn_srv m))) (others (stop_jobs E rs (srv_jobs (mn_srv m))))"
      and "StopServer E rs others rs' (mn_srv m) = (Ret (), s')"
| exit_ok: "main_step E m MnExit (m\<lparr>mn_exit := Some 0\<rparr>)"
    if "mn_exit m = None" and "mn_grpc_done m" and "mn_wg m = 0"
| exit_err: "main_step E m MnFail (m\<lparr>mn_exit := Some 1\<rparr>)"
    if "mn_exit m = None" and "\<not> mn_grpc_done m"

inductive main_reach :: "os_env \<Rightarrow> main_state \<Rightarrow> bool" for E where
  init: "main_reach E (main_init js)" if "srv_New cfg w = Inr js"
| step: "main_reach E m \<Longrightarrow> main_step E m e m' \<Longrightarrow> main_reach E m'"

section \<open>The shutdown\<close>

definition late_ok :: "supervisor \<Rightarrow> string list \<Rightarrow> bool" where
  "late_ok s late \<longleftrightarrow>
     (\<forall>i j. sup_entry s i = Some j \<longrightarrow> job_handler j = zombieHandler \<or> i \<in> set late)"

definition main_inv :: "main_state \<Rightarrow> bool" where
  "main_inv m \<longleftrightarrow> sup_sane (srv_jobs (mn_srv m)) \<and>
     (mn_jobs_done m \<longrightarrow> late_ok (srv_jobs (mn_srv m)) (mn_late m)) \<and>
     mn_wg m = (if mn_signalled m
       then (if mn_grpc_done m then 0 else 1) + (if mn_jobs_done m then 0 else 1) else 0) \<and>
     (mn_grpc_done m \<or> mn_jobs_done m \<longrightarrow> mn_signalled m) \<and>
     (mn_grpc_done m \<longrightarrow> mn_creating m = []) \<and>
     (\<not> mn_jobs_done m \<longrightarrow> mn_late m = []) \<and>
     (mn_exit m = Some 0 \<longrightarrow> mn_grpc_done m \<and> mn_jobs_done m)"

lemma late_ok_put:
  assumes "sup_sane s" and "store s r = Some j" and "follows j j'" and "late_ok s late"
  shows "late_ok (put_job r j' w s) late"
  using assms(2-4)
  by (auto simp: late_ok_def sup_entry_def follows_def split: option.splits if_splits)

lemma late_ok_call:
  assumes "sup_sane s" and "late_ok s late" and "sup_call E op i s = (res, s')"
  shows "late_ok s' late"
  unfolding late_ok_def
proof (intro allI impI)
  fix i' k assume k: "sup_entry s' i' = Some k"
  have "\<exists>j. sup_entry s i' = Some j \<and> follows j k"
  proof (cases "i' = i")
    case True
    with sup_call_entry[OF assms(1,3)] k show ?thesis by blast
  next
    case False
    with sup_call_others[OF assms(1,3)] k show ?thesis by (metis follows_refl)
  qed
  with assms(2) show "job_handler k = zombieHandler \<or> i' \<in> set late"
    by (auto simp: late_ok_def follows_def)
qed

lemma sup_world_ok:
  "sup_sane (s\<lparr>sup_world := w\<rparr>) = sup_sane s" "late_ok (s\<lparr>sup_world := w\<rparr>) late = late_ok s late"
proof -
  have "sup_entry (s\<lparr>sup_world := w\<rparr>) i = sup_entry s i" for i
    by (simp add: sup_entry_def split: option.splits)
  then show "late_ok (s\<lparr>sup_world := w\<rparr>) late = late_ok s late" by (simp add: late_ok_def)
qed (simp add: sup_sane_def keys_ok_def refs_ok_def)

lemma entry_register:
  assumes "sup_sane s"
  shows "sup_entry (register_job j s) i = (if i = ID j then Some j else sup_entry s i)"
proof (cases "i = ID j")
  case False
  have "r \<noteq> next_ref s" if "map_of (jobs s) i = Some r" for r
    using assms that by (auto simp: sup_sane_def refs_ok_def elim: sup_saneD[OF assms])
  with False show ?thesis by (simp add: sup_entry_def register_job_def split: option.splits)
qed (simp add: sup_entry_def register_job_def)

lemma late_ok_register:
  assumes "sup_sane s" and "late_ok s late"
  shows "late_ok (register_job j s) (ID j # late)"
  using assms by (auto simp: late_ok_def entry_register split: if_splits)

lemma request_call:
  assumes "authID ctx = (cid, True)" and "req_job req = Some i" and "srv_handle E ctx req s = (res, s')"
  shows "srv_jobs s' = srv_jobs s \<or> (\<exists>r. sup_call E (req_op req) i (srv_jobs s) = (r, srv_jobs s'))"
  using assms(3) unfolding srv_handle_call[OF assms(1,2)]
  by (auto split: if_splits prod.splits outcome.splits sum.splits)

lemma StopServer_goroutines:
  assumes sane: "sup_sane (srv_jobs s)"
    and rs: "set rs = ran (map_of (jobs (srv_jobs s)))" "set rs' = set rs"
    and g: "goroutines (stop_jobs E rs (srv_jobs s)) (others (stop_jobs E rs (srv_jobs s)))"
    and run: "StopServer E rs others rs' s = (Ret (), s')"
  shows "goroutines (srv_jobs s) (srv_jobs s')"
proof -
  let ?s = "srv_jobs s"
  define s2 where "s2 = others (stop_jobs E rs ?s)"
  have reg: "store ?s r \<noteq> None" if "r \<in> set rs" for r
    using that sane rs(1) by (auto simp: ran_def elim: sup_saneD)
  have g2: "goroutines ?s s2"
    unfolding s2_def using g by (rule goroutines_trans) (rule goroutines_stop_jobs, rule reg)
  have c: "cleanup_jobs E rs' s2 = (Ret (), srv_jobs s')"
    using run by (auto simp: StopServer_def StopSupervisor_def Let_def s2_def[symmetric] wait_jobs_def
        split: if_splits prod.splits)
  have "goroutines s2 (snd (cleanup_jobs E rs' s2))"
    using reg goroutines_keep[OF g2] rs(2) by (intro goroutines_cleanup_jobs) blast
  with c g2 show ?thesis using goroutines_trans by simp
qed

lemma stopped_server:
  assumes sane: "sup_sane (srv_jobs s)" and nf: "no_faults E"
    and rs: "set rs = ran (map_of (jobs (srv_jobs s)))" "distinct rs" "set rs' = set rs" "distinct rs'"
    and g: "goroutines (stop_jobs E rs (srv_jobs s)) (others (stop_jobs E rs (srv_jobs s)))"
    and run: "StopServer E rs others rs' s = (Ret (), s')"
  shows "sup_sane (srv_jobs s') \<and> late_ok (srv_jobs s') []"
proof -
  let ?s = "srv_jobs s"
  define s1 where "s1 = stop_jobs E rs ?s"
  define s2 where "s2 = others s1"
  obtain s3 where st: "StopSupervisor E rs others rs' ?s = (Ret (), s3)" and s': "s' = s\<lparr>srv_jobs := s3\<rparr>"
    using run by (auto simp: StopServer_def split: prod.splits)
  have "jobs s2 = jobs s1 \<and> (\<forall>r. store s1 r \<noteq> None \<longrightarrow> store s2 r \<noteq> None)"
    using goroutines_keep[OF g] by (simp add: s1_def s2_def)
  note R = StopSupervisor_result[OF sane rs(1,2,3,4) this s1_def s2_def st]
  have "sup_sane s3"
    using goroutines_keep[OF StopServer_goroutines[OF sane rs(1,3) g run]] sane s' by simp
  moreover have "late_ok s3 []"
    unfolding late_ok_def
  proof (intro allI impI disjI1)
    fix i j assume e: "sup_entry s3 i = Some j"
    then have "map_of (jobs s3) i \<noteq> None" by (auto simp: sup_entry_def split: option.splits)
    then have "map_of (jobs ?s) i \<noteq> None" using R by simp
    with R nf e show "job_handler j = zombieHandler" by fastforce
  qed
  ultimately show ?thesis by (simp add: s')
qed

lemma main_inv_step:
  assumes "main_step E m e m'" and "main_inv m" and "no_faults E"
  shows "main_inv m'"
  using assms(1)
proof (cases rule: main_step.cases)
  case (create cmd args lim j w cid)
  with assms(2) show ?thesis by (auto simp: main_inv_def with_sup_def sup_world_ok)
next
  case (create_err cmd args lim er w)
  with assms(2) show ?thesis by (auto simp: main_inv_def with_sup_def sup_world_ok)
next
  case (register cid j)
  let ?s = "srv_jobs (mn_srv m)"
  have "sup_sane ?s" using assms(2) by (simp add: main_inv_def)
  note R = sup_sane_register[OF this register(5)] late_ok_register[OF this, of "mn_late m" j]
  have "mn_creating m \<noteq> []" using register(4) by auto
  with assms(2) register(1,2,3) R show ?thesis by (auto simp: main_inv_def register_start_def)
next
  case (request ctx cid req i res s')
  let ?s = "srv_jobs (mn_srv m)"
  have sane: "sup_sane ?s" using assms(2) by (simp add: main_inv_def)
  have "sup_sane (srv_jobs s')" "late_ok ?s (mn_late m) \<longrightarrow> late_ok (srv_jobs s') (mn_late m)"
    using request_call[OF request(5-7)] sane sup_call_sane[OF sane] late_ok_call[OF sane] by metis+
  with assms(2) request(1,2,3) show ?thesis by (auto simp: main_inv_def)
next
  case (job r j j' w)
  have "sup_sane (srv_jobs (mn_srv m))" using assms(2) by (simp add: main_inv_def)
  note R = sup_sane_put[OF this job(4), of j' w] late_ok_put[OF this job(4,5), of "mn_late m" w]
  with assms(2) job(1,2,3,5) show ?thesis by (auto simp: main_inv_def with_sup_def follows_def)
next
  case (jobs_stopped rs rs' others s')
  have "sup_sane (srv_jobs (mn_srv m))" using assms(2) by (simp add: main_inv_def)
  from stopped_server[OF this assms(3) jobs_stopped(6-11)]
  have "sup_sane (srv_jobs s')" "late_ok (srv_jobs s') (mn_late m)" by (auto simp: late_ok_def)
  with assms(2) jobs_stopped(1-5) show ?thesis by (auto simp: main_inv_def)
qed (use assms(2) in \<open>auto simp: main_inv_def split: if_splits\<close>)

lemma main_reach_inv: "main_reach E m \<Longrightarrow> no_faults E \<Longrightarrow> main_inv m"
proof (induction rule: main_reach.induct)
  case (init cfg w js)
  then have "sup_sane (srv_jobs js)" using srv_inv_new[of cfg w js] by (simp add: srv_inv_def)
  then show ?case by (simp add: main_inv_def main_init_def)
qed (blast intro: main_inv_step)


text \<open>
  A run in which a client asks for a job, the signal arrives, \<^verbatim>\<open>StopServer\<close> finds no job and
  returns, the call registers its job and returns, and the server exits.
\<close>

lemma late_start_run:
  "\<exists>s m j. main_reach (mounts_env [] []) s \<and> mn_signalled s \<and> mn_exit s = None \<and> \<not> mn_jobs_done s \<and>
     mn_creating s = [(''bob'', j)] \<and> store (srv_jobs (mn_srv s)) = (\<lambda>_. None) \<and>
     steps_via (main_step (mounts_env [] [])) s
       [MnJobsStopped, MnRegister ''bob'' j, MnGrpcStopped, MnExit] m \<and>
     main_reach (mounts_env [] []) m \<and> mn_exit m = Some 0 \<and> mn_late m = [''x''] \<and>
     ID j = ''x'' \<and> fresh_job j \<and> sup_entry (srv_jobs (mn_srv m)) ''x'' = Some j"
proof -
  let ?E = "mounts_env [] []"
  obtain j w where c: "createJob ?E ''ls'' [''-l''] no_limits root_ids empty_world = (Inr j, w)"
    using demo_createJob by blast
  note J = createJob_result[OF c]
  have i: "ID j = ''x''" using J by (simp add: mounts_env_def)
  define m0 where "m0 = main_init new_srv"
  define m1 where "m1 = with_sup (\<lambda>s. s\<lparr>sup_world := w\<rparr>) m0\<lparr>mn_creating := (''bob'', j) # mn_creating m0\<rparr>"
  define m2 where "m2 = m1\<lparr>mn_signalled := True, mn_wg := mn_wg m1 + 2\<rparr>"
  define m3 where "m3 = m2\<lparr>mn_srv := mn_srv m2, mn_jobs_done := True, mn_wg := mn_wg m2 - 1\<rparr>"
  define m4 where "m4 = m3\<lparr>mn_srv := register_start ''bob'' j (mn_srv m3),
      mn_creating := remove1 (''bob'', j) (mn_creating m3),
      mn_late := (if mn_jobs_done m3 then ID j # mn_late m3 else mn_late m3)\<rparr>"
  define m5 where "m5 = m4\<lparr>mn_grpc_done := True, mn_wg := mn_wg m4 - 1\<rparr>"
  define m6 where "m6 = m5\<lparr>mn_exit := Some 0\<rparr>"
  note D = m0_def m1_def m2_def m3_def m4_def m5_def m6_def main_init_def with_sup_def
  have s: "srv_jobs (mn_srv m3) = (sup_New 0 0 empty_world)\<lparr>sup_world := w\<rparr>" by (simp add: D new_srv_def)
  have r: "main_reach ?E m0" unfolding m0_def using main_reach.init[OF demo_srv_New] .
  have s1: "main_step ?E m0 MnCreate m1" unfolding m1_def
    using c by (intro main_step.create) (simp_all add: m0_def main_init_def new_srv_def sup_New_def root_ids_def)
  have s2: "main_step ?E m1 MnSignal m2" unfolding m2_def
    by (intro main_step.signal) (simp_all add: D)
  have s3: "main_step ?E m2 MnJobsStopped m3" unfolding m3_def
    by (rule main_step.jobs_stopped[where rs = "[]" and rs' = "[]" and others = id])
      (simp_all add: D new_srv_def sup_New_def StopServer_def StopSupervisor_def stop_jobs_def wait_jobs_def
        goroutines.none)
  have s4: "main_step ?E m3 (MnRegister ''bob'' j) m4" unfolding m4_def
    by (intro main_step.register) (simp_all add: s sup_New_def, simp_all add: D)
  have s5: "main_step ?E m4 MnGrpcStopped m5" unfolding m5_def
    by (intro main_step.grpc_stopped) (simp_all add: D)
  have s6: "main_step ?E m5 MnExit m6" unfolding m6_def
    by (intro main_step.exit_ok) (simp_all add: D)
  note r2 = main_reach.step[OF main_reach.step[OF r s1] s2]
  have "main_reach ?E m6"
    by (rule main_reach.step[OF main_reach.step[OF main_reach.step[OF main_reach.step[OF r2 s3] s4] s5] s6])
  moreover have "steps_via (main_step ?E) m2 [MnJobsStopped, MnRegister ''bob'' j, MnGrpcStopped, MnExit] m6"
    using s3 s4 s5 s6 by auto
  moreover have "mn_exit m6 = Some 0 \<and> mn_late m6 = [''x'']" using i by (simp add: D)
  moreover have "srv_jobs (mn_srv m6) = register_job j (srv_jobs (mn_srv m3))"
    by (simp add: m6_def m5_def m4_def register_start_def)
  then have "sup_entry (srv_jobs (mn_srv m6)) ''x'' = Some j"
    using i by (simp add: sup_entry_def register_job_def)
  moreover have "mn_signalled m2" "mn_exit m2 = None" "\<not> mn_jobs_done m2" "mn_creating m2 = [(''bob'', j)]"
    "store (srv_jobs (mn_srv m2)) = (\<lambda>_. None)"
    by (simp_all add: D new_srv_def sup_New_def)
  ultimately show ?thesis using J i r2 by blast
qed

lemma no_faults_mounts: "no_faults (mounts_env [] g)"
  by (simp add: no_faults_def mounts_env_def)


text \<open>
  C34. The shutdown can leave a job behind: a call of \<^verbatim>\<open>Start\<close> that has created its job when
  the signal arrives registers it after \<^verbatim>\<open>StopServer\<close> has returned, and the server exits with
  code 0 while the job runs.
\<close>

theorem shutdown_can_leave_job:
  "\<exists>E m i j. no_faults E \<and> main_reach E m \<and> mn_exit m = Some 0 \<and>
     sup_entry (srv_jobs (mn_srv m)) i = Some j \<and> running (job_handler j) \<and>
     ProcessState (job_cmd j) = None"
proof -
  obtain m j where "main_reach (mounts_env [] []) m" "mn_exit m = Some 0"
    "sup_entry (srv_jobs (mn_srv m)) ''x'' = Some j" "fresh_job j"
    using late_start_run by blast
  with no_faults_mounts show ?thesis by (fastforce simp: fresh_job_def)
qed

end
