(* ===== verification/Shutdown_Liveness.thy ===== *)
theory Shutdown_Liveness
  imports Job_Termination Server_Run
begin

text \<open>
  \<^verbatim>\<open>StopSupervisor\<close> comes to its end: the jobs of the supervisor run side by side, each one
  fairly, from the states in which the shutdown finds them, and there is a moment from
  which on \<^verbatim>\<open>StopSupervisor\<close> returns with every registered job removed. This is the step
  \<open>jobs_stopped\<close> of the server process (\<open>main_step\<close>).
\<close>

section \<open>One job\<close>

text \<open>
  The run of one registered job from the moment in which \<^verbatim>\<open>StopSupervisor\<close> calls \<^verbatim>\<open>InitStop\<close>. The
  lock of the supervisor is held from then on, so that nobody opens a reader of the job or
  removes it.
\<close>

definition winding_up :: "os_env \<Rightarrow> job \<Rightarrow> (nat \<Rightarrow> jsys) \<Rightarrow> (nat \<Rightarrow> jevent option) \<Rightarrow> bool" where
  "winding_up E j y e \<longleftrightarrow>
     run_of (jstep E) y e \<and> fair_job y e \<and> sj (y 0) = j \<and> jinv (y 0) \<and> \<not> cleaning (y 0) \<and>
     (job_handler j \<in> {activeHandler, endedHandler} \<or> ending (y 0)) \<and>
     e 0 = Some (EvInitStop (10 * time_Second)) \<and>
     (\<forall>n f. e n \<noteq> Some (EvLogs f)) \<and> (\<forall>n. e n \<noteq> Some EvCleanup)"

lemma winding_upD:
  assumes "winding_up E j y e"
  shows "run_of (jstep E) y e" "fair_job y e" "sj (y 0) = j" "jinv (y 0)" "\<not> cleaning (y 0)"
    "job_handler j \<in> {activeHandler, endedHandler} \<or> ending (y 0)"
    "jstep E (y 0) (EvInitStop (10 * time_Second)) (y 1)"
    "e n \<noteq> Some (EvLogs f)" "e n \<noteq> Some EvCleanup"
  using assms run_of_step[of "jstep E" y e 0] by (auto simp: winding_up_def)

text \<open>What \<^verbatim>\<open>InitStop\<close> makes of a job when its signal can be sent.\<close>

definition stop_asked :: "job \<Rightarrow> job" where
  "stop_asked j =
     (if job_handler j = activeHandler then setHandler stoppingHandler (arm_timer (10 * time_Second) j) else j)"

lemma no_faults_signal: "no_faults E \<Longrightarrow> fst (os_do E (SSignal g) w) = Inr ()"
  by (simp add: no_faults_def os_do_def os_call_def sm_defs Let_def)

lemma InitStop_asked:
  assumes "no_faults E" and "InitStop E (10 * time_Second) (j, w) = (r, (j', w'))"
  shows "j' = stop_asked j"
proof -
  have "fst (os_do E (SSignal SIGTERM) w) = Inr ()" by (rule no_faults_signal[OF assms(1)])
  with assms(2) show ?thesis
    by (cases "job_handler j = activeHandler")
      (auto simp: InitStop_active InitStop_other stop_asked_def split: prod.splits)
qed

lemma stop_jobs_asked:
  assumes "no_faults E" and "distinct rs"
  shows "job_at (stop_jobs E rs s) r = (if r \<in> set rs then stop_asked (job_at s r) else job_at s r)"
  using assms(2)
proof (induction rs arbitrary: s)
  case (Cons q rs)
  obtain x j' w where m: "InitStop E (10 * time_Second) (job_at s q, sup_world s) = (x, (j', w))"
    by (metis prod.exhaust)
  have eq: "stop_jobs E (q # rs) s = stop_jobs E rs (put_job q j' w s)"
    using m by (simp add: stop_jobs_def on_job_def)
  have "job_at (put_job q j' w s) r = (if r = q then stop_asked (job_at s q) else job_at s r)"
    using InitStop_asked[OF assms(1) m] by (simp add: job_at_def)
  with Cons show ?case unfolding eq by auto
qed (simp add: stop_jobs_def)

inductive_cases jstep_init_stopE: "jstep E s (EvInitStop d) s'"

lemma winding_up_asked:
  assumes "winding_up E j y e" and "no_faults E"
  shows "\<exists>w. y 1 = (y 0)\<lparr>sj := stop_asked j, sw := w\<rparr>"
proof -
  obtain r k w where "y 1 = (y 0)\<lparr>sj := k, sw := w\<rparr>" "InitStop E (10 * time_Second) (sj (y 0), sw (y 0)) = (r, (k, w))"
    using winding_upD(7)[OF assms(1)] by (rule jstep_init_stopE)
  with InitStop_asked[OF assms(2) this(2)] winding_upD(3)[OF assms(1)] show ?thesis by auto
qed

lemma winding_up_ending:
  assumes "winding_up E j y e" and "no_faults E"
  shows "jinv (y 1) \<and> (ending (y 1) \<or> done_closed (sj (y 1)))"
proof -
  note D = winding_upD[OF assms(1)]
  have inv: "jinv (y 1)" using jstep_inv[OF D(7,4)] .
  obtain w where y1: "y 1 = (y 0)\<lparr>sj := stop_asked j, sw := w\<rparr>" using winding_up_asked[OF assms] by blast
  consider "job_handler j = activeHandler" | "job_handler j = endedHandler" | "ending (y 0)" using D(6) by auto
  then show ?thesis
  proof cases
    case 1
    then have "ending (y 1)" using inv D(5) y1 by (simp add: ending_def stop_asked_def arm_timer_def setHandler_def)
    with inv show ?thesis by simp
  next
    case 2
    with D(3,4) inv y1 show ?thesis by (simp add: jinv_def stop_asked_def)
  next
    case 3
    then have "stop_asked j = j" using D(3) by (auto simp: ending_def stop_asked_def)
    with 3 inv y1 D(3) show ?thesis by (auto simp: ending_def)
  qed
qed

lemma winding_up_finishes:
  assumes "winding_up E j y e" and nf: "no_faults E"
  shows "\<exists>n. \<forall>k\<ge>n. done_closed (sj (y k)) \<and> outLock (sj (y k)) = 0"
proof -
  note D = winding_upD[OF assms(1)]
  let ?y = "\<lambda>n. y (1 + n)" and ?e = "\<lambda>n. e (1 + n)"
  have run: "run_of (jstep E) ?y ?e" and fair: "fair_job ?y ?e"
    using run_of_suffix[OF D(1)] weakly_fair_suffix[OF D(2)[unfolded fair_job_def]]
    unfolding fair_job_def by blast+
  have calm: "undisturbed E (?y n) a" if "?e n = Some a" for n a
    using that D(9) no_faults_signal[OF nf] by (auto simp: undisturbed_def)
  note Y = winding_up_ending[OF assms]
  have "\<exists>n. \<forall>k\<ge>n. jinv (?y k) \<and> done_closed (sj (?y k))"
  proof (cases "ending (?y 0)")
    case True
    from stopped_end_lasting[OF run fair True calm] show ?thesis .
  next
    case False
    with Y have start: "jinv (?y 0) \<and> done_closed (sj (?y 0))" by simp
    have "jinv (?y k) \<and> done_closed (sj (?y k))" for k
      by (rule run_keeps[OF run, of "\<lambda>s. jinv s \<and> done_closed (sj s)", OF start])
        (use jstep_inv done_stays in blast)+
    then show ?thesis by blast
  qed
  then obtain n where n: "\<forall>k\<ge>n. jinv (?y k) \<and> done_closed (sj (?y k))" by blast
  let ?z = "\<lambda>k. ?y (n + k)" and ?f = "\<lambda>k. ?e (n + k)"
  have runz: "run_of (jstep E) ?z ?f" by (rule run_of_suffix[OF run])
  have quiet: "no_new_reader (?z k) a" if "?f k = Some a" for k a
    using that D(8) by (auto simp: no_new_reader_def)
  have "\<exists>k. sreaders (?z k) = []"
  proof (rule readers_end.eventually[OF runz])
    show "weakly_fair job_action_enabled job_action_of ?z ?f"
      using weakly_fair_suffix[OF fair[unfolded fair_job_def]] .
    show "jinv (?z 0) \<and> done_closed (sj (?z 0))" using n by simp
  qed (rule quiet)
  then obtain k where k: "sreaders (?z k) = []" by blast
  have closed: "sreaders (?z m) = []" if "k \<le> m" for m
    using that
  proof (rule run_keeps[OF runz, of "\<lambda>s. sreaders s = []", OF k, rotated])
    fix m a assume "sreaders (?z m) = []" "?f m = Some a" "jstep E (?z m) a (?z (Suc m))"
    with readers_step quiet show "sreaders (?z (Suc m)) = []" by fastforce
  qed
  have "done_closed (sj (y m)) \<and> outLock (sj (y m)) = 0" if m: "1 + n + k \<le> m" for m
  proof -
    obtain d where d: "m = 1 + (n + d)" "k \<le> d"
      using m by (intro that[of "m - 1 - n"]) auto
    with closed[OF d(2)] n[rule_format, of "n + d"] show ?thesis by (simp add: jinv_def)
  qed
  then show ?thesis by blast
qed

section \<open>All jobs\<close>

text \<open>The supervisor at moment \<open>m\<close> of the runs of its jobs.\<close>

definition at_moment :: "ref list \<Rightarrow> (ref \<Rightarrow> nat \<Rightarrow> jsys) \<Rightarrow> nat \<Rightarrow> supervisor \<Rightarrow> supervisor" where
  "at_moment rs y m t = t\<lparr>store := (\<lambda>r. if r \<in> set rs then Some (sj (y r m)) else store t r)\<rparr>"

lemma at_moment_simps [simp]:
  "jobs (at_moment rs y m t) = jobs t" "store t r \<noteq> None \<Longrightarrow> store (at_moment rs y m t) r \<noteq> None"
  "r \<in> set rs \<Longrightarrow> job_at (at_moment rs y m t) r = sj (y r m)"
  by (simp_all add: at_moment_def job_at_def)

text \<open>Seen from the supervisor, the runs are steps of the goroutines of its jobs.\<close>

lemma jstep_follows: "jstep E s a s' \<Longrightarrow> follows (sj s) (sj s')"
  by (cases rule: jstep.cases)
    (auto simp: follows_fire follows_wait dest: follows_InitStop follows_Stop follows_Logs follows_Cleanup
      follows_exited follows_timer follows_Close)

lemma run_follows:
  assumes "run_of (jstep E) y e" and "n \<le> m"
  shows "follows (sj (y n)) (sj (y m))"
proof (rule run_keeps[OF assms(1), of "\<lambda>s. follows (sj (y n)) (sj s)", OF follows_refl _ assms(2)])
  fix k a assume "follows (sj (y n)) (sj (y k))" "jstep E (y k) a (y (Suc k))"
  with jstep_follows[of E "y k" a] show "follows (sj (y n)) (sj (y (Suc k)))" by (auto simp: follows_def)
qed

lemma at_moment_goroutines:
  assumes "\<And>r. r \<in> set rs \<Longrightarrow> store t r = Some (sj (y r n)) \<and> follows (sj (y r n)) (sj (y r m))"
  shows "goroutines t (at_moment rs y m t)"
  using assms
proof (induction rs)
  case Nil
  then show ?case by (simp add: at_moment_def goroutines.none)
next
  case (Cons r rs)
  let ?t = "at_moment rs y m t"
  have "\<exists>j. store ?t r = Some j \<and> follows j (sj (y r m))"
    using Cons.prems[of r] by (cases "r \<in> set rs") (simp_all add: at_moment_def)
  moreover have "at_moment (r # rs) y m t = put_job r (sj (y r m)) (sup_world ?t) ?t"
    by (auto simp: at_moment_def put_job_def fun_eq_iff)
  ultimately show ?case using Cons by (auto intro: goroutines.one)
qed

text \<open>
  C12. The shutdown of the supervisor ends. Let every registered job be active, ended, or on its
  way to its end, and let each of them run on fairly from the \<^verbatim>\<open>InitStop\<close> of \<^verbatim>\<open>StopSupervisor\<close>
  on, without faults. The first step of these runs is what \<^verbatim>\<open>StopSupervisor\<close> does to the jobs,
  the others are what \<open>main_step\<close> allows their goroutines; and from some moment on
  \<^verbatim>\<open>StopSupervisor\<close> does not wait any more: it returns, and every registered job has been removed.
\<close>

theorem shutdown_ends:
  assumes "sup_sane s" and "set rs = ran (map_of (jobs s))" and "distinct rs"
    and "set rs' = set rs" and "distinct rs'" and nf: "no_faults E"
    and up: "\<And>r. r \<in> set rs \<Longrightarrow> winding_up E (job_at s r) (y r) (e r)"
  shows "(\<forall>r\<in>set rs. sj (y r 1) = job_at (stop_jobs E rs s) r) \<and>
    (\<forall>m\<ge>1. goroutines (stop_jobs E rs s) (at_moment rs y m (stop_jobs E rs s))) \<and>
    (\<exists>n. \<forall>m\<ge>n. \<exists>s3. StopSupervisor E rs (at_moment rs y m) rs' s = (Ret (), s3) \<and>
      (\<forall>i. map_of (jobs s) i \<noteq> None \<longrightarrow> (\<exists>j. sup_entry s3 i = Some j \<and> job_handler j = zombieHandler)))"
proof (intro conjI)
  show one: "\<forall>r\<in>set rs. sj (y r 1) = job_at (stop_jobs E rs s) r"
    using winding_up_asked[OF up nf] by (fastforce simp: stop_jobs_asked[OF nf assms(3)])
  show "\<forall>m\<ge>1. goroutines (stop_jobs E rs s) (at_moment rs y m (stop_jobs E rs s))"
  proof (intro allI impI at_moment_goroutines[where n = 1])
    fix m r assume m: "1 \<le> (m::nat)" and r: "r \<in> set rs"
    have "store s r \<noteq> None" using r assms(1,2) unfolding ran_def by (auto elim: sup_saneD)
    then have "store (stop_jobs E rs s) r \<noteq> None" using stop_jobs_result[OF assms(3)] by blast
    then show "store (stop_jobs E rs s) r = Some (sj (y r 1)) \<and> follows (sj (y r 1)) (sj (y r m))"
      using one r run_follows[OF winding_upD(1)[OF up[OF r]] m] by (auto simp: job_at_def)
  qed
  have "\<exists>n. \<forall>m\<ge>n. done_closed (sj (y r m)) \<and> outLock (sj (y r m)) = 0" if "r \<in> set rs" for r
    using winding_up_finishes[OF up[OF that] nf] .
  then have "\<forall>\<^sub>F m in sequentially. \<forall>r\<in>set rs. done_closed (sj (y r m)) \<and> outLock (sj (y r m)) = 0"
    by (intro eventually_ball_finite) (auto simp: eventually_sequentially)
  then obtain n where n: "\<forall>m\<ge>n. \<forall>r\<in>set rs. done_closed (sj (y r m)) \<and> outLock (sj (y r m)) = 0"
    by (auto simp: eventually_sequentially)
  have "\<exists>s3. StopSupervisor E rs (at_moment rs y m) rs' s = (Ret (), s3) \<and>
      (\<forall>i. map_of (jobs s) i \<noteq> None \<longrightarrow> (\<exists>j. sup_entry s3 i = Some j \<and> job_handler j = zombieHandler))"
    if "n \<le> m" for m
  proof -
    obtain res s3 where st: "StopSupervisor E rs (at_moment rs y m) rs' s = (res, s3)" by (metis prod.exhaust)
    have keeps: "jobs (at_moment rs y m t) = jobs t \<and> (\<forall>r. store t r \<noteq> None \<longrightarrow> store (at_moment rs y m t) r \<noteq> None)" for t
      by simp
    note R = StopSupervisor_result[OF assms(1-5) keeps refl refl st]
    have "res = Ret ()" using R n that by (simp add: free_to_clean_def)
    with R st nf show ?thesis by simp
  qed
  then show "\<exists>n. \<forall>m\<ge>n. \<exists>s3. StopSupervisor E rs (at_moment rs y m) rs' s = (Ret (), s3) \<and>
      (\<forall>i. map_of (jobs s) i \<noteq> None \<longrightarrow> (\<exists>j. sup_entry s3 i = Some j \<and> job_handler j = zombieHandler))"
    by blast
qed

text \<open>A run: the only job is asked to stop and its process ends by itself.\<close>

lemma demo_winding_up: "\<exists>y e. winding_up quiet_env (job_at demo_active 0) y e"
proof -
  let ?j = "new_job ''x'' 0 0"
  let ?x = "jsys_init ?j empty_world" and ?d = "10 * time_Second"
  have f: "fresh_job ?j" by (simp add: fresh_job_def new_job_def no_cmd_def)
  then have inv: "jinv ?x" by (rule jinv_init)
  have nf: "no_faults quiet_env" by simp
  obtain r j w where ist: "InitStop quiet_env ?d (?j, empty_world) = (r, (j, w))" by (metis prod.exhaust)
  then have j: "j = setHandler stoppingHandler (arm_timer ?d ?j)"
    using InitStop_asked[OF nf ist] f by (simp add: stop_asked_def fresh_job_def)
  let ?x1 = "?x\<lparr>sj := j, sw := w\<rparr>"
  have 1: "jstep quiet_env ?x (EvInitStop ?d) ?x1"
    by (rule jstep.init_stop[where r = r]) (simp_all add: jsys_init_def ist)
  have "armed (before_kill j) = []"
    by (simp add: j before_kill_def stop_timer_def disarm_def arm_timer_def setHandler_def new_job_def)
  then obtain t where t: "jrun quiet_env ?x1 [EvDie 0, EvWait, EvExited] t" "\<And>a. \<not> job_action_enabled a t"
    using process_may_end[of ?x1 quiet_env 0] jstep_inv[OF 1 inv]
    by (auto simp: jsys_init_def j closes_done_def setHandler_def)
  let ?es = "[EvInitStop ?d, EvDie 0, EvWait, EvExited]"
  have "jrun quiet_env ?x ?es t" using 1 t(1) by auto
  from jrun_fair[OF this t(2)] obtain y e where run: "run_of (jstep quiet_env) y e" "fair_job y e" "y 0 = ?x"
    and e: "\<And>n a. e n = Some a \<longleftrightarrow> n < length ?es \<and> a = ?es ! n" by blast
  have mem: "a \<in> set ?es" if "e n = Some a" for n a using that e nth_mem by metis
  have "e n \<noteq> Some (EvLogs f)" "e n \<noteq> Some EvCleanup" for n f
    using mem[of n "EvLogs f"] mem[of n EvCleanup] by auto
  moreover have "e 0 = Some (EvInitStop ?d)" using e by simp
  ultimately have "winding_up quiet_env ?j y e"
    using run inv f by (simp add: winding_up_def jsys_init_def fresh_job_def)
  then show ?thesis by (auto simp: job_at_def demo_active_def)
qed

theorem shutdown_ends_witness:
  "\<exists>y e m s3. winding_up quiet_env (job_at demo_active 0) y e \<and>
     StopSupervisor quiet_env [0] (at_moment [0] (\<lambda>_. y) m) [0] demo_active = (Ret (), s3) \<and>
     (\<exists>j. sup_entry s3 ''x'' = Some j \<and> job_handler j = zombieHandler)"
proof -
  obtain y e where up: "winding_up quiet_env (job_at demo_active 0) y e" using demo_winding_up by blast
  have reg: "set [0] = ran (map_of (jobs demo_active))" by (simp add: demo_active_def)
  have m: "map_of (jobs demo_active) ''x'' \<noteq> None" by (simp add: demo_active_def)
  have nf: "no_faults quiet_env" by simp
  have each: "winding_up quiet_env (job_at demo_active r) ((\<lambda>_. y) r) ((\<lambda>_. e) r)" if "r \<in> set [0]" for r
    using up that by simp
  from shutdown_ends[OF demo_active_sane reg _ refl _ nf each] m up show ?thesis by fastforce
qed

end
