(* ===== verification/Stream_Liveness.thy ===== *)
theory Stream_Liveness
  imports Job_Termination Log_Stream
begin

text \<open>
  The streaming loop of \<^verbatim>\<open>Logs\<close> beside its job: the channel that the loop tests is the one of
  the job, in a run of the job. Here is why \<open>Job_Termination\<close> may take readers to end: when
  the job does, the loop does.
\<close>

section \<open>Iterations so far and further ones\<close>

lemma logs_loop_more:
  assumes "logs_loop f r obs = (LogsRunning, out, r1)"
  shows "logs_loop f r (obs @ obs') = (case logs_loop f r1 obs' of (res, out', r2) \<Rightarrow> (res, out @ out', r2))"
  using assms
proof (induction obs arbitrary: r out)
  case (Cons ob obs)
  obtain data err r2 where rd: "reader_Read r logs_buf ob = ((data, err), r2)" by (metis prod.exhaust)
  from Cons.prems show ?case
  proof (cases rule: logs_loop_stepE)
    case (checked data err)
    then show ?thesis by (auto simp: logs_check_def split: if_splits option.splits)
  next
    case (sent data err r2 out2)
    from Cons.prems sent have "\<not> ob_cancelled ob" "ob_sent ob" by (auto split: if_splits)
    with sent Cons.IH[OF sent(3)] show ?thesis by (simp split: prod.splits)
  qed simp_all
qed simp

lemma logs_loop_stays:
  assumes "fst (logs_loop f r obs) \<noteq> LogsRunning"
  shows "logs_loop f r (obs @ obs') = logs_loop f r obs"
  using assms
proof (induction obs arbitrary: r)
  case (Cons ob obs)
  obtain data err r2 where rd: "reader_Read r logs_buf ob = ((data, err), r2)" by (metis prod.exhaust)
  show ?case
  proof (cases "ob_cancelled ob \<or> logs_check f data err \<noteq> None \<or> \<not> ob_sent ob")
    case False
    with Cons.prems rd have "fst (logs_loop f r2 obs) \<noteq> LogsRunning" by (simp split: prod.splits)
    with False rd Cons.IH show ?thesis by simp
  qed (use rd in auto)
qed simp

lemma first_more: "k \<le> m \<Longrightarrow> List.map f [0..<m] = List.map f [0..<k] @ List.map f [k..<m]"
  by (metis le0 le_iff_add map_append upt_add_eq_append)

section \<open>A followed stream ends with its job\<close>

text \<open>
  The iterations of a stream: iteration \<open>k\<close> tests the channel at the moment \<open>tm k\<close> of the run,
  later than the one before; what is read is a prefix of the output \<open>F\<close> of the process. No
  assumption is made on faults, on the client or on the sizes of the reads.
\<close>

definition stream_beside :: "(nat \<Rightarrow> jsys) \<Rightarrow> string \<Rightarrow> (nat \<Rightarrow> nat) \<Rightarrow> (nat \<Rightarrow> read_obs) \<Rightarrow> bool" where
  "stream_beside s F tm ob \<longleftrightarrow> strict_mono tm \<and>
     (\<forall>k. ob_done (ob k) = done_closed (sj (s (tm k))) \<and> prefix (ob_content (ob k)) F)"



end
