(* ===== verification/Server_Exit.thy ===== *)
theory Server_Exit
  imports Shutdown_Liveness
begin

text \<open>
  The server comes to its end: after the signal, in every run in which the goroutines of the
  shutdown and the calls that are under way get their turn, \<^verbatim>\<open>main\<close> exits with code 0.
\<close>

section \<open>Fairness\<close>

text \<open>
  What \<^verbatim>\<open>main\<close>, the two goroutines of the shutdown and a pending call of \<^verbatim>\<open>Start\<close> do by
  themselves; they can do it when there is such a step.
\<close>

datatype main_action = FinishStart | FinishGrpc | FinishJobs | LeaveMain

fun main_action_of :: "main_event \<Rightarrow> main_action option" where
  "main_action_of (MnRegister cid j) = Some FinishStart"
| "main_action_of MnGrpcStopped = Some FinishGrpc"
| "main_action_of MnJobsStopped = Some FinishJobs"
| "main_action_of MnExit = Some LeaveMain"
| "main_action_of _ = None"

definition main_enabled :: "os_env \<Rightarrow> main_action \<Rightarrow> main_state \<Rightarrow> bool" where
  "main_enabled E c m \<longleftrightarrow> (\<exists>e m'. main_action_of e = Some c \<and> main_step E m e m')"

definition fair_main :: "os_env \<Rightarrow> (nat \<Rightarrow> main_state) \<Rightarrow> (nat \<Rightarrow> main_event option) \<Rightarrow> bool" where
  "fair_main E = weakly_fair (main_enabled E) main_action_of"

section \<open>Identifiers\<close>

text \<open>No step but a registration makes a new identifier known.\<close>

definition known_ids :: "supervisor \<Rightarrow> string set" where
  "known_ids s = {i. known s i}"

lemma ids_put: "store s r = Some j \<Longrightarrow> follows j j' \<Longrightarrow> known_ids (put_job r j' w s) \<subseteq> known_ids s"
  by (auto simp: known_ids_def known_def follows_def split: if_splits)

lemma ids_goroutines: "goroutines s t \<Longrightarrow> known_ids t \<subseteq> known_ids s"
proof (induction rule: goroutines.induct)
  case (one s t r j j' w)
  then show ?case using ids_put[of t r j j' w] by blast
qed simp

lemma ids_call:
  assumes "sup_sane s" and "sup_call E op i s = (x, s')"
  shows "known_ids s' \<subseteq> known_ids s"
proof (cases "map_of (jobs s) i")
  case None
  with assms(2) show ?thesis by (simp add: sup_call_missing)
next
  case (Some r)
  from assms(1) Some obtain j where j: "store s r = Some j" by (rule sup_saneD)
  have same: "known_ids (s\<lparr>jobs := js\<rparr>) = known_ids s" for s js by (simp add: known_ids_def known_def)
  have put: "known_ids (put_job r j' w (s\<lparr>jobs := js\<rparr>)) \<subseteq> known_ids s" if "follows j j'" for j' w js
    using ids_put[of "s\<lparr>jobs := js\<rparr>" r j j' w] j that by (simp add: same)
  from assms(2) Some j show ?thesis
  proof (cases rule: call_other_cases)
    case (called j' w)
    with ids_put[OF j] show ?thesis by simp
  qed (use put in \<open>simp_all add: sup_add_def same\<close>)
qed

lemma ids_register: "known_ids (register_job j s) \<subseteq> insert (ID j) (known_ids s)"
  by (auto simp: known_ids_def known_def register_job_def split: if_splits)

text \<open>The calls under way have created jobs with identifiers of their own.\<close>

definition pending_ok :: "main_state \<Rightarrow> bool" where
  "pending_ok m \<longleftrightarrow>
     distinct (List.map (\<lambda>(cid, j). ID j) (mn_creating m)) \<and>
     (\<forall>(cid, j) \<in> set (mn_creating m). ID j \<notin> known_ids (srv_jobs (mn_srv m)))"

lemma pending_ok_mono:
  assumes "pending_ok m" and "mn_creating m' = mn_creating m"
    and "known_ids (srv_jobs (mn_srv m')) \<subseteq> known_ids (srv_jobs (mn_srv m))"
  shows "pending_ok m'"
  using assms by (fastforce simp: pending_ok_def)

lemma pending_ok_register:
  assumes "pending_ok m" and "(cid, j) \<in> set (mn_creating m)"
    and "mn_creating m' = remove1 (cid, j) (mn_creating m)"
    and "srv_jobs (mn_srv m') = register_job j (srv_jobs (mn_srv m))"
  shows "pending_ok m'"
proof -
  let ?f = "\<lambda>(cid :: string, j). ID j" and ?rest = "remove1 (cid, j) (mn_creating m)"
  have "distinct (List.map ?f (mn_creating m))" using assms(1) by (simp add: pending_ok_def)
  from distinct_map_remove1[OF this assms(2)]
  have d: "distinct (List.map ?f ?rest)" and new: "\<And>c k. (c, k) \<in> set ?rest \<Longrightarrow> ID k \<noteq> ID j" by force+
  have "ID k \<notin> known_ids (srv_jobs (mn_srv m'))" if "(c, k) \<in> set ?rest" for c k
  proof -
    have "(c, k) \<in> set (mn_creating m)" using that set_remove1_subset by (rule rev_subsetD)
    then have "ID k \<notin> known_ids (srv_jobs (mn_srv m))" using assms(1) unfolding pending_ok_def by blast
    with new[OF that] ids_register[of j "srv_jobs (mn_srv m)"] show ?thesis unfolding assms(4) by blast
  qed
  with d show ?thesis unfolding pending_ok_def assms(3) by blast
qed

section \<open>The exit\<close>

text \<open>
  After the signal: gRPC accepts no further call, and \<^verbatim>\<open>Serve\<close> does not fail.
\<close>

definition going_down :: "os_env \<Rightarrow> main_state \<Rightarrow> bool" where
  "going_down E m \<longleftrightarrow> no_faults E \<and> main_inv m \<and> mn_signalled m \<and> mn_exit m = None \<and> pending_ok m"

definition no_new_call :: "main_state \<Rightarrow> main_event \<Rightarrow> bool" where
  "no_new_call m a \<longleftrightarrow> a \<noteq> MnCreate \<and> a \<noteq> MnFail"

definition exit_rank :: "main_state \<Rightarrow> nat" where
  "exit_rank m = length (mn_creating m) + (if mn_grpc_done m then 0 else 1) + (if mn_jobs_done m then 0 else 1)"

definition exit_helpful :: "main_state \<Rightarrow> main_action" where
  "exit_helpful m =
     (if mn_creating m \<noteq> [] then FinishStart
      else if \<not> mn_grpc_done m then FinishGrpc
      else if \<not> mn_jobs_done m then FinishJobs
      else LeaveMain)"

text \<open>\<^verbatim>\<open>StopServer\<close> can return: the goroutines of the jobs may bring every job to its end.\<close>

lemma StopServer_possible:
  assumes "sup_sane (srv_jobs s)"
  shows "\<exists>rs others s'. set rs = ran (map_of (jobs (srv_jobs s))) \<and> distinct rs \<and>
    goroutines (stop_jobs E rs (srv_jobs s)) (others (stop_jobs E rs (srv_jobs s))) \<and>
    StopServer E rs others rs s = (Ret (), s')"
proof -
  let ?s = "srv_jobs s"
  obtain rs where rs: "set rs = ran (map_of (jobs ?s))" "distinct rs"
    using finite_distinct_list[OF finite_ran[OF finite_dom_map_of], of "jobs ?s"] by blast
  let ?t = "stop_jobs E rs ?s"
  define y where "y r n = (if n = (0::nat) then jsys_init (job_at ?t r) empty_world
    else jsys_init ((job_at ?t r)\<lparr>done_closed := True, outLock := 0\<rparr>) empty_world)" for r n
  let ?others = "at_moment rs y 1"
  have reg: "store ?s r \<noteq> None" if "r \<in> set rs" for r
    using that rs(1) assms unfolding ran_def by (auto elim: sup_saneD)
  have "store ?t r \<noteq> None" if "r \<in> set rs" for r
    using reg[OF that] stop_jobs_result[OF rs(2)] by blast
  then have g: "goroutines ?t (?others ?t)"
    by (intro at_moment_goroutines[where n = 0]) (fastforce simp: y_def jsys_init_def follows_def)
  obtain res s3 where st: "StopSupervisor E rs ?others rs ?s = (res, s3)" by (metis prod.exhaust)
  have keeps: "jobs (?others ?t) = jobs ?t \<and> (\<forall>r. store ?t r \<noteq> None \<longrightarrow> store (?others ?t) r \<noteq> None)" by simp
  have "res = Ret ()"
    using StopSupervisor_result[OF assms rs(1,2) refl rs(2) keeps refl refl st]
    by (simp add: free_to_clean_def y_def jsys_init_def)
  with st have "StopServer E rs ?others rs s = (Ret (), s\<lparr>srv_jobs := s3\<rparr>)" by (simp add: StopServer_def)
  with rs g show ?thesis by blast
qed

lemma exit_helps:
  assumes "going_down E m"
  shows "main_enabled E (exit_helpful m) m"
proof (cases "mn_creating m")
  case (Cons p ps)
  obtain cid j where p: "p = (cid, j)" by (metis prod.exhaust)
  have "\<forall>r k. store (srv_jobs (mn_srv m)) r = Some k \<longrightarrow> ID k \<noteq> ID j"
    using assms Cons p by (fastforce simp: going_down_def pending_ok_def known_ids_def known_def)
  then have "main_step E m (MnRegister cid j) (m\<lparr>mn_srv := register_start cid j (mn_srv m),
      mn_creating := remove1 (cid, j) (mn_creating m),
      mn_late := (if mn_jobs_done m then ID j # mn_late m else mn_late m)\<rparr>)"
    using assms Cons p by (intro main_step.register) (simp_all add: going_down_def)
  then show ?thesis
    unfolding main_enabled_def using Cons by (intro exI[of _ "MnRegister cid j"] exI conjI) (simp_all add: exit_helpful_def)
next
  case Nil
  have on: "mn_exit m = None" "mn_signalled m" "sup_sane (srv_jobs (mn_srv m))"
    using assms by (simp_all add: going_down_def main_inv_def)
  consider (grpc) "\<not> mn_grpc_done m" | (jobs) "mn_grpc_done m" "\<not> mn_jobs_done m" | (out) "mn_grpc_done m" "mn_jobs_done m"
    by blast
  then show ?thesis
  proof cases
    case grpc
    from main_step.grpc_stopped[OF on(1,2) grpc Nil] grpc Nil show ?thesis
      unfolding main_enabled_def exit_helpful_def by (auto intro!: exI[of _ MnGrpcStopped])
  next
    case jobs
    obtain rs others s' where rs: "set rs = ran (map_of (jobs (srv_jobs (mn_srv m))))" "distinct rs"
      and g: "goroutines (stop_jobs E rs (srv_jobs (mn_srv m))) (others (stop_jobs E rs (srv_jobs (mn_srv m))))"
      and st: "StopServer E rs others rs (mn_srv m) = (Ret (), s')"
      using StopServer_possible[OF on(3)] by blast
    from main_step.jobs_stopped[OF on(1,2) jobs(2) rs refl rs(2) g st] jobs Nil show ?thesis
      unfolding main_enabled_def exit_helpful_def by (auto intro!: exI[of _ MnJobsStopped])
  next
    case out
    have "mn_wg m = 0" using assms out by (simp add: going_down_def main_inv_def)
    from main_step.exit_ok[OF on(1) out(1) this] out Nil show ?thesis
      unfolding main_enabled_def exit_helpful_def by (auto intro!: exI[of _ MnExit])
  qed
qed

lemma going_down_step:
  assumes "going_down E m" and "no_new_call m a" and step: "main_step E m a m'"
  shows "mn_exit m' = Some 0 \<or> going_down E m' \<and>
    (exit_rank m' < exit_rank m \<or>
     exit_rank m' = exit_rank m \<and> exit_helpful m' = exit_helpful m \<and> main_action_of a = None)"
proof -
  have D: "no_faults E" "main_inv m" "mn_signalled m" "mn_exit m = None" "pending_ok m"
    and sane: "sup_sane (srv_jobs (mn_srv m))"
    using assms(1) by (simp_all add: going_down_def main_inv_def)
  have inv: "main_inv m'" using main_inv_step[OF step D(2,1)] .
  have down: "going_down E m'"
    if "mn_signalled m'" "mn_exit m' = None" "pending_ok m'" using that inv D(1) by (simp add: going_down_def)
  show ?thesis
    using step
  proof (cases rule: main_step.cases)
    case (register cid j)
    have "pending_ok m'"
      by (rule pending_ok_register[OF D(5), of cid j]) (use register in \<open>simp_all add: register_start_def\<close>)
    moreover have "length (mn_creating m') < length (mn_creating m)"
      using register(2,4) length_pos_if_in_set[OF register(4)] by (simp add: length_remove1)
    ultimately show ?thesis using down register D by (auto simp: exit_rank_def)
  next
    case (request ctx cid req i res s')
    have "known_ids (srv_jobs s') \<subseteq> known_ids (srv_jobs (mn_srv m))"
      using request_call[OF request(5-7)] ids_call[OF sane] by (metis order_refl)
    then have "pending_ok m'" using pending_ok_mono[OF D(5)] request by simp
    then show ?thesis using down request D by (auto simp: exit_rank_def exit_helpful_def)
  next
    case (job r j j' w)
    have "pending_ok m'"
      by (rule pending_ok_mono[OF D(5)]) (use job ids_put[OF job(4,5)] in \<open>simp_all add: with_sup_def\<close>)
    then show ?thesis using down job D by (auto simp: exit_rank_def exit_helpful_def with_sup_def)
  next
    case (jobs_stopped rs rs' others s')
    have "known_ids (srv_jobs s') \<subseteq> known_ids (srv_jobs (mn_srv m))"
      using StopServer_goroutines[OF sane jobs_stopped(6,8,10,11)] by (rule ids_goroutines)
    then have "pending_ok m'" using pending_ok_mono[OF D(5)] jobs_stopped by simp
    then show ?thesis using down jobs_stopped D by (auto simp: exit_rank_def)
  next
    case (create_err cmd args lim er w)
    have "pending_ok m'"
      by (rule pending_ok_mono[OF D(5)]) (use create_err in \<open>simp_all add: with_sup_def known_ids_def known_def\<close>)
    then show ?thesis using down create_err D by (auto simp: exit_rank_def exit_helpful_def with_sup_def)
  next
    case grpc_stopped
    have "pending_ok m'" by (rule pending_ok_mono[OF D(5)]) (use grpc_stopped in simp_all)
    then show ?thesis using down grpc_stopped D by (auto simp: exit_rank_def)
  qed (use assms(2) D in \<open>simp_all add: no_new_call_def\<close>)
qed

interpretation server_exit: ranked_progress "main_step E" no_new_call "going_down E" "\<lambda>m. mn_exit m = Some 0"
    exit_rank exit_helpful "main_enabled E" main_action_of for E
proof
  fix m m' a assume "going_down E m" "\<not> mn_exit m = Some 0" and calm: "no_new_call m a" and st: "main_step E m a m'"
  note S = going_down_step[OF this(1) calm st]
  from S show "mn_exit m' = Some 0 \<or> going_down E m'" by blast
  from S show "mn_exit m' = Some 0 \<or> exit_rank m' < exit_rank m \<or>
      exit_rank m' = exit_rank m \<and> exit_helpful m' = exit_helpful m" by blast
  assume "main_action_of a = Some (exit_helpful m)"
  with S show "mn_exit m' = Some 0 \<or> exit_rank m' < exit_rank m" by auto
qed (rule exit_helps)

text \<open>What is left when the server exits belongs to a call that was under way at the signal.\<close>

definition pending_ids :: "main_state \<Rightarrow> string set" where
  "pending_ids m = (\<lambda>(cid, j). ID j) ` set (mn_creating m)"

lemma late_was_pending:
  assumes "main_step E m a m'" and "no_new_call m a"
  shows "set (mn_late m') \<union> pending_ids m' \<subseteq> set (mn_late m) \<union> pending_ids m"
  using assms
proof (cases rule: main_step.cases)
  case (register cid j)
  then have "ID j \<in> pending_ids m" by (force simp: pending_ids_def)
  moreover have "pending_ids m' \<subseteq> pending_ids m"
    using register(2) set_remove1_subset[of "(cid, j)" "mn_creating m"] by (auto simp: pending_ids_def)
  ultimately show ?thesis using register(2) by auto
qed (simp_all add: pending_ids_def with_sup_def no_new_call_def)



end
