(* ===== verification/Service_Concurrency.thy ===== *)
theory Service_Concurrency
  imports Service_Spec Server_Run
begin

text \<open>
  The service with many calls at once. gRPC runs every call in a goroutine of its own; a
  method of \<^verbatim>\<open>src/pkg/server/server.go\<close> is a sequence of critical sections of the access
  control and of the supervisor, and those of different calls interleave: the access is
  checked before the supervisor is called, a job is registered before it has an owner, and it
  is unlinked and removed before its owner is forgotten. The calls are still linearizable:
  they have the effect of the specification of \<open>Service_Spec\<close>, one after another.
\<close>

section \<open>Calls and their steps\<close>

text \<open>
  Where a call stands between two critical sections: \<open>Starting\<close>, the job has been created;
  \<open>Owning\<close>, it has been registered; \<open>Checked\<close>, the access has been granted; \<open>Removing\<close>, the
  job has been unlinked; \<open>Disowning\<close>, it has been cleaned up.
\<close>

datatype call =
    Starting string start_request job
  | Owning string start_request string
  | Checked string request
  | Removing string string ref
  | Disowning string string

type_synonym conc = "jobServer \<times> call list"

text \<open>A client, its request and the answer.\<close>

type_synonym answered = "string \<times> request \<times> (rpc_status + response)"

fun call_answer :: "request \<Rightarrow> go_error + sup_reply \<Rightarrow> rpc_status + response" where
  "call_answer req (Inl e) = Inl (to_status e)"
| "call_answer req (Inr rep) = Inr (to_response req rep)"

text \<open>
  What the goroutines of a job may do to it: anything a method may, but only \<^verbatim>\<open>Cleanup\<close>
  removes a job.
\<close>

definition lives :: "job \<Rightarrow> job \<Rightarrow> bool" where
  "lives j j' \<longleftrightarrow> follows j j' \<and> (job_handler j' = zombieHandler \<longrightarrow> job_handler j = zombieHandler)"

text \<open>
  One critical section of one call, or one step of a goroutine of a job. The first answer is
  the one with which the call takes effect in this step, the second the one it returns with
  in this step. They differ only for a removal: it takes effect when it unlinks the job and
  returns after the clean-up. Identifiers are new and have no surrounding space, nor do the
  names of clients.
\<close>

inductive conc_step :: "os_env \<Rightarrow> conc \<Rightarrow> answered option \<Rightarrow> answered option \<Rightarrow> conc \<Rightarrow> bool" for E where
  create: "conc_step E (s, cs) None None
      (s\<lparr>srv_jobs := (srv_jobs s)\<lparr>sup_world := w\<rparr>\<rparr>, Starting u q j # cs)"
    if "trim_space u = u" and "u \<noteq> []" and "toJobLimits (req_Limits q) = Ret lim"
      and "createJob E (req_Command q) (req_Args q) lim (sup_ids (srv_jobs s)) (sup_world (srv_jobs s)) = (Inr j, w)"
      and "trim_space (ID j) = ID j" and "ID j \<noteq> []"
| create_err: "conc_step E (s, cs) (Some a) (Some a) (s\<lparr>srv_jobs := (srv_jobs s)\<lparr>sup_world := w\<rparr>\<rparr>, cs)"
    if "toJobLimits (req_Limits q) = Ret lim"
      and "createJob E (req_Command q) (req_Args q) lim (sup_ids (srv_jobs s)) (sup_world (srv_jobs s)) = (Inl e, w)"
      and "a = (u, ReqStart q, Inl (to_status e))"
| no_limits: "conc_step E (s, cs) (Some a) (Some a) (s, cs)"
    if "toJobLimits (req_Limits q) = Panic m" and "a = (u, ReqStart q, Inl internal_error)"
| register: "conc_step E (s, cs) None None
      (s\<lparr>srv_jobs := register_job j (srv_jobs s)\<rparr>, Owning u q (ID j) # remove1 (Starting u q j) cs)"
    if "Starting u q j \<in> set cs" and "\<forall>r k. store (srv_jobs s) r = Some k \<longrightarrow> ID k \<noteq> ID j"
| own: "conc_step E (s, cs) (Some a) (Some a)
      (s\<lparr>srv_auth := snd (SetOwner i u (srv_auth s))\<rparr>, remove1 (Owning u q i) cs)"
    if "Owning u q i \<in> set cs" and "a = (u, ReqStart q, Inr (RespStart i))"
| deny: "conc_step E (s, cs) (Some a) (Some a) (s, cs)"
    if "req_job req = Some i" and "\<not> acl_allowed (srv_auth s) u i (req_action req)"
      and "a = (u, req, Inl job_not_found)"
| check: "conc_step E (s, cs) None None (s, Checked u req # cs)"
    if "req_job req = Some i" and "acl_allowed (srv_auth s) u i (req_action req)"
| act: "conc_step E (s, cs) (Some a) (Some a) (s\<lparr>srv_jobs := js\<rparr>, remove1 (Checked u req) cs)"
    if "Checked u req \<in> set cs" and "req_job req = Some i" and "req_op req \<noteq> OpRemove"
      and "sup_call E (req_op req) i (srv_jobs s) = (Ret r, js)" and "a = (u, req, call_answer req r)"
| unlink_err: "conc_step E (s, cs) (Some a) (Some a) (s\<lparr>srv_jobs := js\<rparr>, remove1 (Checked u (ReqRemove i)) cs)"
    if "Checked u (ReqRemove i) \<in> set cs" and "Remove_unlink i (srv_jobs s) = (Inl e, js)"
      and "a = (u, ReqRemove i, Inl (to_status e))"
| unlink: "conc_step E (s, cs) (Some a) None
      (s\<lparr>srv_jobs := js\<rparr>, Removing u i r # remove1 (Checked u (ReqRemove i)) cs)"
    if "Checked u (ReqRemove i) \<in> set cs" and "Remove_unlink i (srv_jobs s) = (Inr r, js)"
      and "a = (u, ReqRemove i, Inr RespRemove)"
| cleaned: "conc_step E (s, cs) None None (s\<lparr>srv_jobs := js\<rparr>, Disowning u i # remove1 (Removing u i r) cs)"
    if "Removing u i r \<in> set cs" and "cleanup_or_add E r (srv_jobs s) = (Ret (Inr ()), js)"
| clean_err: "conc_step E (s, cs) None (Some a) (s\<lparr>srv_jobs := js\<rparr>, remove1 (Removing u i r) cs)"
    if "Removing u i r \<in> set cs" and "cleanup_or_add E r (srv_jobs s) = (Ret (Inl e), js)"
      and "a = (u, ReqRemove i, Inl (to_status e))"
| disown: "conc_step E (s, cs) None (Some a)
      (s\<lparr>srv_auth := snd (acl_Remove i (srv_auth s))\<rparr>, remove1 (Disowning u i) cs)"
    if "Disowning u i \<in> set cs" and "a = (u, ReqRemove i, Inr RespRemove)"
| goroutine: "conc_step E (s, cs) None None (s\<lparr>srv_jobs := put_job r j' w (srv_jobs s)\<rparr>, cs)"
    if "store (srv_jobs s) r = Some j" and "lives j j'"

fun answers :: "answered option \<Rightarrow> answered list" where
  "answers None = []"
| "answers (Some a) = [a]"

text \<open>Steps from a configuration on, with the answers in the order of the effects and of the returns.\<close>

inductive conc_path ::
  "os_env \<Rightarrow> conc \<Rightarrow> answered list \<Rightarrow> answered list \<Rightarrow> conc \<Rightarrow> bool" for E c where
  here: "conc_path E c [] [] c"
| step: "conc_path E c (es @ answers e) (as @ answers a) d'"
    if "conc_path E c es as d" and "conc_step E d e a d'"

definition conc_run ::
  "os_env \<Rightarrow> server_config \<Rightarrow> answered list \<Rightarrow> answered list \<Rightarrow> conc \<Rightarrow> bool" where
  "conc_run E cfg es as c \<longleftrightarrow> (\<exists>w s. srv_New cfg w = Inr s \<and> conc_path E (s, []) es as c)"

lemma conc_path_snoc:
  "conc_path E c es as d \<Longrightarrow> conc_step E d e a d' \<Longrightarrow> es' = es @ answers e \<Longrightarrow> as' = as @ answers a \<Longrightarrow>
     conc_path E c es' as' d'"
  by (simp add: conc_path.step)

lemma conc_run_path:
  assumes "conc_run E cfg es as c" and "conc_path E c es' as' d"
  shows "conc_run E cfg (es @ es') (as @ as') d"
  using assms(2)
proof (induction rule: conc_path.induct)
  case here
  with assms(1) show ?case by simp
next
  case (step es' as' d e a d')
  then obtain w s where "srv_New cfg w = Inr s" "conc_path E (s, []) (es @ es') (as @ as') d"
    unfolding conc_run_def by blast
  with conc_path.step[OF this(2) step.hyps(2)] show ?case unfolding conc_run_def by auto
qed

section \<open>Histories of the specification\<close>

text \<open>Jobs end at any moment.\<close>

definition ended_since :: "svc \<Rightarrow> svc \<Rightarrow> bool" where
  "ended_since A B \<longleftrightarrow> (\<forall>i. B i = A i \<or> (\<exists>w. A i = Some (w, True) \<and> B i = Some (w, False)))"

inductive svc_history :: "server_config \<Rightarrow> svc \<Rightarrow> answered list \<Rightarrow> svc \<Rightarrow> bool" for cfg A where
  start: "svc_history cfg A [] A"
| over: "svc_history cfg A h B \<Longrightarrow> ended_since B C \<Longrightarrow> svc_history cfg A h C"
| call: "svc_history cfg A h B \<Longrightarrow> svc_step cfg u req ans B C \<Longrightarrow> svc_history cfg A (h @ [(u, req, ans)]) C"

lemma ended_since_refl [simp]: "ended_since A A"
  by (simp add: ended_since_def)

section \<open>The invariant\<close>

definition owning :: "call list \<Rightarrow> string \<Rightarrow> bool" where
  "owning cs i \<longleftrightarrow> (\<exists>u q. Owning u q i \<in> set cs)"

fun leaving_id :: "call \<Rightarrow> string option" where
  "leaving_id (Removing u i r) = Some i"
| "leaving_id (Disowning u i) = Some i"
| "leaving_id _ = None"

fun owning_id :: "call \<Rightarrow> string option" where
  "owning_id (Owning u q i) = Some i"
| "owning_id _ = None"

text \<open>What holds of each pending call.\<close>

fun call_ok :: "jobServer \<Rightarrow> call \<Rightarrow> bool" where
  "call_ok s (Starting u q j) \<longleftrightarrow> trim_space u = u \<and> u \<noteq> [] \<and> trim_space (ID j) = ID j \<and> ID j \<noteq> [] \<and>
     fresh_job j"
| "call_ok s (Owning u q i) \<longleftrightarrow> trim_space u = u \<and> u \<noteq> [] \<and> trim_space i = i \<and> i \<noteq> [] \<and>
     sup_entry (srv_jobs s) i \<noteq> None \<and> owners (srv_auth s) i = None"
| "call_ok s (Checked u req) \<longleftrightarrow> (\<exists>i. req_job req = Some i \<and> known (srv_jobs s) i \<and>
     (owners (srv_auth s) i \<noteq> None \<longrightarrow> acl_allowed (srv_auth s) u i (req_action req)))"
| "call_ok s (Removing u i r) \<longleftrightarrow> sup_entry (srv_jobs s) i = None \<and>
     (\<exists>j. store (srv_jobs s) r = Some j \<and> ID j = i \<and> job_handler j \<noteq> zombieHandler)"
| "call_ok s (Disowning u i) \<longleftrightarrow> sup_entry (srv_jobs s) i = None \<and> known (srv_jobs s) i"

text \<open>
  A registered job that has no owner yet belongs to a call of \<^verbatim>\<open>Start\<close> that is about to enter
  it, and no access to it can have been granted.
\<close>

definition conc_inv :: "server_config \<Rightarrow> conc \<Rightarrow> bool" where
  "conc_inv cfg c \<longleftrightarrow> (case c of (s, cs) \<Rightarrow>
     sup_sane (srv_jobs s) \<and>
     superUsers (srv_auth s) = set (su_FullAccess cfg) \<and> superReadUsers (srv_auth s) = set (su_ReadAccess cfg) \<and>
     (\<forall>i. owners (srv_auth s) i \<noteq> None \<longrightarrow> known (srv_jobs s) i) \<and>
     (\<forall>i j. sup_entry (srv_jobs s) i = Some j \<longrightarrow> job_handler j \<noteq> zombieHandler) \<and>
     (\<forall>i. sup_entry (srv_jobs s) i \<noteq> None \<longrightarrow> owners (srv_auth s) i = None \<longrightarrow> owning cs i) \<and>
     (\<forall>x \<in> set cs. call_ok s x) \<and>
     (\<forall>u req i. Checked u req \<in> set cs \<longrightarrow> req_job req = Some i \<longrightarrow> \<not> owning cs i) \<and>
     distinct (List.map_filter owning_id cs) \<and> distinct (List.map_filter leaving_id cs))"

text \<open>The effects of calls that have not returned yet.\<close>

fun owed :: "call \<Rightarrow> answered list" where
  "owed (Removing u i r) = [(u, ReqRemove i, Inr RespRemove)]"
| "owed (Disowning u i) = [(u, ReqRemove i, Inr RespRemove)]"
| "owed _ = []"

section \<open>Lists of pending calls\<close>

lemma map_filter_Cons: "List.map_filter f (x # xs) =
    (case f x of None \<Rightarrow> List.map_filter f xs | Some y \<Rightarrow> y # List.map_filter f xs)"
  by (simp add: List.map_filter_def split: option.splits)

lemma set_map_filter: "y \<in> set (List.map_filter f xs) \<longleftrightarrow> (\<exists>x \<in> set xs. f x = Some y)"
  by (force simp: List.map_filter_def)

lemma map_filter_remove1:
  "set (List.map_filter f (remove1 x xs)) \<subseteq> set (List.map_filter f xs) \<and>
   (distinct (List.map_filter f xs) \<longrightarrow> distinct (List.map_filter f (remove1 x xs)))"
  by (induction xs) (auto simp: map_filter_Cons List.map_filter_def split: option.splits)

lemma distinct_map_filter_remove1:
  "distinct (List.map_filter f xs) \<Longrightarrow> distinct (List.map_filter f (remove1 x xs))"
  by (rule map_filter_remove1[THEN conjunct2, rule_format])

lemma map_filter_removed:
  assumes "distinct (List.map_filter f xs)" and "x \<in> set xs" and "f x = Some y" and "z \<in> set (remove1 x xs)"
  shows "f z \<noteq> Some y"
  using assms
proof (induction xs)
  case (Cons a xs)
  then show ?case
    by (auto simp: map_filter_Cons set_map_filter split: option.splits if_splits)
qed simp

lemma owning_filter: "owning cs i \<longleftrightarrow> i \<in> set (List.map_filter owning_id cs)"
proof -
  have "owning_id x = Some i \<longleftrightarrow> (\<exists>u q. x = Owning u q i)" for x by (cases x) auto
  then show ?thesis by (auto simp: owning_def set_map_filter)
qed

lemma owning_Cons [simp]: "owning (x # cs) i \<longleftrightarrow> owning_id x = Some i \<or> owning cs i"
  by (auto simp: owning_filter map_filter_Cons split: option.splits)

lemma owning_remove1: "owning (remove1 x cs) i \<Longrightarrow> owning cs i"
  using map_filter_remove1[of owning_id x cs] by (auto simp: owning_filter)

lemma owning_remove1_other: "owning_id x \<noteq> Some i \<Longrightarrow> owning (remove1 x cs) i \<longleftrightarrow> owning cs i"
  by (induction cs) auto

section \<open>Steps that keep the registered jobs and the owners\<close>

definition frame :: "jobServer \<Rightarrow> jobServer \<Rightarrow> bool" where
  "frame s s' \<longleftrightarrow> jobs (srv_jobs s') = jobs (srv_jobs s) \<and> srv_auth s' = srv_auth s \<and>
     (\<forall>r. case store (srv_jobs s) r of
        None \<Rightarrow> store (srv_jobs s') r = None
      | Some j \<Rightarrow> \<exists>j'. store (srv_jobs s') r = Some j' \<and> lives j j')"

lemma lives_refl [simp]: "lives j j"
  by (simp add: lives_def)

lemma lives_fields:
  "lives j j' \<Longrightarrow> ID j' = ID j" "lives j j' \<Longrightarrow> job_handler j' = zombieHandler \<longleftrightarrow> job_handler j = zombieHandler"
  "lives j j' \<Longrightarrow> running (job_handler j') \<Longrightarrow> running (job_handler j)"
  by (auto simp: lives_def follows_def)

lemma frame_store:
  assumes "frame s s'"
  shows "store (srv_jobs s) r = Some j \<Longrightarrow> \<exists>j'. store (srv_jobs s') r = Some j' \<and> lives j j'"
    and "store (srv_jobs s') r = Some j' \<Longrightarrow> \<exists>j. store (srv_jobs s) r = Some j \<and> lives j j'"
  using assms by (auto simp: frame_def split: option.splits dest!: spec[of _ r])

lemma frame_entry:
  assumes "frame s s'"
  shows "sup_entry (srv_jobs s) i = Some j \<Longrightarrow> \<exists>j'. sup_entry (srv_jobs s') i = Some j' \<and> lives j j'"
    and "sup_entry (srv_jobs s') i = Some j' \<Longrightarrow> \<exists>j. sup_entry (srv_jobs s) i = Some j \<and> lives j j'"
  using assms frame_store[OF assms]
  by (auto simp: sup_entry_def frame_def split: option.splits)

lemma frame_None: "frame s s' \<Longrightarrow> sup_entry (srv_jobs s') i = None \<longleftrightarrow> sup_entry (srv_jobs s) i = None"
  using frame_entry[of s s' i] by (cases "sup_entry (srv_jobs s) i"; cases "sup_entry (srv_jobs s') i") auto

lemma frame_known:
  assumes f: "frame s s'"
  shows "known (srv_jobs s') i \<longleftrightarrow> known (srv_jobs s) i"
proof
  assume "known (srv_jobs s') i"
  then obtain r j' where "store (srv_jobs s') r = Some j'" "ID j' = i" by (auto simp: known_def)
  with frame_store(2)[OF f] lives_fields(1) show "known (srv_jobs s) i" by (fastforce simp: known_def)
next
  assume "known (srv_jobs s) i"
  then obtain r j where "store (srv_jobs s) r = Some j" "ID j = i" by (auto simp: known_def)
  with frame_store(1)[OF f] lives_fields(1) show "known (srv_jobs s') i" by (fastforce simp: known_def)
qed

lemma frame_call_ok:
  assumes f: "frame s s'" and ok: "call_ok s x"
  shows "call_ok s' x"
proof (cases x)
  case (Removing u i r)
  with ok obtain j where "store (srv_jobs s) r = Some j" "ID j = i" "job_handler j \<noteq> zombieHandler"
    by auto
  moreover from frame_store(1)[OF f this(1)] obtain j' where j': "store (srv_jobs s') r = Some j'" "lives j j'"
    by blast
  moreover note lives_fields(1,2)[OF j'(2)]
  ultimately show ?thesis using Removing ok frame_None[OF f, of i] by simp
next
  case (Checked u req)
  then show ?thesis using f ok frame_known[OF f] by (auto simp: frame_def)
qed (use f ok frame_None[OF f] frame_known[OF f] in \<open>auto simp: frame_def\<close>)

lemma frame_sane:
  assumes f: "frame s s'" and sane: "sup_sane (srv_jobs s)" and n: "next_ref (srv_jobs s') = next_ref (srv_jobs s)"
  shows "sup_sane (srv_jobs s')"
proof -
  have j: "jobs (srv_jobs s') = jobs (srv_jobs s)" using f by (simp add: frame_def)
  have keys: "distinct_keys (jobs (srv_jobs s))"
    and reg: "map_of (jobs (srv_jobs s)) i = Some r \<Longrightarrow> \<exists>k. store (srv_jobs s) r = Some k \<and> ID k = i"
    and less: "store (srv_jobs s) r = Some k \<Longrightarrow> r < next_ref (srv_jobs s)"
    and inj: "store (srv_jobs s) r = Some k \<Longrightarrow> store (srv_jobs s) r' = Some k' \<Longrightarrow> ID k = ID k' \<Longrightarrow> r = r'"
    for i r r' k k' using sane by (simp_all add: sup_sane_def keys_ok_def refs_ok_def)
  have "\<exists>k. store (srv_jobs s') r = Some k \<and> ID k = i" if "map_of (jobs (srv_jobs s)) i = Some r" for i r
    using reg[OF that] frame_store(1)[OF f] lives_fields(1) by fastforce
  moreover have "r < next_ref (srv_jobs s)" if "store (srv_jobs s') r = Some k" for r k
    using frame_store(2)[OF f that] less by blast
  moreover have "r = r'" if r: "store (srv_jobs s') r = Some k" "store (srv_jobs s') r' = Some k'" "ID k = ID k'" for r r' k k'
  proof -
    obtain l l' where "store (srv_jobs s) r = Some l" "store (srv_jobs s) r' = Some l'" "lives l k" "lives l' k'"
      using frame_store(2)[OF f r(1)] frame_store(2)[OF f r(2)] by blast
    then show ?thesis using inj[of r l r' l'] lives_fields(1) r(3) by metis
  qed
  ultimately show ?thesis using keys unfolding sup_sane_def keys_ok_def refs_ok_def j n by blast
qed

lemma frame_inv:
  assumes "conc_inv cfg (s, cs)" and f: "frame s s'" and "next_ref (srv_jobs s') = next_ref (srv_jobs s)"
  shows "conc_inv cfg (s', cs)"
proof -
  have "job_handler j' \<noteq> zombieHandler" if "sup_entry (srv_jobs s') i = Some j'" for i j'
    using frame_entry(2)[OF f that] lives_fields(2) assms(1) by (auto simp: conc_inv_def)
  moreover have "sup_sane (srv_jobs s')" using frame_sane[OF f _ assms(3)] assms(1) by (simp add: conc_inv_def)
  ultimately show ?thesis
    using assms(1) frame_call_ok[OF f] frame_None[OF f] frame_known[OF f] f
    unfolding conc_inv_def prod.case by (auto simp: frame_def)
qed

lemma frame_abs:
  assumes "frame s s'"
  shows "ended_since (svc_abs s) (svc_abs s')"
  unfolding ended_since_def
proof
  fix i
  have o: "owners (srv_auth s') = owners (srv_auth s)" using assms by (simp add: frame_def)
  show "svc_abs s' i = svc_abs s i \<or> (\<exists>w. svc_abs s i = Some (w, True) \<and> svc_abs s' i = Some (w, False))"
  proof (cases "sup_entry (srv_jobs s) i")
    case None
    with frame_None[OF assms, of i] show ?thesis by (simp add: svc_abs_def o split: option.splits)
  next
    case (Some j)
    with frame_entry(1)[OF assms] obtain j' where "sup_entry (srv_jobs s') i = Some j'" "lives j j'" by blast
    with Some lives_fields(3)[of j j'] show ?thesis by (auto simp: svc_abs_def o split: option.splits)
  qed
qed

lemma frame_world: "frame s (s\<lparr>srv_jobs := (srv_jobs s)\<lparr>sup_world := w\<rparr>\<rparr>)"
  by (auto simp: frame_def split: option.splits)

lemma frame_put: "store (srv_jobs s) r = Some j \<Longrightarrow> lives j j' \<Longrightarrow>
    frame s (s\<lparr>srv_jobs := put_job r j' w (srv_jobs s)\<rparr>)"
  by (auto simp: frame_def split: option.splits)

text \<open>The calls of the supervisor other than a removal.\<close>

lemma call_lives:
  assumes "sup_call E op i s = (res, s')" and "map_of (jobs s) i = Some r" and "store s r = Some j"
    and "op \<noteq> OpRemove"
  obtains j' w where "s' = put_job r j' w s" "lives j j'"
proof -
  have L: "lives j j'" if "follows j j'" "job_handler j' = zombieHandler \<longrightarrow> job_handler j = zombieHandler" for j'
    using that by (simp add: lives_def)
  show thesis
  proof (cases op)
    case (OpStop g)
    let ?m = "if g then InitStop E (30 * time_Second) else job_Stop E"
    obtain x j' w where m: "?m (j, sup_world s) = (x, (j', w))" by (metis prod.exhaust)
    have "follows j j'" using m follows_InitStop follows_Stop by (auto split: if_splits)
    moreover have "job_handler j' = zombieHandler \<longrightarrow> job_handler j = zombieHandler"
      using m InitStop_result[of E "30 * time_Second" j "sup_world s"] job_Stop_result[of E j "sup_world s"]
      by (auto split: if_splits)
    moreover have "s' = put_job r j' w s"
      using assms m OpStop by (auto simp: sup_Stop_def with_ref_def on_job_def split: if_splits)
    ultimately show thesis using that L by blast
  next
    case OpInspect
    have "s' = put_job r j (sup_world s) s"
      using assms OpInspect
      by (auto simp: sup_Inspect_def with_ref_def put_job_def fun_upd_idem split: prod.splits)
    then show thesis using that[of j] by simp
  next
    case OpLogs
    obtain x j' w where m: "job_Logs E (j, sup_world s) = (x, (j', w))" by (metis prod.exhaust)
    have "job_handler j' = job_handler j" using job_Logs_result[OF m] by (auto split: sum.splits)
    moreover have "s' = put_job r j' w s"
      using assms m OpLogs
      by (auto simp: sup_Logs_def with_ref_def on_job_def sm_bind_def sm_ret_def split: sum.splits prod.splits)
    ultimately show thesis using that L follows_Logs[OF m] by metis
  qed (use assms(4) in simp)
qed

lemma frame_call:
  assumes "sup_sane (srv_jobs s)" and "sup_call E op i (srv_jobs s) = (r, js)" and "op \<noteq> OpRemove"
  shows "frame s (s\<lparr>srv_jobs := js\<rparr>) \<and> next_ref js = next_ref (srv_jobs s)"
proof (cases "map_of (jobs (srv_jobs s)) i")
  case None
  with assms(2) have "js = srv_jobs s" by (simp add: sup_call_missing)
  then show ?thesis by (auto simp: frame_def split: option.splits)
next
  case (Some q)
  with assms(1) obtain j where j: "store (srv_jobs s) q = Some j" by (auto elim: sup_saneD)
  obtain j' w where "js = put_job q j' w (srv_jobs s)" "lives j j'"
    by (rule call_lives[OF assms(2) Some j assms(3)])
  with frame_put[OF j] show ?thesis by simp
qed

section \<open>The invariant is kept\<close>

lemma conc_invD:
  assumes "conc_inv cfg (s, cs)"
  shows "sup_sane (srv_jobs s)"
    and "superUsers (srv_auth s) = set (su_FullAccess cfg)" "superReadUsers (srv_auth s) = set (su_ReadAccess cfg)"
    and "owners (srv_auth s) i \<noteq> None \<Longrightarrow> known (srv_jobs s) i"
    and "sup_entry (srv_jobs s) i = Some j \<Longrightarrow> job_handler j \<noteq> zombieHandler"
    and "sup_entry (srv_jobs s) i \<noteq> None \<Longrightarrow> owners (srv_auth s) i = None \<Longrightarrow> owning cs i"
    and "x \<in> set cs \<Longrightarrow> call_ok s x"
    and "Checked u req \<in> set cs \<Longrightarrow> req_job req = Some i \<Longrightarrow> \<not> owning cs i"
    and "distinct (List.map_filter owning_id cs)" "distinct (List.map_filter leaving_id cs)"
  using assms by (auto simp: conc_inv_def)

lemma conc_invI:
  assumes "sup_sane (srv_jobs s)"
    and "superUsers (srv_auth s) = set (su_FullAccess cfg)" "superReadUsers (srv_auth s) = set (su_ReadAccess cfg)"
    and "\<And>i. owners (srv_auth s) i \<noteq> None \<Longrightarrow> known (srv_jobs s) i"
    and "\<And>i j. sup_entry (srv_jobs s) i = Some j \<Longrightarrow> job_handler j \<noteq> zombieHandler"
    and "\<And>i. sup_entry (srv_jobs s) i \<noteq> None \<Longrightarrow> owners (srv_auth s) i = None \<Longrightarrow> owning cs i"
    and "\<And>x. x \<in> set cs \<Longrightarrow> call_ok s x"
    and "\<And>u req i. Checked u req \<in> set cs \<Longrightarrow> req_job req = Some i \<Longrightarrow> \<not> owning cs i"
    and "distinct (List.map_filter owning_id cs)" "distinct (List.map_filter leaving_id cs)"
  shows "conc_inv cfg (s, cs)"
  unfolding conc_inv_def prod.case using assms by blast

lemma entry_known:
  assumes "sup_sane s" and "sup_entry s i = Some j"
  shows "known s i \<and> ID j = i"
proof -
  obtain r where r: "map_of (jobs s) i = Some r" "store s r = Some j" using assms by (rule entry_cases)
  from assms(1) r(1) obtain k where "store s r = Some k" "ID k = i" by (rule sup_saneD)
  with r(2) show ?thesis by (auto simp: known_def)
qed

lemma allowed_owner: "acl_allowed c u i a \<Longrightarrow> owners c i \<noteq> None"
  by (auto simp: acl_allowed_iff)

lemma inv_finish:
  assumes inv: "conc_inv cfg (s, cs)" and x: "owning_id x = None"
  shows "conc_inv cfg (s, remove1 x cs)"
proof (rule conc_invI)
  note I = conc_invD[OF inv] and R = notin_set_remove1
  have own: "owning (remove1 x cs) i = owning cs i" for i using x by (simp add: owning_remove1_other)
  show "owning (remove1 x cs) i" if "sup_entry (srv_jobs s) i \<noteq> None" "owners (srv_auth s) i = None" for i
    using I(6)[OF that] own by simp
  show "call_ok s y" if "y \<in> set (remove1 x cs)" for y
    using I(7)[of y] that set_remove1_subset by fastforce
  show "\<not> owning (remove1 x cs) i" if "Checked u req \<in> set (remove1 x cs)" "req_job req = Some i" for u req i
    using I(8)[of u req i] that own set_remove1_subset by fastforce
qed (use conc_invD[OF inv] distinct_map_filter_remove1 in auto)

lemma inv_create:
  assumes inv: "conc_inv cfg (s, cs)" and "call_ok s (Starting u q j)"
  shows "conc_inv cfg (s, Starting u q j # cs)"
  by (rule conc_invI) (use conc_invD[OF inv] assms(2) in \<open>auto simp: map_filter_Cons simp del: call_ok.simps\<close>)

lemma inv_check:
  assumes inv: "conc_inv cfg (s, cs)" and i: "req_job req = Some i" and a: "acl_allowed (srv_auth s) u i (req_action req)"
  shows "conc_inv cfg (s, Checked u req # cs)"
proof (rule conc_invI)
  note I = conc_invD[OF inv]
  have o: "owners (srv_auth s) i \<noteq> None" using a by (rule allowed_owner)
  have no: "\<not> owning cs i"
  proof
    assume "owning cs i"
    then obtain v q where "Owning v q i \<in> set cs" by (auto simp: owning_def)
    with I(7) o show False by fastforce
  qed
  show "\<not> owning (Checked u req # cs) k" if "Checked v r \<in> set (Checked u req # cs)" "req_job r = Some k" for v r k
    using that I(8) no i by auto
  show "call_ok s x" if "x \<in> set (Checked u req # cs)" for x
    using that I(7) I(4)[OF o] a i by auto
qed (use conc_invD[OF inv] in \<open>auto simp: map_filter_Cons\<close>)

text \<open>A pending call is not disturbed by a change of the jobs that respects what it relies on.\<close>

lemma call_ok_jobs:
  assumes "call_ok s x" and "\<And>k. known (srv_jobs s) k \<Longrightarrow> known js k"
    and "\<And>u q i. x = Owning u q i \<Longrightarrow> sup_entry (srv_jobs s) i \<noteq> None \<Longrightarrow> sup_entry js i \<noteq> None"
    and "\<And>i. leaving_id x = Some i \<Longrightarrow> known (srv_jobs s) i \<Longrightarrow> sup_entry (srv_jobs s) i = None \<Longrightarrow>
      sup_entry js i = None"
    and "\<And>u i r j. x = Removing u i r \<Longrightarrow> store (srv_jobs s) r = Some j \<Longrightarrow> store js r = Some j"
  shows "call_ok (s\<lparr>srv_jobs := js\<rparr>) x"
proof (cases x)
  case (Removing u i r)
  with assms(1) have "known (srv_jobs s) i" by (auto simp: known_def)
  with Removing assms(1,4,5) show ?thesis by auto
qed (use assms in auto)

lemma inv_register:
  assumes inv: "conc_inv cfg (s, cs)" and c: "Starting u q j \<in> set cs"
    and new: "\<forall>r k. store (srv_jobs s) r = Some k \<longrightarrow> ID k \<noteq> ID j"
  shows "conc_inv cfg (s\<lparr>srv_jobs := register_job j (srv_jobs s)\<rparr>, Owning u q (ID j) # remove1 (Starting u q j) cs)"
    (is "conc_inv cfg (?s, _ # ?cs)")
proof (rule conc_invI)
  have inv': "conc_inv cfg (s, ?cs)" using inv by (rule inv_finish) simp
  note I = conc_invD[OF inv'] and sane = conc_invD(1)[OF inv']
  have ok: "call_ok s (Starting u q j)" using conc_invD(7)[OF inv c] .
  note e = entry_register[OF sane, of j]
  have nk: "\<not> known (srv_jobs s) (ID j)" using new by (auto simp: known_def)
  then have no: "owners (srv_auth s) (ID j) = None" using I(4) by blast
  have st: "store (register_job j (srv_jobs s)) r = Some k" if "store (srv_jobs s) r = Some k" for r k
  proof -
    have "r \<noteq> next_ref (srv_jobs s)" using sane that by (auto simp: sup_sane_def refs_ok_def)
    with that show ?thesis by (simp add: register_job_def)
  qed
  then have kn: "known (register_job j (srv_jobs s)) k" if "known (srv_jobs s) k" for k
    using that unfolding known_def by blast
  have none: "\<not> owning ?cs (ID j)"
  proof
    assume "owning ?cs (ID j)"
    then obtain v p where "Owning v p (ID j) \<in> set ?cs" by (auto simp: owning_def)
    then have "sup_entry (srv_jobs s) (ID j) \<noteq> None" using I(7) by fastforce
    with entry_known[OF sane] nk show False by auto
  qed
  show "sup_sane (srv_jobs ?s)" using sup_sane_register[OF sane new] by simp
  show "known (srv_jobs ?s) i" if "owners (srv_auth ?s) i \<noteq> None" for i
    using kn[of i] I(4)[of i] that by simp
  show "job_handler k \<noteq> zombieHandler" if "sup_entry (srv_jobs ?s) i = Some k" for i k
    using that I(5)[of i k] ok e[of i] by (auto simp: fresh_job_def split: if_splits)
  show "owning (Owning u q (ID j) # ?cs) i" if "sup_entry (srv_jobs ?s) i \<noteq> None" "owners (srv_auth ?s) i = None" for i
    using that I(6)[of i] e[of i] by (auto split: if_splits)
  show "call_ok ?s x" if "x \<in> set (Owning u q (ID j) # ?cs)" for x
  proof (cases "x = Owning u q (ID j)")
    case True
    then show ?thesis using ok no e by simp
  next
    case False
    then have "call_ok s x" using that I(7) by auto
    then show ?thesis by (rule call_ok_jobs) (use kn st e nk in \<open>auto split: if_splits\<close>)
  qed
  show "\<not> owning (Owning u q (ID j) # ?cs) i" if "Checked v req \<in> set (Owning u q (ID j) # ?cs)" "req_job req = Some i" for v req i
  proof -
    have c: "Checked v req \<in> set ?cs" using that by simp
    then have "known (srv_jobs s) i" using I(7)[OF c] that(2) by auto
    with nk I(8)[OF c that(2)] show ?thesis by auto
  qed
  show "distinct (List.map_filter owning_id (Owning u q (ID j) # ?cs))"
    using I(9) none by (simp add: map_filter_Cons owning_filter)
  show "distinct (List.map_filter leaving_id (Owning u q (ID j) # ?cs))"
    using I(10) by (simp add: map_filter_Cons)
qed (use conc_invD[OF inv] in auto)

lemma inv_own:
  assumes inv: "conc_inv cfg (s, cs)" and c: "Owning u q i \<in> set cs"
  shows "conc_inv cfg (s\<lparr>srv_auth := snd (SetOwner i u (srv_auth s))\<rparr>, remove1 (Owning u q i) cs)"
    (is "conc_inv cfg (?s, ?cs)")
proof (rule conc_invI)
  note I = conc_invD[OF inv]
  have ok: "trim_space u = u" "u \<noteq> []" "trim_space i = i" "i \<noteq> []" "sup_entry (srv_jobs s) i \<noteq> None"
    "owners (srv_auth s) i = None" using I(7)[OF c] by simp_all
  have o: "owners (srv_auth ?s) = (owners (srv_auth s))(i \<mapsto> u)"
    using acl.owner_own[of i u "srv_auth s"] ok by (simp add: acl_own_def)
  have other: "owning_id x \<noteq> Some i" if "x \<in> set ?cs" for x
    using map_filter_removed[OF I(9) c _ that] by simp
  have al: "acl_allowed (srv_auth ?s) v k a \<longleftrightarrow> acl_allowed (srv_auth s) v k a" if "k \<noteq> i" for v k a
    using acl.own_other[of k i u "srv_auth s"] that ok by (simp add: acl_own_def)
  show "known (srv_jobs ?s) k" if "owners (srv_auth ?s) k \<noteq> None" for k
    using that I(4)[of k] o ok(5) entry_known[OF I(1)] by (cases "k = i") auto
  show "owning ?cs k" if "sup_entry (srv_jobs ?s) k \<noteq> None" "owners (srv_auth ?s) k = None" for k
  proof -
    have "k \<noteq> i" using that o by auto
    then show ?thesis using that o I(6)[of k] owning_remove1_other[of "Owning u q i" k cs] by auto
  qed
  show "call_ok ?s x" if "x \<in> set ?cs" for x
  proof -
    have x: "x \<in> set cs" "call_ok s x" using that I(7) set_remove1_subset by fastforce+
    show ?thesis
    proof (cases x)
      case (Owning v p k)
      then show ?thesis using x other[OF that] o by auto
    next
      case (Checked v req)
      then obtain k where k: "req_job req = Some k" using x by auto
      have "owning cs i" using c by (auto simp: owning_def)
      then have "k \<noteq> i" using I(8)[of v req k] x k Checked by auto
      with Checked x k o al show ?thesis by auto
    qed (use x in auto)
  qed
  show "\<not> owning ?cs k" if "Checked v req \<in> set ?cs" "req_job req = Some k" for v req k
    using I(8)[of v req k] that owning_remove1 set_remove1_subset by fastforce
  show "superUsers (srv_auth ?s) = set (su_FullAccess cfg)" "superReadUsers (srv_auth ?s) = set (su_ReadAccess cfg)"
    using I(2,3) by simp_all
qed (use conc_invD[OF inv] distinct_map_filter_remove1 in auto)

text \<open>The three parts of a removal.\<close>

lemma unlink_result:
  assumes "Remove_unlink i s = (Inr r, s')"
  shows "map_of (jobs s) i = Some r \<and> \<not> running (job_handler (job_at s r)) \<and>
    s' = s\<lparr>jobs := AList.delete i (jobs s)\<rparr>"
  using assms by (auto simp: Remove_unlink_def with_ref_def split: option.splits if_splits)

lemma unlink_err_result: "Remove_unlink i s = (Inl e, s') \<Longrightarrow> s' = s"
  by (auto simp: Remove_unlink_def with_ref_def split: option.splits if_splits)

lemma entry_unlinked: "sup_entry (s\<lparr>jobs := AList.delete i (jobs s)\<rparr>) k = (if k = i then None else sup_entry s k)"
  by (simp add: sup_entry_def cong: option.case_cong)

lemma inv_unlink:
  assumes inv: "conc_inv cfg (s, cs)" and c: "Checked u (ReqRemove i) \<in> set cs"
    and r: "map_of (jobs (srv_jobs s)) i = Some r"
  shows "conc_inv cfg (s\<lparr>srv_jobs := (srv_jobs s)\<lparr>jobs := AList.delete i (jobs (srv_jobs s))\<rparr>\<rparr>,
      Removing u i r # remove1 (Checked u (ReqRemove i)) cs)"
    (is "conc_inv cfg (?s, _ # ?cs)")
proof (rule conc_invI)
  have inv': "conc_inv cfg (s, ?cs)" using inv by (rule inv_finish) simp
  note I = conc_invD[OF inv'] and sane = conc_invD(1)[OF inv']
  from sane r obtain j where j: "store (srv_jobs s) r = Some j" "ID j = i" by (rule sup_saneD)
  have e: "sup_entry (srv_jobs s) i = Some j" using r j by (simp add: sup_entry_def)
  have no: "\<not> owning ?cs i" using conc_invD(8)[OF inv c, of i] owning_remove1 by auto
  have kn: "known (srv_jobs ?s) k = known (srv_jobs s) k" for k by (simp add: known_def)
  show "sup_sane (srv_jobs ?s)" using sup_sane_delete[OF sane] by simp
  show "known (srv_jobs ?s) k" if "owners (srv_auth ?s) k \<noteq> None" for k
    using I(4)[of k] that kn by simp
  show "job_handler k \<noteq> zombieHandler" if "sup_entry (srv_jobs ?s) n = Some k" for n k
    using that I(5)[of n k] by (simp add: entry_unlinked split: if_splits)
  show "owning (Removing u i r # ?cs) k" if "sup_entry (srv_jobs ?s) k \<noteq> None" "owners (srv_auth ?s) k = None" for k
    using that I(6)[of k] by (simp add: entry_unlinked split: if_splits)
  show "call_ok ?s x" if "x \<in> set (Removing u i r # ?cs)" for x
  proof (cases "x = Removing u i r")
    case True
    then show ?thesis using j I(5)[OF e] by (simp add: entry_unlinked)
  next
    case False
    then have x: "call_ok s x" "x \<in> set ?cs" using that I(7) by auto
    show ?thesis
    proof (cases x)
      case (Owning v p k)
      then have "k \<noteq> i" using no x by (auto simp: owning_def)
      with Owning x show ?thesis by (simp add: entry_unlinked)
    qed (use x in \<open>auto simp: entry_unlinked known_def\<close>)
  qed
  show "\<not> owning (Removing u i r # ?cs) k" if "Checked v req \<in> set (Removing u i r # ?cs)" "req_job req = Some k" for v req k
    using that I(8)[of v req k] by simp
  have "leaving_id x \<noteq> Some i" if "x \<in> set ?cs" for x
    using I(7)[OF that] e by (cases x) auto
  then show "distinct (List.map_filter leaving_id (Removing u i r # ?cs))"
    using I(10) by (auto simp: map_filter_Cons set_map_filter)
qed (use conc_invD[OF inv] distinct_map_filter_remove1 in \<open>auto simp: map_filter_Cons\<close>)

text \<open>A clean-up on a job that is not registered; it fails only by a fault.\<close>

lemma cleanup_result:
  assumes "cleanup_or_add E r s = (Ret res, s')" and "store s r = Some j" and "job_handler j \<noteq> zombieHandler"
  shows "case res of
      Inl e \<Rightarrow> \<not> no_faults E \<and> (\<exists>w. s' = sup_add r (put_job r j w s))
    | Inr u \<Rightarrow> \<exists>w. s' = put_job r (setHandler zombieHandler j) w s"
proof -
  have "fst (os_do E (SRemoveAll (jobDir j)) (sup_world s)) = Inr ()" if "no_faults E"
    using no_faults_RemoveAll[OF that, of "jobDir j" "sup_world s"] by auto
  then show ?thesis using assms
    by (auto simp: cleanup_or_add_def on_job_Cleanup split: sum.splits prod.splits if_splits)
qed

text \<open>A change of one job that keeps its identifier and is not seen by the lookups.\<close>

lemma entry_put_hidden:
  assumes "sup_sane s" and "store s r = Some j" and "sup_entry s (ID j) = None"
  shows "sup_entry (put_job r k w s) n = sup_entry s n"
proof (cases "map_of (jobs s) n")
  case (Some q)
  with assms(1) obtain l where l: "store s q = Some l" "ID l = n" by (rule sup_saneD)
  have "q \<noteq> r"
  proof
    assume "q = r"
    with l assms(2) have "n = ID j" by simp
    with Some l assms(3) show False by (simp add: sup_entry_def)
  qed
  with Some show ?thesis by (simp add: sup_entry_def)
qed (simp add: sup_entry_def)

lemma known_put:
  assumes "store s r = Some j" and "ID k = ID j"
  shows "known (put_job r k w s) n \<longleftrightarrow> known s n"
proof
  assume "known s n"
  then obtain q l where "store s q = Some l" "ID l = n" by (auto simp: known_def)
  with assms show "known (put_job r k w s) n"
    unfolding known_def by (intro exI[of _ q]) auto
qed (use assms in \<open>auto simp: known_def split: if_splits\<close>)

lemma removing_other:
  assumes inv: "conc_inv cfg (s, cs)" and c: "Removing u i r \<in> set cs" and y: "Removing v k q \<in> set (remove1 (Removing u i r) cs)"
  shows "k \<noteq> i \<and> q \<noteq> r"
proof -
  note I = conc_invD[OF inv]
  have k: "k \<noteq> i" using map_filter_removed[OF I(10) c _ y] by simp
  have "Removing v k q \<in> set cs" using y set_remove1_subset by fastforce
  with I(7)[OF this] I(7)[OF c] k show ?thesis by auto
qed

lemma inv_cleaned:
  assumes inv: "conc_inv cfg (s, cs)" and c: "Removing u i r \<in> set cs"
    and run: "cleanup_or_add E r (srv_jobs s) = (Ret (Inr ()), js)"
  shows "conc_inv cfg (s\<lparr>srv_jobs := js\<rparr>, Disowning u i # remove1 (Removing u i r) cs)"
    (is "conc_inv cfg (?s, _ # ?cs)")
proof (rule conc_invI)
  have inv': "conc_inv cfg (s, ?cs)" using inv by (rule inv_finish) simp
  note I = conc_invD[OF inv'] and sane = conc_invD(1)[OF inv']
  from conc_invD(7)[OF inv c] obtain j where j: "store (srv_jobs s) r = Some j" "ID j = i"
    "job_handler j \<noteq> zombieHandler" "sup_entry (srv_jobs s) i = None" by auto
  from cleanup_result[OF run j(1,3)] obtain w where js: "js = put_job r (setHandler zombieHandler j) w (srv_jobs s)"
    by auto
  have e: "sup_entry js n = sup_entry (srv_jobs s) n" for n
    unfolding js using entry_put_hidden[OF sane j(1)] j(2,4) by simp
  have kn: "known js k \<longleftrightarrow> known (srv_jobs s) k" for k
    unfolding js by (rule known_put[OF j(1)]) simp
  show "sup_sane (srv_jobs ?s)" using sup_sane_put[OF sane j(1)] js by simp
  show "known (srv_jobs ?s) k" if "owners (srv_auth ?s) k \<noteq> None" for k
    using I(4)[of k] that kn by simp
  show "call_ok ?s x" if "x \<in> set (Disowning u i # ?cs)" for x
  proof (cases "x = Disowning u i")
    case True
    then show ?thesis using j e kn by (auto simp: known_def)
  next
    case False
    then have x: "call_ok s x" "x \<in> set ?cs" using that I(7) by auto
    show ?thesis
    proof (rule call_ok_jobs[OF x(1)])
      fix v k q j' assume q: "x = Removing v k q" "store (srv_jobs s) q = Some j'"
      with x(2) have "Removing v k q \<in> set ?cs" by simp
      from removing_other[OF inv c this] q(2) show "store js q = Some j'" by (simp add: js)
    qed (use kn e in simp_all)
  qed
  show "\<not> owning (Disowning u i # ?cs) k" if "Checked v req \<in> set (Disowning u i # ?cs)" "req_job req = Some k" for v req k
    using that I(8)[of v req k] by simp
  have "leaving_id x \<noteq> Some i" if "x \<in> set ?cs" for x
    using map_filter_removed[OF conc_invD(10)[OF inv] c _ that] by simp
  then show "distinct (List.map_filter leaving_id (Disowning u i # ?cs))"
    using I(10) by (auto simp: map_filter_Cons set_map_filter)
  show "job_handler k \<noteq> zombieHandler" if "sup_entry (srv_jobs ?s) n = Some k" for n k
    using that I(5)[of n k] e by simp
  show "owning (Disowning u i # ?cs) k" if "sup_entry (srv_jobs ?s) k \<noteq> None" "owners (srv_auth ?s) k = None" for k
    using that I(6)[of k] e by simp
qed (use conc_invD[OF inv] distinct_map_filter_remove1 in \<open>auto simp: map_filter_Cons\<close>)

lemma inv_disown:
  assumes inv: "conc_inv cfg (s, cs)" and c: "Disowning u i \<in> set cs"
  shows "conc_inv cfg (s\<lparr>srv_auth := snd (acl_Remove i (srv_auth s))\<rparr>, remove1 (Disowning u i) cs)"
    (is "conc_inv cfg (?s, ?cs)")
proof (rule conc_invI)
  have inv': "conc_inv cfg (s, ?cs)" using inv by (rule inv_finish) simp
  note I = conc_invD[OF inv']
  have ok: "sup_entry (srv_jobs s) i = None" using conc_invD(7)[OF inv c] by simp
  have o: "owners (srv_auth ?s) = (owners (srv_auth s))(i := None)"
    using acl.owner_disown[of i "srv_auth s"] by (simp add: acl_disown_def)
  have al: "acl_allowed (srv_auth ?s) v k a \<longleftrightarrow> acl_allowed (srv_auth s) v k a" if "k \<noteq> i" for v k a
    using acl.disown_frame[OF that] by (simp add: acl_disown_def)
  show "known (srv_jobs ?s) k" if "owners (srv_auth ?s) k \<noteq> None" for k
    using that I(4)[of k] o by (auto split: if_splits)
  show "owning ?cs k" if "sup_entry (srv_jobs ?s) k \<noteq> None" "owners (srv_auth ?s) k = None" for k
    using that I(6)[of k] o ok by (auto split: if_splits)
  show "call_ok ?s x" if "x \<in> set ?cs" for x
  proof (cases x)
    case (Checked v req)
    with I(7)[OF that] obtain k where k: "req_job req = Some k" by auto
    with Checked I(7)[OF that] o al[of k] show ?thesis by (cases "k = i") auto
  qed (use I(7)[OF that] o in auto)
  show "superUsers (srv_auth ?s) = set (su_FullAccess cfg)" "superReadUsers (srv_auth ?s) = set (su_ReadAccess cfg)"
    using I(2,3) by simp_all
qed (use conc_invD[OF inv] inv_finish[OF inv, of "Disowning u i", THEN conc_invD(8)] distinct_map_filter_remove1 in auto)

text \<open>A clean-up of an unlinked job does not fail without faults.\<close>

lemma no_clean_err:
  assumes "conc_inv cfg (s, cs)" and "no_faults E" and "Removing u i r \<in> set cs"
  shows "cleanup_or_add E r (srv_jobs s) \<noteq> (Ret (Inl e), js)"
proof
  assume run: "cleanup_or_add E r (srv_jobs s) = (Ret (Inl e), js)"
  from conc_invD(7)[OF assms(1,3)] obtain j where "store (srv_jobs s) r = Some j" "job_handler j \<noteq> zombieHandler" by auto
  from cleanup_result[OF run this] assms(2) show False by simp
qed

lemma conc_step_inv:
  assumes inv: "conc_inv cfg c" and nf: "no_faults E" and st: "conc_step E c e a c'"
  shows "conc_inv cfg c'"
  using st
proof (cases rule: conc_step.cases)
  case (create u q lim s j w cs)
  have "fresh_job j" using createJob_result[OF create(8)] by blast
  with create have "call_ok (s\<lparr>srv_jobs := (srv_jobs s)\<lparr>sup_world := w\<rparr>\<rparr>) (Starting u q j)" by simp
  from inv_create[OF frame_inv[OF _ frame_world] this] inv create(1) show ?thesis
    unfolding create(4) by simp
next
  case (create_err q lim s x w b u cs)
  from frame_inv[OF _ frame_world] inv create_err(1) show ?thesis unfolding create_err(4) by simp
next
  case (register u q j cs s)
  from inv_register[OF _ register(5,6)] inv show ?thesis unfolding register(1,4) by simp
next
  case (own u q i cs b s)
  from inv_own[OF _ own(5)] inv show ?thesis unfolding own(1,4) by simp
next
  case (check req i s u cs)
  from inv_check[OF _ check(5,6)] inv show ?thesis unfolding check(1,4) by simp
next
  case (act u req cs i s r js b)
  have "conc_inv cfg (s, cs)" using inv act(1) by simp
  note frame_call[OF conc_invD(1)[OF this] act(8,7)]
  with frame_inv[OF \<open>conc_inv cfg (s, cs)\<close>, of "s\<lparr>srv_jobs := js\<rparr>"]
  have "conc_inv cfg (s\<lparr>srv_jobs := js\<rparr>, cs)" by simp
  then show ?thesis unfolding act(4) by (rule inv_finish) simp
next
  case (unlink_err u i cs s x js b)
  have "s\<lparr>srv_jobs := js\<rparr> = s" using unlink_err_result[OF unlink_err(6)] by simp
  then show ?thesis using inv inv_finish[of cfg s cs "Checked u (ReqRemove i)"] unfolding unlink_err(1,4) by simp
next
  case (unlink u i cs s r js b)
  from unlink_result[OF unlink(6)] have "map_of (jobs (srv_jobs s)) i = Some r"
    "js = (srv_jobs s)\<lparr>jobs := AList.delete i (jobs (srv_jobs s))\<rparr>" by simp_all
  with inv_unlink[OF _ unlink(5)] inv show ?thesis unfolding unlink(1,4) by simp
next
  case (cleaned u i r cs s js)
  from inv_cleaned[OF _ cleaned(5,6)] inv show ?thesis unfolding cleaned(1,4) by simp
next
  case (clean_err u i r cs s x js b)
  with no_clean_err[OF _ nf clean_err(5)] inv show ?thesis by simp
next
  case (disown u i cs b s)
  from inv_disown[OF _ disown(5)] inv show ?thesis unfolding disown(1,4) by simp
next
  case (goroutine s r j j' w cs)
  from frame_inv[OF _ frame_put[OF goroutine(5,6)]] inv show ?thesis unfolding goroutine(1,4) by simp
qed (use inv in simp_all)

end
