(* ===== verification/Linearizability.thy ===== *)
theory Linearizability
  imports Service_Concurrency "HOL-Library.Multiset"
begin

text \<open>
  The calls of the service are linearizable: every critical section of \<open>Service_Concurrency\<close>
  with which a call takes effect is a step of the specification of \<open>Service_Spec\<close>, and every
  other one leaves its state alone, except that a job may end.
\<close>

section \<open>Every effect is a step of the specification\<close>

lemma may_of:
  assumes "conc_inv cfg (s, cs)" and "may cfg (svc_abs s) u i a"
  shows "acl_allowed (srv_auth s) u i a"
  using assms conc_invD(2,3)[OF assms(1)]
  by (auto simp: may_def svc_abs_def acl_allowed_iff split: option.splits)

lemma checked_owner:
  assumes inv: "conc_inv cfg (s, cs)" and c: "Checked u req \<in> set cs" and i: "req_job req = Some i"
    and e: "sup_entry (srv_jobs s) i = Some j"
  shows "\<exists>w. owners (srv_auth s) i = Some w \<and> acl_allowed (srv_auth s) u i (req_action req) \<and>
    svc_abs s i = Some (w, running (job_handler j)) \<and> may cfg (svc_abs s) u i (req_action req)"
proof -
  note I = conc_invD[OF inv]
  have "owners (srv_auth s) i \<noteq> None" using I(6)[of i] I(8)[OF c i] e by auto
  then obtain w where w: "owners (srv_auth s) i = Some w" by blast
  have al: "acl_allowed (srv_auth s) u i (req_action req)" using I(7)[OF c] i w by auto
  have ab: "svc_abs s i = Some (w, running (job_handler j))" using w e by (simp add: svc_abs_def)
  with al w I(2,3) have "may cfg (svc_abs s) u i (req_action req)" by (simp add: may_def acl_allowed_iff)
  with w al ab show ?thesis by blast
qed

lemma missing_denied:
  assumes "sup_entry (srv_jobs s) i = None" and "req_job req = Some i"
  shows "svc_step cfg u req (Inl job_not_found) (svc_abs s) (svc_abs s)"
  using assms by (intro svc_step.denied) (auto simp: may_def svc_abs_def split: option.splits)

lemma act_sim:
  assumes inv: "conc_inv cfg (s, cs)" and c: "Checked u req \<in> set cs" and i: "req_job req = Some i"
    and op: "req_op req \<noteq> OpRemove" and call: "sup_call E (req_op req) i (srv_jobs s) = (Ret r, js)"
  shows "svc_step cfg u req (call_answer req r) (svc_abs s) (svc_abs (s\<lparr>srv_jobs := js\<rparr>))"
proof (cases "sup_entry (srv_jobs s) i")
  case None
  then have "map_of (jobs (srv_jobs s)) i = None" using sup_entry_None[OF conc_invD(1)[OF inv]] by simp
  with call have "r = Inl ErrNotFound" "js = srv_jobs s" by (simp_all add: sup_call_missing)
  with missing_denied[OF None i] show ?thesis by (simp add: to_status_def)
next
  case (Some j)
  note I = conc_invD[OF inv]
  obtain w where w: "owners (srv_auth s) i = Some w" "acl_allowed (srv_auth s) u i (req_action req)"
    using checked_owner[OF inv c i Some] by blast
  show ?thesis
    by (rule call_step_at[OF I(1-3) w(1) Some i w(2) call]) (use op in \<open>cases r; simp\<close>)
qed

lemma unlink_sim:
  assumes inv: "conc_inv cfg (s, cs)" and c: "Checked u (ReqRemove i) \<in> set cs"
    and run: "Remove_unlink i (srv_jobs s) = (x, js)"
  shows "case x of
      Inl e \<Rightarrow> svc_step cfg u (ReqRemove i) (Inl (to_status e)) (svc_abs s) (svc_abs (s\<lparr>srv_jobs := js\<rparr>))
    | Inr r \<Rightarrow> svc_step cfg u (ReqRemove i) (Inr RespRemove) (svc_abs s) (svc_abs (s\<lparr>srv_jobs := js\<rparr>))"
proof (cases "sup_entry (srv_jobs s) i")
  case None
  then have "map_of (jobs (srv_jobs s)) i = None" using sup_entry_None[OF conc_invD(1)[OF inv]] by simp
  with run have "x = Inl ErrNotFound" "js = srv_jobs s" by (simp_all add: Remove_unlink_def with_ref_def)
  with missing_denied[OF None, of "ReqRemove i"] show ?thesis by (simp add: to_status_def)
next
  case (Some j)
  then obtain r where r: "map_of (jobs (srv_jobs s)) i = Some r" "store (srv_jobs s) r = Some j"
    by (rule entry_cases[OF conc_invD(1)[OF inv]])
  obtain w where w: "svc_abs s i = Some (w, running (job_handler j))" "may cfg (svc_abs s) u i FullAccess"
    using checked_owner[OF inv c _ Some] by auto
  show ?thesis
  proof (cases "running (job_handler j)")
    case True
    with run r have "x = Inl (Errorf ''job is still running'')" "js = srv_jobs s"
      by (simp_all add: Remove_unlink_def with_ref_def)
    moreover from w have "svc_step cfg u (ReqRemove i) (Inl (Status Internal (Errorf ''job is still running''))) (svc_abs s) (svc_abs s)"
      by (intro svc_step.failed) simp_all
    ultimately show ?thesis by (simp add: to_status_def)
  next
    case False
    with run r have x: "x = Inr r" "js = (srv_jobs s)\<lparr>jobs := AList.delete i (jobs (srv_jobs s))\<rparr>"
      by (simp_all add: Remove_unlink_def with_ref_def)
    have "svc_abs (s\<lparr>srv_jobs := js\<rparr>) = (svc_abs s)(i := None)"
      by (rule ext) (simp add: svc_abs_def x entry_unlinked split: option.splits)
    with w False x show ?thesis using svc_step.removed[of cfg "svc_abs s" u i w] by simp
  qed
qed

lemma own_sim:
  assumes inv: "conc_inv cfg (s, cs)" and c: "Owning u q i \<in> set cs"
  shows "\<exists>B. svc_step cfg u (ReqStart q) (Inr (RespStart i)) (svc_abs s) B \<and>
    ended_since B (svc_abs (s\<lparr>srv_auth := snd (SetOwner i u (srv_auth s))\<rparr>))"
proof -
  have ok: "trim_space u = u" "u \<noteq> []" "trim_space i = i" "i \<noteq> []" "owners (srv_auth s) i = None"
    and "sup_entry (srv_jobs s) i \<noteq> None" using conc_invD(7)[OF inv c] by simp_all
  then obtain j where j: "sup_entry (srv_jobs s) i = Some j" by blast
  have o: "owners (snd (SetOwner i u (srv_auth s))) = (owners (srv_auth s))(i \<mapsto> u)"
    using acl.owner_own[of i u "srv_auth s"] ok by (simp add: acl_own_def)
  have "svc_abs s i = None" using ok by (simp add: svc_abs_def)
  then have "svc_step cfg u (ReqStart q) (Inr (RespStart i)) (svc_abs s) ((svc_abs s)(i \<mapsto> (u, True)))"
    by (rule svc_step.started)
  moreover have "ended_since ((svc_abs s)(i \<mapsto> (u, True))) (svc_abs (s\<lparr>srv_auth := snd (SetOwner i u (srv_auth s))\<rparr>))"
    unfolding ended_since_def using j by (auto simp: svc_abs_def o)
  ultimately show ?thesis by blast
qed

lemma register_abs:
  assumes "conc_inv cfg (s, cs)" and "\<forall>r k. store (srv_jobs s) r = Some k \<longrightarrow> ID k \<noteq> ID j"
  shows "svc_abs (s\<lparr>srv_jobs := register_job j (srv_jobs s)\<rparr>) = svc_abs s"
proof
  fix i
  note I = conc_invD[OF assms(1)]
  have "\<not> known (srv_jobs s) (ID j)" using assms(2) by (auto simp: known_def)
  then have "owners (srv_auth s) (ID j) = None" using I(4) by blast
  then show "svc_abs (s\<lparr>srv_jobs := register_job j (srv_jobs s)\<rparr>) i = svc_abs s i"
    by (simp add: svc_abs_def entry_register[OF I(1)] split: option.splits)
qed

lemma cleaned_abs:
  assumes inv: "conc_inv cfg (s, cs)" and c: "Removing u i r \<in> set cs"
    and run: "cleanup_or_add E r (srv_jobs s) = (Ret (Inr ()), js)"
  shows "svc_abs (s\<lparr>srv_jobs := js\<rparr>) = svc_abs s"
proof -
  from conc_invD(7)[OF inv c] obtain j where j: "store (srv_jobs s) r = Some j" "ID j = i"
    "job_handler j \<noteq> zombieHandler" "sup_entry (srv_jobs s) i = None" by auto
  from cleanup_result[OF run j(1,3)] obtain w where js: "js = put_job r (setHandler zombieHandler j) w (srv_jobs s)"
    by auto
  have "sup_entry js n = sup_entry (srv_jobs s) n" for n
    unfolding js using entry_put_hidden[OF conc_invD(1)[OF inv] j(1)] j(2,4) by simp
  then show ?thesis by (simp add: svc_abs_def fun_eq_iff)
qed

lemma disown_abs:
  assumes inv: "conc_inv cfg (s, cs)" and c: "Disowning u i \<in> set cs"
  shows "svc_abs (s\<lparr>srv_auth := snd (acl_Remove i (srv_auth s))\<rparr>) = svc_abs s"
proof
  fix n
  have "owners (snd (acl_Remove i (srv_auth s))) = (owners (srv_auth s))(i := None)"
    using acl.owner_disown[of i "srv_auth s"] by (simp add: acl_disown_def)
  moreover have "sup_entry (srv_jobs s) i = None" using conc_invD(7)[OF inv c] by simp
  ultimately show "svc_abs (s\<lparr>srv_auth := snd (acl_Remove i (srv_auth s))\<rparr>) n = svc_abs s n"
    by (simp add: svc_abs_def split: option.splits)
qed

text \<open>The relation between the answers that take effect and the abstract states.\<close>

definition effect_ok :: "server_config \<Rightarrow> answered option \<Rightarrow> svc \<Rightarrow> svc \<Rightarrow> bool" where
  "effect_ok cfg e A C \<longleftrightarrow>
     (case e of
        None \<Rightarrow> ended_since A C
      | Some (u, req, ans) \<Rightarrow> \<exists>B. svc_step cfg u req ans A B \<and> ended_since B C)"

lemma effect_okI: "svc_step cfg u req ans A B \<Longrightarrow> effect_ok cfg (Some (u, req, ans)) A B"
  unfolding effect_ok_def by auto

lemma conc_step_sim:
  assumes inv: "conc_inv cfg c" and nf: "no_faults E" and st: "conc_step E c e a c'"
  shows "effect_ok cfg e (svc_abs (fst c)) (svc_abs (fst c'))"
  using st
proof (cases rule: conc_step.cases)
  case (create u q lim s j w cs)
  then show ?thesis using frame_abs[OF frame_world, of s w] by (simp add: effect_ok_def)
next
  case (create_err q lim s x w b u cs)
  have "svc_step cfg u (ReqStart q) (Inl (to_status x)) (svc_abs s) (svc_abs s)" by (rule svc_step.not_started)
  with create_err frame_abs[OF frame_world, of s w] show ?thesis by (auto simp: effect_ok_def)
next
  case (no_limits q m b u s cs)
  then show ?thesis by (auto intro: effect_okI svc_step.not_started)
next
  case (register u q j cs s)
  then show ?thesis using register_abs[of cfg s cs j] inv by (simp add: effect_ok_def)
next
  case (own u q i cs b s)
  then show ?thesis using own_sim[of cfg s cs u q i] inv by (simp add: effect_ok_def)
next
  case (deny req i s u b cs)
  then have "\<not> may cfg (svc_abs s) u i (req_action req)" using may_of inv by blast
  with deny show ?thesis by (auto intro!: effect_okI svc_step.denied)
next
  case (act u req cs i s r js b)
  then show ?thesis using act_sim[OF _ act(5-8)] inv by (auto intro: effect_okI)
next
  case (unlink_err u i cs s x js b)
  then show ?thesis using unlink_sim[OF _ unlink_err(5,6)] inv by (auto intro: effect_okI)
next
  case (unlink u i cs s r js b)
  then show ?thesis using unlink_sim[OF _ unlink(5,6)] inv by (auto intro: effect_okI)
next
  case (cleaned u i r cs s js)
  then show ?thesis using cleaned_abs[OF _ cleaned(5,6)] inv by (simp add: effect_ok_def)
next
  case (clean_err u i r cs s x js b)
  with no_clean_err[OF _ nf clean_err(5)] inv show ?thesis by simp
next
  case (disown u i cs b s)
  then show ?thesis using disown_abs[OF _ disown(5)] inv by (simp add: effect_ok_def)
next
  case (goroutine s r j j' w cs)
  then show ?thesis using frame_abs[OF frame_put[OF goroutine(5,6)]] by (simp add: effect_ok_def)
qed (simp add: effect_ok_def)

section \<open>Linearizability\<close>

definition owed_all :: "call list \<Rightarrow> answered list" where
  "owed_all cs = concat (List.map owed cs)"

lemma owed_all_simps [simp]: "owed_all [] = []" "owed_all (x # cs) = owed x @ owed_all cs"
  by (simp_all add: owed_all_def)

lemma owed_all_remove1: "x \<in> set cs \<Longrightarrow> mset (owed_all cs) = mset (owed x) + mset (owed_all (remove1 x cs))"
  by (induction cs) auto

lemma conc_step_owed:
  assumes "conc_inv cfg c" and "no_faults E" and "conc_step E c e a c'"
  shows "mset (answers e) + mset (owed_all (snd c)) = mset (answers a) + mset (owed_all (snd c'))"
  using assms(3)
proof (cases rule: conc_step.cases)
  case (clean_err u i r cs s x js b)
  with no_clean_err[OF _ assms(2) clean_err(5)] assms(1) show ?thesis by simp
qed (auto simp: owed_all_remove1)

lemma conc_inv_init: "srv_New cfg w = Inr s \<Longrightarrow> conc_inv cfg (s, []) \<and> svc_abs s = Map.empty"
proof -
  assume s: "srv_New cfg w = Inr s"
  have "sup_sane (srv_jobs s)" "superUsers (srv_auth s) = set (su_FullAccess cfg)"
    "superReadUsers (srv_auth s) = set (su_ReadAccess cfg)"
    using srv_inv_new[OF s] by (simp_all add: srv_inv_def)
  moreover have "owners (srv_auth s) = Map.empty" "jobs (srv_jobs s) = []"
    using s by (auto simp: srv_New_result sup_New_def split: option.splits)
  ultimately show ?thesis
    by (auto simp: conc_inv_def sup_entry_def svc_abs_def List.map_filter_def)
qed

lemma svc_history_effect:
  "svc_history cfg A h B \<Longrightarrow> effect_ok cfg e B C \<Longrightarrow> svc_history cfg A (h @ answers e) C"
  by (cases e) (auto simp: effect_ok_def intro: svc_history.intros)


text \<open>
  A run: the client asks for the job it is about to be given while the call of \<^verbatim>\<open>Start\<close> has
  registered it and not yet entered its owner; it is told that there is no such job, as if
  it had asked before.
\<close>

definition early_inspect :: answered where
  "early_inspect = (''bob'', ReqInspect ''x'', Inl job_not_found)"

definition bob_starts :: answered where
  "bob_starts = (''bob'', ReqStart demo_request, Inr (RespStart ''x''))"

lemma demo_conc_start:
  assumes c: "createJob E ''ls'' [''-l''] no_limits root_ids empty_world = (Inr j, w)" and i: "ID j = ''x''"
  shows "\<exists>s. conc_run E demo_config [early_inspect, bob_starts] [early_inspect, bob_starts] (s, []) \<and>
    store (srv_jobs s) 0 = Some j \<and> jobs (srv_jobs s) = [(''x'', 0)] \<and> owners (srv_auth s) = [''x'' \<mapsto> ''bob'']"
proof -
  let ?s1 = "new_srv\<lparr>srv_jobs := (srv_jobs new_srv)\<lparr>sup_world := w\<rparr>\<rparr>"
  let ?s2 = "?s1\<lparr>srv_jobs := register_job j (srv_jobs ?s1)\<rparr>"
  let ?s3 = "?s2\<lparr>srv_auth := snd (SetOwner (ID j) ''bob'' (srv_auth ?s2))\<rparr>"
  have trim: "trim_space ''bob'' = ''bob''" "trim_space ''x'' = ''x''" by code_simp+
  have new: "srv_jobs new_srv = sup_New 0 0 empty_world" "owners (srv_auth new_srv) = Map.empty"
    by (simp_all add: new_srv_def)
  have lim: "toJobLimits (req_Limits demo_request) = Ret no_limits"
    by (simp add: demo_request_def toJobLimits_def no_limits_def)
  have ids: "sup_ids (sup_New 0 0 empty_world) = root_ids" "sup_world (sup_New 0 0 empty_world) = empty_world"
    by (simp_all add: sup_New_def root_ids_def)
  have 1: "conc_step E (new_srv, []) None None (?s1, [Starting ''bob'' demo_request j])"
    using trim i by (intro conc_step.create[OF _ _ lim]) (simp_all add: new ids c demo_request_def)
  have 2: "conc_step E (?s1, [Starting ''bob'' demo_request j]) None None (?s2, [Owning ''bob'' demo_request (ID j)])"
    using conc_step.register[of "''bob''" demo_request j "[Starting ''bob'' demo_request j]" ?s1 E]
    by (simp add: new sup_New_def)
  have 3: "conc_step E (?s2, [Owning ''bob'' demo_request (ID j)]) (Some early_inspect) (Some early_inspect)
      (?s2, [Owning ''bob'' demo_request (ID j)])"
    by (rule conc_step.deny[where i = "''x''"]) (simp_all add: early_inspect_def acl_allowed_iff new)
  have 4: "conc_step E (?s2, [Owning ''bob'' demo_request (ID j)]) (Some bob_starts) (Some bob_starts) (?s3, [])"
    using conc_step.own[of "''bob''" demo_request "ID j" "[Owning ''bob'' demo_request (ID j)]" bob_starts E ?s2]
    by (simp add: bob_starts_def i)
  from conc_path.step[OF conc_path.step[OF conc_path.step[OF conc_path.step[OF conc_path.here 1] 2] 3] 4]
  have "conc_path E (new_srv, []) [early_inspect, bob_starts] [early_inspect, bob_starts] (?s3, [])" by simp
  then have "conc_run E demo_config [early_inspect, bob_starts] [early_inspect, bob_starts] (?s3, [])"
    unfolding conc_run_def using demo_srv_New by blast
  moreover have "owners (srv_auth ?s3) = [''x'' \<mapsto> ''bob'']"
    using trim by (simp add: SetOwner_def Let_def i new)
  moreover have "store (srv_jobs ?s3) 0 = Some j \<and> jobs (srv_jobs ?s3) = [(''x'', 0)]"
    by (simp add: register_job_def put_job_def new sup_New_def i)
  ultimately show ?thesis by (intro exI[of _ ?s3]) simp
qed


section \<open>An uninterrupted call\<close>

lemma uninterrupted_start:
  assumes "good_client ctx u" and "good_id E s x" and y: "srv_Start E ctx q s = (Ret y, s')"
  shows "\<exists>es. conc_path E (s, []) es [(u, ReqStart q, map_sum id RespStart y)] (s', [])"
proof -
  note P = conc_path.here[of E "(s, [])"]
  have id: "authID ctx = (u, True)" "trim_space u = u" "u \<noteq> []" using assms(1) by (simp_all add: good_client_def)
  have x: "x = os_xid E (trace (sup_world (srv_jobs s)))" "trim_space x = x" "x \<noteq> []"
    and new: "\<forall>r j. store (srv_jobs s) r = Some j \<longrightarrow> ID j \<noteq> x"
    using assms(2) unfolding good_id_def by blast+
  let ?ans = "map_sum id RespStart y"
  from y obtain lim where lim: "toJobLimits (req_Limits q) = Ret lim"
    using id by (auto simp: srv_Start_def split: outcome.splits)
  obtain z w where cr: "createJob E (req_Command q) (req_Args q) lim (sup_ids (srv_jobs s)) (sup_world (srv_jobs s)) = (z, w)"
    by (metis prod.exhaust)
  let ?s1 = "s\<lparr>srv_jobs := (srv_jobs s)\<lparr>sup_world := w\<rparr>\<rparr>"
  show ?thesis
  proof (cases z)
    case (Inl e)
    then have "y = Inl (to_status e)" "s' = ?s1"
      using y id lim cr by (auto simp: srv_Start_def sup_Start_def)
    with conc_path_snoc[OF P conc_step.create_err[OF lim cr[unfolded Inl] refl, where u = u and cs = "[]"] refl refl]
    show ?thesis by auto
  next
    case (Inr j)
    have j: "ID j = x" using createJob_id[of E] cr Inr x(1) by blast
    let ?s2 = "?s1\<lparr>srv_jobs := register_job j (srv_jobs ?s1)\<rparr>"
    have a: "y = Inr x" "s' = ?s2\<lparr>srv_auth := snd (SetOwner (ID j) u (srv_auth ?s2))\<rparr>"
      using y id lim cr Inr j by (auto simp: srv_Start_def sup_Start_register)
    have 1: "conc_step E (s, []) None None (?s1, [Starting u q j])"
      using conc_step.create[OF id(2,3) lim cr[unfolded Inr], of "[]"] x j by simp
    have 2: "conc_step E (?s1, [Starting u q j]) None None (?s2, [Owning u q (ID j)])"
      using conc_step.register[of u q j "[Starting u q j]" ?s1 E] new j by simp
    have 3: "conc_step E (?s2, [Owning u q (ID j)]) (Some (u, ReqStart q, ?ans)) (Some (u, ReqStart q, ?ans)) (s', [])"
      using conc_step.own[of u q "ID j" "[Owning u q (ID j)]" "(u, ReqStart q, ?ans)" E ?s2] a j by simp
    from conc_path.step[OF conc_path.step[OF conc_path.step[OF P 1] 2] 3] show ?thesis by auto
  qed
qed

lemma uninterrupted_remove:
  assumes P1: "conc_path E (s, []) [] [] (s, [Checked u (ReqRemove i)])"
    and y: "sup_Remove E i (srv_jobs s) = (Ret y, js)"
  shows "\<exists>es. conc_path E (s, []) es [(u, ReqRemove i, map_sum to_status (\<lambda>_. RespRemove) y)]
    (case y of Inl _ \<Rightarrow> s\<lparr>srv_jobs := js\<rparr> | Inr _ \<Rightarrow> s\<lparr>srv_jobs := js, srv_auth := acl_disown i (srv_auth s)\<rparr>, [])"
proof -
  let ?req = "ReqRemove i" and ?ans = "map_sum to_status (\<lambda>_. RespRemove) y"
  let ?s' = "case y of Inl _ \<Rightarrow> s\<lparr>srv_jobs := js\<rparr> | Inr _ \<Rightarrow> s\<lparr>srv_jobs := js, srv_auth := acl_disown i (srv_auth s)\<rparr>"
  obtain v t where u: "Remove_unlink i (srv_jobs s) = (v, t)" by (metis prod.exhaust)
  show ?thesis
  proof (cases v)
    case (Inl e)
    then have Y: "y = Inl e" "js = t" using y u by (auto simp: sup_Remove_def)
    have 2: "conc_step E (s, [Checked u ?req]) (Some (u, ?req, ?ans)) (Some (u, ?req, ?ans)) (?s', [])"
      using conc_step.unlink_err[of u i "[Checked u ?req]" s e t "(u, ?req, ?ans)" E] u Inl Y by simp
    from conc_path.step[OF P1 2] show ?thesis by auto
  next
    case (Inr q)
    let ?t = "s\<lparr>srv_jobs := t\<rparr>"
    have cl: "cleanup_or_add E q t = (Ret y, js)" using y u Inr by (auto simp: sup_Remove_def)
    have 2: "conc_step E (s, [Checked u ?req]) (Some (u, ?req, Inr RespRemove)) None (?t, [Removing u i q])"
      using conc_step.unlink[of u i "[Checked u ?req]" s q t "(u, ?req, Inr RespRemove)" E] u Inr by simp
    note P2 = conc_path.step[OF P1 2]
    show ?thesis
    proof (cases y)
      case (Inl e)
      have 3: "conc_step E (?t, [Removing u i q]) None (Some (u, ?req, ?ans)) (?s', [])"
        using conc_step.clean_err[of u i q "[Removing u i q]" E ?t e js "(u, ?req, ?ans)"] cl Inl by simp
      from conc_path.step[OF P2 3] show ?thesis by auto
    next
      case (Inr z)
      have 3: "conc_step E (?t, [Removing u i q]) None None (s\<lparr>srv_jobs := js\<rparr>, [Disowning u i])"
        using conc_step.cleaned[of u i q "[Removing u i q]" E ?t js] cl Inr by simp
      have 4: "conc_step E (s\<lparr>srv_jobs := js\<rparr>, [Disowning u i]) None (Some (u, ?req, ?ans)) (?s', [])"
        using conc_step.disown[of u i "[Disowning u i]" "(u, ?req, ?ans)" E "s\<lparr>srv_jobs := js\<rparr>"] Inr
        by (simp add: acl_disown_def)
      from conc_path.step[OF conc_path.step[OF P2 3] 4] show ?thesis by auto
    qed
  qed
qed

text \<open>
  C5. The steps are those of the methods: a call that nothing interrupts leads, step by step, to
  the state and the answer of the method of \<^verbatim>\<open>server.go\<close> as it is written in one piece, when
  that returns. The client has a name without surrounding space, and so has the next
  identifier, which is new.
\<close>

theorem uninterrupted_call_is_method:
  assumes "good_client ctx u" and "good_id E s x" and run: "srv_handle E ctx req s = (Ret ans, s')"
  shows "\<exists>es. conc_path E (s, []) es [(u, req, ans)] (s', [])"
proof (cases "req_job req")
  case None
  then obtain q where q: "req = ReqStart q" by (cases req) auto
  from run q obtain y where "srv_Start E ctx q s = (Ret y, s')" "ans = map_sum id RespStart y"
    by (cases "srv_Start E ctx q s"; cases "fst (srv_Start E ctx q s)") (auto simp: resp_def)
  with uninterrupted_start[OF assms(1,2)] q show ?thesis by blast
next
  case (Some i)
  note P = conc_path.here[of E "(s, [])"]
  have id: "authID ctx = (u, True)" using assms(1) by (simp add: good_client_def)
  show ?thesis
  proof (cases "acl_allowed (srv_auth s) u i (req_action req)")
    case False
    then have a: "ans = Inl job_not_found" "s' = s" using run by (simp_all add: srv_handle_call[OF id Some])
    from conc_path.step[OF P conc_step.deny[OF Some False refl, of E "[]"]] a show ?thesis by auto
  next
    case True
    have 1: "conc_step E (s, []) None None (s, [Checked u req])" by (rule conc_step.check[OF Some True])
    from conc_path.step[OF P 1] have P1: "conc_path E (s, []) [] [] (s, [Checked u req])" by simp
    obtain r js where c: "sup_call E (req_op req) i (srv_jobs s) = (Ret r, js)"
      using run True by (auto simp: srv_handle_call[OF id Some] split: prod.splits outcome.splits)
    have a: "ans = call_answer req r"
      "s' = (if req_op req = OpRemove \<and> \<not> isl r then s\<lparr>srv_jobs := js, srv_auth := acl_disown i (srv_auth s)\<rparr>
        else s\<lparr>srv_jobs := js\<rparr>)"
      using run True c by (cases r; auto simp: srv_handle_call[OF id Some])+
    show ?thesis
    proof (cases "req_op req = OpRemove")
      case False
      have 2: "conc_step E (s, [Checked u req]) (Some (u, req, ans)) (Some (u, req, ans)) (s', [])"
        using conc_step.act[of u req "[Checked u req]" i E s r js, OF _ Some False c refl] a False by simp
      from conc_path.step[OF P1 2] show ?thesis by auto
    next
      case rm: True
      then have req: "req = ReqRemove i" using Some by (cases req) auto
      obtain y where y: "sup_Remove E i (srv_jobs s) = (Ret y, js)" "r = map_sum id (\<lambda>_. RepDone) y"
        using c rm by (auto split: prod.splits outcome.splits)
      have "ans = map_sum to_status (\<lambda>_. RespRemove) y"
          "s' = (case y of Inl _ \<Rightarrow> s\<lparr>srv_jobs := js\<rparr>
            | Inr _ \<Rightarrow> s\<lparr>srv_jobs := js, srv_auth := acl_disown i (srv_auth s)\<rparr>)"
        using a y(2) req by (cases y; simp)+
      with uninterrupted_remove[OF P1[unfolded req] y(1)] req show ?thesis by simp
    qed
  qed
qed

theorem uninterrupted_call_is_method_witness:
  "\<exists>es s'. conc_path (mounts_env [] []) (new_srv, []) es [(''bob'', ReqStart demo_request, Inr (RespStart ''x''))] (s', [])"
proof -
  have trim: "trim_space ''bob'' = ''bob''" "trim_space ''x'' = ''x''" by code_simp+
  have g: "good_id (mounts_env [] []) new_srv ''x''"
    using trim by (simp add: good_id_def mounts_env_def new_srv_def sup_New_def)
  have c: "good_client (StoreAuthID [] ''bob'') ''bob''" using trim by (simp add: good_client_def)
  have h: "srv_handle (mounts_env [] []) (StoreAuthID [] ''bob'') (ReqStart demo_request) new_srv =
     (Ret (Inr (RespStart ''x'')),
      new_srv\<lparr>srv_jobs := demo_start, srv_auth := acl_own ''x'' ''bob'' (srv_auth new_srv)\<rparr>)"
    using demo_srv_start[OF authID_Store] by (simp add: resp_def)
  from uninterrupted_call_is_method[OF c g h] show ?thesis by blast
qed

section \<open>A removal that fails\<close>

text \<open>In a history without a removal of a job its owner is never told that there is no such job.\<close>

lemma history_keeps_owner:
  assumes "svc_history cfg A h B" and "A i = Some (w, b)"
    and "\<forall>u. (u, ReqRemove i, Inr RespRemove) \<notin> set h"
  shows "(\<exists>b. B i = Some (w, b)) \<and> (w, ReqInspect i, Inl job_not_found) \<notin> set h"
  using assms(1,3)
proof (induction rule: svc_history.induct)
  case (over h B C)
  then obtain b where "B i = Some (w, b)" by blast
  with over show ?case by (auto simp: ended_since_def dest!: spec[of _ i])
next
  case (call h B u req ans C)
  then obtain b where b: "B i = Some (w, b)" by auto
  have "\<exists>b. C i = Some (w, b)"
    using call.hyps(2) call.prems b by (cases rule: svc_step.cases) auto
  moreover have "(u, req, ans) \<noteq> (w, ReqInspect i, Inl job_not_found)"
    using call.hyps(2) b by (cases rule: svc_step.cases) (auto simp: may_def job_not_found_def)
  ultimately show ?case using call by auto
qed (use assms(2) in auto)

definition stuck_dir_env :: os_env where
  "stuck_dir_env = mounts_env [SRemoveAll (path_Join [defaultBasePath, ''x''])] []"

lemma stuck_dir_createJob:
  "\<exists>j w. createJob stuck_dir_env ''ls'' [''-l''] no_limits root_ids empty_world = (Inr j, w)"
proof -
  have "\<not> isl (fst (createJob stuck_dir_env ''ls'' [''-l''] no_limits root_ids empty_world))" by code_simp
  then show ?thesis by (metis prod.collapse sum.collapse(2))
qed

lemma failed_removal_run:
  "\<exists>s s' es as es'. conc_run stuck_dir_env demo_config es as (s, []) \<and>
     conc_path stuck_dir_env (s, []) es' [(''bob'', ReqInspect ''x'', Inl job_not_found),
       (''bob'', ReqRemove ''x'', Inl (Status Internal (OsErr ''EIO'')))] (s', []) \<and>
     svc_abs s ''x'' = Some (''bob'', True) \<and> svc_abs s' ''x'' = Some (''bob'', False)"
proof -
  let ?E = stuck_dir_env and ?rm = "(''bob'', ReqRemove ''x'', Inl (Status Internal (OsErr ''EIO''))) :: answered"
  obtain j w where c: "createJob ?E ''ls'' [''-l''] no_limits root_ids empty_world = (Inr j, w)"
    using stuck_dir_createJob by blast
  note J = createJob_result[OF c]
  have i: "ID j = ''x''" using J by (simp add: stuck_dir_env_def mounts_env_def)
  from demo_conc_start[OF c i] obtain s where
    s: "conc_run ?E demo_config [early_inspect, bob_starts] [early_inspect, bob_starts] (s, [])"
    and f: "store (srv_jobs s) 0 = Some j" "jobs (srv_jobs s) = [(''x'', 0)]" "owners (srv_auth s) = [''x'' \<mapsto> ''bob'']"
    by blast
  let ?j = "setHandler endedHandler j"
  let ?s1 = "s\<lparr>srv_jobs := put_job 0 ?j (sup_world (srv_jobs s)) (srv_jobs s)\<rparr>"
  let ?s2 = "?s1\<lparr>srv_jobs := (srv_jobs ?s1)\<lparr>jobs := []\<rparr>\<rparr>"
  let ?w = "sup_world (srv_jobs s)"
  have al: "acl_allowed (srv_auth s) ''bob'' ''x'' a" for a using f by (simp add: acl_allowed_iff)
  have jd: "jobDir j = path_Join [defaultBasePath, ''x'']" "outLock j = 0"
    using J i by (simp_all add: fresh_job_def)
  obtain w' where rm: "os_do ?E (SRemoveAll (jobDir ?j)) ?w = (Inl (OsErr ''EIO''), w')"
    by (simp add: jd os_do_def os_call_def stuck_dir_env_def mounts_env_def sm_defs Let_def)
  let ?js = "sup_add 0 (put_job 0 ?j w' (srv_jobs ?s2))"
  have cl: "cleanup_or_add ?E 0 (srv_jobs ?s2) = (Ret (Inl (OsErr ''EIO'')), ?js)"
    using rm jd(2) by (simp add: cleanup_or_add_def on_job_Cleanup)
  let ?s3 = "?s2\<lparr>srv_jobs := ?js\<rparr>"
  let ?I = "Checked ''bob'' (ReqInspect ''x'')" and ?R = "Checked ''bob'' (ReqRemove ''x'')" and ?D = "Removing ''bob'' ''x'' 0"
  have 1: "conc_step ?E (s, []) None None (?s1, [])"
    using J by (intro conc_step.goroutine[OF f(1)]) (simp add: lives_def follows_def fresh_job_def)
  have 2: "conc_step ?E (?s1, []) None None (?s1, [?R])"
    by (rule conc_step.check[where i = "''x''"]) (simp_all add: al)
  have 3: "conc_step ?E (?s1, [?R]) None None (?s1, [?I, ?R])"
    by (rule conc_step.check[where i = "''x''"]) (simp_all add: al)
  have 4: "conc_step ?E (?s1, [?I, ?R]) (Some (''bob'', ReqRemove ''x'', Inr RespRemove)) None (?s2, [?D, ?I])"
    using conc_step.unlink[of "''bob''" "''x''" "[?I, ?R]" ?s1 0 "srv_jobs ?s2" "(''bob'', ReqRemove ''x'', Inr RespRemove)" ?E]
    by (simp add: Remove_unlink_def with_ref_def f)
  have 5: "conc_step ?E (?s2, [?D, ?I]) (Some early_inspect) (Some early_inspect) (?s2, [?D])"
    using conc_step.act[of "''bob''" "ReqInspect ''x''" "[?D, ?I]" "''x''" ?E ?s2 "Inl ErrNotFound" "srv_jobs ?s2"]
    by (simp add: sup_Inspect_def with_ref_def early_inspect_def to_status_def)
  have 6: "conc_step ?E (?s2, [?D]) None (Some ?rm) (?s3, [])"
    using conc_step.clean_err[of "''bob''" "''x''" 0 "[?D]" ?E ?s2 "OsErr ''EIO''" ?js ?rm] cl
    by (simp add: to_status_def)
  from conc_path.step[OF conc_path.step[OF conc_path.step[OF conc_path.step[OF conc_path.step[OF
      conc_path.step[OF conc_path.here 1] 2] 3] 4] 5] 6]
  have p: "\<exists>es'. conc_path ?E (s, []) es' [(''bob'', ReqInspect ''x'', Inl job_not_found), ?rm] (?s3, [])"
    by (auto simp: early_inspect_def)
  have ab: "svc_abs s ''x'' = Some (''bob'', True)"
    using f J by (simp add: svc_abs_def sup_entry_def fresh_job_def)
  have ab3: "svc_abs ?s3 ''x'' = Some (''bob'', False)"
    using f i by (simp add: svc_abs_def sup_entry_def sup_add_def job_at_def)
  from s p ab ab3 show ?thesis by blast
qed

text \<open>
  C35. With a fault the calls are not linearizable. A removal takes the job out of the map before
  it knows that its directory can be deleted, and puts it back when that fails. In between the
  owner is told that there is no such job; afterwards the removal reports its failure and the
  job is there again. No order of these answers is one the specification could give.
\<close>

theorem failed_removal_hides_job:
  "\<exists>E s es as s' es'. conc_run E demo_config es as (s, []) \<and>
     conc_path E (s, []) es' [(''bob'', ReqInspect ''x'', Inl job_not_found),
       (''bob'', ReqRemove ''x'', Inl (Status Internal (OsErr ''EIO'')))] (s', []) \<and>
     svc_abs s' ''x'' = Some (''bob'', False) \<and>
     (\<nexists>h B. mset h = {#(''bob'', ReqInspect ''x'', Inl job_not_found),
        (''bob'', ReqRemove ''x'', Inl (Status Internal (OsErr ''EIO'')))#} \<and>
        svc_history demo_config (svc_abs s) h B)"
proof -
  let ?as = "[(''bob'', ReqInspect ''x'', Inl job_not_found),
    (''bob'', ReqRemove ''x'', Inl (Status Internal (OsErr ''EIO'')))] :: answered list"
  obtain s s' es as es' where run: "conc_run stuck_dir_env demo_config es as (s, [])"
      "conc_path stuck_dir_env (s, []) es' ?as (s', [])" "svc_abs s' ''x'' = Some (''bob'', False)"
    and ab: "svc_abs s ''x'' = Some (''bob'', True)"
    using failed_removal_run by blast
  have "False" if h: "mset h = mset ?as" "svc_history demo_config (svc_abs s) h B" for h B
  proof -
    have set: "set h = set ?as" using arg_cong[OF h(1), of set_mset] by simp
    from history_keeps_owner[OF h(2) ab] set show False by auto
  qed
  then have "\<nexists>h B. mset h = mset ?as \<and> svc_history demo_config (svc_abs s) h B" by blast
  with run show ?thesis by auto
qed

end
