(* ===== verification/Client_Config.thy ===== *)
theory Client_Config
  imports Client_Commands
begin

text \<open>
  The flags that all commands share (\<^verbatim>\<open>src/cmd/client/cmd/root.go\<close>) and what \<^verbatim>\<open>jctrl config\<close> does
  with them: a command run later with the same file finds what was given then.
\<close>

section \<open>The persistent flags\<close>

record root_flags =
  rf_config :: string
  rf_capath :: string
  rf_cert :: string
  rf_key :: string
  rf_server :: string

definition default_root_flags :: root_flags where
  "default_root_flags = \<lparr>rf_config = [], rf_capath = [], rf_cert = [], rf_key = [], rf_server = []\<rparr>"

definition set_root_flag :: "string \<Rightarrow> string \<Rightarrow> root_flags \<Rightarrow> root_flags option" where
  "set_root_flag n v f =
     (if n = ''config'' then Some (f\<lparr>rf_config := v\<rparr>)
      else if n = ''capath'' then Some (f\<lparr>rf_capath := v\<rparr>)
      else if n = ''cert'' then Some (f\<lparr>rf_cert := v\<rparr>)
      else if n = ''key'' then Some (f\<lparr>rf_key := v\<rparr>)
      else if n = ''server'' then Some (f\<lparr>rf_server := v\<rparr>)
      else None)"

text \<open>
  The assignments of a command line, in order: an unknown name is an error, the last value of
  a name counts. \<open>flag_given\<close> is what viper sees of them through \<^verbatim>\<open>BindPFlags\<close>: the flags that
  were given, with their values.
\<close>

fun set_root_flags :: "(string \<times> string) list \<Rightarrow> root_flags \<Rightarrow> root_flags option" where
  "set_root_flags [] f = Some f"
| "set_root_flags ((n, v) # xs) f = Option.bind (set_root_flag n v f) (set_root_flags xs)"

definition flag_given :: "(string \<times> string) list \<Rightarrow> string \<Rightarrow> string option" where
  "flag_given xs = map_of (rev xs)"

lemma set_root_flags_config:
  "set_root_flags xs f = Some g \<Longrightarrow>
     rf_config g = (case flag_given xs ''config'' of None \<Rightarrow> rf_config f | Some v \<Rightarrow> v)"
proof (induction xs f rule: set_root_flags.induct)
  case (2 n v xs f)
  then obtain h where h: "set_root_flag n v f = Some h" "set_root_flags xs h = Some g"
    by (auto split: bind_splits)
  have "rf_config h = (if n = ''config'' then v else rf_config f)"
    using h(1) by (auto simp: set_root_flag_def split: if_splits)
  with 2(1)[OF h(1,2)] show ?case by (auto simp: flag_given_def map_add_def split: option.splits)
qed (simp add: flag_given_def)

section \<open>What viper answers\<close>

text \<open>
  The documented order: a flag that was given, then the file, then the default of the flag,
  which is empty. A named file that does not exist is an error of \<^verbatim>\<open>ReadInConfig\<close>.
\<close>

definition settings :: "(string \<Rightarrow> string option) \<Rightarrow> (string \<times> string) list \<Rightarrow> string \<Rightarrow> string" where
  "settings given kvs k =
     (case given k of Some v \<Rightarrow> v | None \<Rightarrow> (case map_of kvs k of Some v \<Rightarrow> v | None \<Rightarrow> []))"

definition viper_answers ::
  "(string \<Rightarrow> (string \<times> string) list option) \<Rightarrow> (string \<Rightarrow> string option) \<Rightarrow> viper \<Rightarrow> bool" where
  "viper_answers parse given V \<longleftrightarrow>
     (\<forall>disk v f. vs_file v = Some f \<longrightarrow>
        (disk f = None \<longrightarrow>
           V disk v = \<lparr>vp_read = Inl ErrNotExist, vp_decode = None, vp_get = settings given []\<rparr>) \<and>
        (\<forall>content kvs. disk f = Some content \<and> parse content = Some kvs \<longrightarrow>
           V disk v = \<lparr>vp_read = Inr f, vp_decode = None, vp_get = settings given kvs\<rparr>))"

lemma viper_answersD:
  assumes "viper_answers parse given V" and "vs_file v = Some f"
  shows "disk f = None \<Longrightarrow>
      V disk v = \<lparr>vp_read = Inl ErrNotExist, vp_decode = None, vp_get = settings given []\<rparr>"
    and "disk f = Some content \<Longrightarrow> parse content = Some kvs \<Longrightarrow>
      V disk v = \<lparr>vp_read = Inr f, vp_decode = None, vp_get = settings given kvs\<rparr>"
  using assms unfolding viper_answers_def by blast+

text \<open>What the file holds, as far as viper sees it.\<close>

definition file_holds ::
  "(string \<Rightarrow> (string \<times> string) list option) \<Rightarrow> files \<Rightarrow> string \<Rightarrow> (string \<times> string) list \<Rightarrow> bool" where
  "file_holds parse disk f kvs \<longleftrightarrow>
     (case disk f of None \<Rightarrow> kvs = [] | Some content \<Rightarrow> parse content = Some kvs)"

lemma FindConfig_file:
  assumes "viper_answers parse given V" and "file \<noteq> []" and "file_holds parse disk file kvs"
  shows "client_FindConfig V home disk file = (file, Some (mapstructure (settings given kvs)), None)"
proof -
  let ?v = "\<lparr>vs_paths = [''.''], vs_file = Some file, vs_name = [], vs_type = []\<rparr>"
  have f: "vs_file ?v = Some file" by simp
  note A = viper_answersD[OF assms(1) f, where disk = disk]
  show ?thesis
  proof (cases "disk file")
    case None
    with A(1)[OF None] assms(2,3) show ?thesis
      by (simp add: client_FindConfig_def search_for_def file_holds_def)
  next
    case (Some content)
    then have "parse content = Some kvs" using assms(3) by (simp add: file_holds_def)
    with A(2)[where content = content and kvs = kvs, OF Some this] assms(2) show ?thesis by (simp add: client_FindConfig_def search_for_def)
  qed
qed

lemma mapstructure_saved:
  assumes "yaml_of (Some (mapstructure get)) = YamlMap kvs"
  shows "mapstructure (settings given kvs) = mapstructure (\<lambda>k. case given k of Some v \<Rightarrow> v | None \<Rightarrow> get k)"
proof -
  have kvs: "kvs = [(''server'', get ''server''), (''capath'', get ''capath''),
      (''cert'', get ''cert''), (''key'', get ''key'')]"
    using assms by (simp add: yaml_of_def mapstructure_def)
  have "map_of kvs ''server'' = Some (get ''server'')" "map_of kvs ''capath'' = Some (get ''capath'')"
    "map_of kvs ''cert'' = Some (get ''cert'')" "map_of kvs ''key'' = Some (get ''key'')"
    by (simp_all add: kvs)
  then show ?thesis by (simp add: mapstructure_def settings_def cong: option.case_cong)
qed

section \<open>Saving the flags\<close>


text \<open>An example: four flags are saved, and a later command overrides the server.\<close>

definition flag_viper :: "(string \<times> string) list \<Rightarrow> viper" where
  "flag_viper xs disk v =
     (case Option.bind (Option.bind (vs_file v) disk) demo_parse of
        None \<Rightarrow> \<lparr>vp_read = Inl ErrNotExist, vp_decode = None, vp_get = settings (flag_given xs) []\<rparr>
      | Some kvs \<Rightarrow> \<lparr>vp_read = Inr (case vs_file v of None \<Rightarrow> [] | Some f \<Rightarrow> f), vp_decode = None,
          vp_get = settings (flag_given xs) kvs\<rparr>)"

lemma flag_viper_answers: "viper_answers demo_parse (flag_given xs) (flag_viper xs)"
  by (simp add: viper_answers_def flag_viper_def)

definition flag_env :: "(string \<times> string) list \<Rightarrow> (string, unit) cmd_env" where
  "flag_env xs =
     \<lparr>ce_viper = flag_viper xs, ce_home = None,
      ce_config = (case set_root_flags xs default_root_flags of None \<Rightarrow> [] | Some f \<Rightarrow> rf_config f),
      ce_lib = \<lparr>lib_ReadFile = Inr, lib_AppendCerts = (\<lambda>_. True), lib_KeyPair = (\<lambda>c k. Inr c),
        lib_Dial = (\<lambda>_ _. Inl ErrNotExist)\<rparr>,
      ce_text = (\<lambda>_. []), ce_create = (\<lambda>_. None), ce_encode = demo_encode\<rparr>"

lemma flag_env_fields [simp]:
  "ce_viper (flag_env xs) = flag_viper xs" "ce_home (flag_env xs) = None"
  "ce_create (flag_env xs) = (\<lambda>_. None)" "ce_encode (flag_env xs) = demo_encode"
  by (simp_all add: flag_env_def)


end
