(* ===== verification/Test_Program.thy ===== *)
theory Test_Program
  imports Job_Execution
begin

text \<open>
  The manual test program, \<^verbatim>\<open>src/cmd/test/main.go\<close>: it starts one job with fixed options, prints
  its output and is, like the server, its own shim. Its shim is an earlier copy of
  \<^verbatim>\<open>src/pkg/server/shim/shim.go\<close> with two differences.
\<close>

section \<open>Flags\<close>

record test_flags =
  tf_mode :: string
  tf_cmd :: string
  tf_cgroup :: string
  tf_uid :: int
  tf_gid :: int

definition default_test_flags :: test_flags where
  "default_test_flags = \<lparr>tf_mode = [], tf_cmd = [], tf_cgroup = [], tf_uid = 0, tf_gid = 0\<rparr>"

definition set_test_flag :: "string \<Rightarrow> string \<Rightarrow> test_flags \<Rightarrow> test_flags option" where
  "set_test_flag n v f =
     (if n = ''mode'' then Some (f\<lparr>tf_mode := v\<rparr>)
      else if n = ''cmd'' then Some (f\<lparr>tf_cmd := v\<rparr>)
      else if n = ''cgroup'' then Some (f\<lparr>tf_cgroup := v\<rparr>)
      else if n = ''uid'' then map_option (\<lambda>i. f\<lparr>tf_uid := i\<rparr>) (parse_int0 v)
      else if n = ''gid'' then map_option (\<lambda>i. f\<lparr>tf_gid := i\<rparr>) (parse_int0 v)
      else None)"

datatype test_mode =
    TestNotRoot
  | TestBadFlags
  | TestParent "string list"
  | TestShim string "string list" string int int

definition test_start :: "int \<Rightarrow> string list \<Rightarrow> test_mode" where
  "test_start ruid args =
     (if ruid \<noteq> 0 then TestNotRoot
      else case parse_flags set_test_flag args default_test_flags of
        None \<Rightarrow> TestBadFlags
      | Some (f, rest) \<Rightarrow>
          if tf_mode f \<noteq> ''shim'' then TestParent rest
          else TestShim (tf_cmd f) rest (tf_cgroup f) (tf_uid f) (tf_gid f))"

section \<open>The parent\<close>

definition test_options :: "job_option list" where
  "test_options = [opt_Shim ''/proc/self/exe'', opt_UID 1000, opt_GID 1000, opt_Mem 31111111]"

text \<open>
  Up to the loop: the first argument is indexed without a test, every error is a panic, and
  two readers of the output are opened.
\<close>

definition test_parent ::
  "os_env \<Rightarrow> string list \<Rightarrow> world \<Rightarrow> (string \<times> output_reader \<times> output_reader \<times> job) outcome \<times> world" where
  "test_parent E args w =
     (case args of
        [] \<Rightarrow> (Panic ''index out of range'', w)
      | c # as \<Rightarrow>
          (case job_New E c as test_options w of
             (Inl e, w1) \<Rightarrow> (Panic (error_text e), w1)
           | (Inr j, w1) \<Rightarrow>
               (case job_Logs E (j, w1) of
                  (Inl e, s) \<Rightarrow> (Panic (error_text e), snd s)
                | (Inr r, s1) \<Rightarrow>
                    (case job_Logs E s1 of
                       (Inl e, s) \<Rightarrow> (Panic (error_text e), snd s)
                     | (Inr r2, (j2, w2)) \<Rightarrow>
                         (Ret (''Started job #'' @ ID j @ [newline], r, r2, j2), w2)))))"

text \<open>
  The loop, against what it observes in each iteration: the read, whose error is dropped, and,
  if it brought nothing, whether the job is completed. The Boolean says that the loop was left.
\<close>

fun test_loop :: "output_reader \<Rightarrow> (read_obs \<times> bool) list \<Rightarrow> bool \<times> string \<times> output_reader" where
  "test_loop r [] = (False, [], r)"
| "test_loop r ((ob, completed) # obs) =
     (case reader_Read r 64 ob of ((data, err), r') \<Rightarrow>
        if data = []
        then (if \<not> completed then test_loop r' obs else (True, [], r'))
        else (case test_loop r' obs of (left, out, r'') \<Rightarrow> (left, data @ out, r'')))"

section \<open>The shim\<close>

definition running_text :: "os_env \<Rightarrow> string \<Rightarrow> string list \<Rightarrow> int \<Rightarrow> int \<Rightarrow> string" where
  "running_text E command args uid gid =
     ''Running {'' @ command @ '' ['' @ strings_Join args '' '' @ '']} with PID='' @ int_dec (os_pid E) @
     '' (uid:'' @ int_dec uid @ ''; gid:'' @ int_dec gid @ '')'' @ [newline]"

text \<open>
  Like \<open>shim_Main\<close>, but it does not look at its own name, and it closes the pipe after
  \<^verbatim>\<open>prctl\<close>, so that it can report that \<^verbatim>\<open>prctl\<close> failed. What it prints goes to its standard
  output, that is to the output of the job.
\<close>

definition test_shim ::
  "os_env \<Rightarrow> string \<Rightarrow> string list \<Rightarrow> string \<Rightarrow> int \<Rightarrow> int \<Rightarrow> world \<Rightarrow> string \<times> shim_start \<times> world" where
  "test_shim E command args cgroup uid gid w =
     (running_text E command args uid gid,
      case SetupProc E cgroup \<lparr>UID = uid, GID = gid\<rparr> w of
        (Inl e, w1) \<Rightarrow>
          let w2 = snd (os_do E (SWritePipe (''failed to setup the process: '' @ error_text e)) w1);
              w3 = snd (os_do E (SClose fd3) w2)
          in (ShimExit 1, w3)
      | (Inr _, w1) \<Rightarrow>
          (case os_do E SPrctl w1 of
             (Inl e, w2) \<Rightarrow> (ShimExit 1, snd (os_do E (SWritePipe ''failed to setup the process'') w2))
           | (Inr _, w2) \<Rightarrow> (ShimRun command args, snd (os_do E (SClose fd3) w2))))"

fun test_waitForOrphans :: "bool list \<Rightarrow> bool" where
  "test_waitForOrphans [] \<longleftrightarrow> False"
| "test_waitForOrphans (reaped # obs) \<longleftrightarrow> (if reaped then test_waitForOrphans obs else True)"

fun test_shim_loop :: "os_env \<Rightarrow> bool \<Rightarrow> bool list \<Rightarrow> shim_event list \<Rightarrow> world \<Rightarrow> shim_end \<times> world" where
  "test_shim_loop E started orphans [] w = (ShimWaits, w)"
| "test_shim_loop E started orphans (CmdDone c # evs) w =
     (if test_waitForOrphans orphans then (ShimExited ((if started then c else - 1) mod 256), w)
      else (ShimWaits, w))"
| "test_shim_loop E started orphans (ParentHup # evs) w = (ShimExited 1, w)"
| "test_shim_loop E started orphans (TermSig # evs) w =
     (if started then test_shim_loop E started orphans evs (snd (os_do E (SSignal SIGTERM) w))
      else (ShimPanic, w))"

section \<open>The program runs its command\<close>

definition test_limits :: exec_limits where
  "test_limits = no_limits\<lparr>MaxRAMBytes := 31111111\<rparr>"

lemma test_New_createJob:
  "job_New E c as test_options w = createJob E c as test_limits \<lparr>UID = 1000, GID = 1000\<rparr> w"
  by (simp add: job_New_def createJob_def test_options_def apply_options_def option_defs new_job_def
      test_limits_def no_limits_def defaultShimPath_def Let_def)

lemma test_args_roundtrip:
  assumes "int64 (UID (ids j))" and "int64 (GID (ids j))"
  shows "test_start 0 (cmdArgs j) =
    TestShim (Command j) (job_Args j) (cgroupInner j) (UID (ids j)) (GID (ids j))"
proof -
  have mode: "classify ''--mode=shim'' = FlagArg ''mode'' (Some ''shim'')"
    using classify_args(1)[of "''shim''"] by simp
  show ?thesis
    using assms classify_args[unfolded append.simps]
    by (simp add: test_start_def cmdArgs_def mode set_test_flag_def default_test_flags_def parse_int0_int_dec)
qed

lemma test_parent_ret:
  assumes "test_parent E (c # as) w = (Ret (t, r, r2, j), w')"
  shows "t = ''Started job #'' @ ID j @ [newline] \<and> job_handler j = activeHandler \<and> outLock j = 2 \<and>
    limits j = test_limits \<and> rd_pos r = 0 \<and> cmd_Args (job_cmd j) = ''/proc/self/exe'' # cmdArgs j \<and>
    test_start 0 (cmdArgs j) = TestShim c as (cgroupInner j) 1000 1000"
proof -
  obtain j0 w1 j1 w2 where c0: "createJob E c as test_limits \<lparr>UID = 1000, GID = 1000\<rparr> w = (Inr j0, w1)"
    and l: "job_Logs E (j0, w1) = (Inr r, (j1, w2))" "job_Logs E (j1, w2) = (Inr r2, (j, w'))"
    and t: "t = ''Started job #'' @ ID j0 @ [newline]"
    using assms by (auto simp: test_parent_def test_New_createJob split: prod.splits sum.splits)
  note J = createJob_result[OF c0]
  have "outLock j0 = 0" using J by (simp add: fresh_job_def)
  moreover have j1: "j1 = j0\<lparr>outLock := outLock j0 + 1, logReaders := logReaders j0 + 1\<rparr>"
    using job_Logs_result[OF l(1)] by simp
  moreover have j: "j = j1\<lparr>outLock := outLock j1 + 1, logReaders := logReaders j1 + 1\<rparr>"
    using job_Logs_result[OF l(2)] by simp
  ultimately have lock: "outLock j = 2" by simp
  have same: "ID j = ID j0" "limits j = limits j0" "job_handler j = job_handler j0" "job_cmd j = job_cmd j0"
    "cgroupInner j = cgroupInner j0" "cmdArgs j = cmdArgs j0"
    by (simp_all add: j j1 cmdArgs_def)
  have rd: "rd_pos r = 0" using l(1) by (auto simp: job_Logs_eq split: if_splits prod.splits sum.splits)
  have "test_start 0 (cmdArgs j0) = TestShim c as (cgroupInner j0) 1000 1000"
    using test_args_roundtrip[of j0] J by (simp add: int64_def)
  with J have "job_handler j0 = activeHandler" "limits j0 = test_limits"
      "cmd_Args (job_cmd j0) = ''/proc/self/exe'' # cmdArgs j0" and
      "test_start 0 (cmdArgs j0) = TestShim c as (cgroupInner j0) 1000 1000"
    by (auto simp: fresh_job_def defaultShimPath_def)
  then show ?thesis by (simp add: same t rd lock)
qed

lemma test_shim_runs:
  "snd (test_shim E c as cg uid gid v) = (ShimRun d bs, v') \<Longrightarrow> d = c \<and> bs = as"
  by (auto simp: test_shim_def Let_def split: prod.splits sum.splits)


definition test_outcome :: "(string \<times> output_reader \<times> output_reader \<times> job) outcome \<times> world" where
  "test_outcome = test_parent (mounts_env [] []) [''ls'', ''-l''] empty_world"

lemma test_outcome_loops: "case fst test_outcome of Ret q \<Rightarrow> outLock (snd (snd (snd q))) = 2 | _ \<Rightarrow> False"
  by code_simp


section \<open>The loop\<close>

text \<open>
  What is printed is a prefix of the output. If the file no longer changes and no read
  fails, leaving the loop means that all of it was printed, and the loop is left once the
  job is completed and every byte could have been read.
\<close>

lemma test_loop_prefix:
  assumes "\<forall>p\<in>set obs. prefix (ob_content (fst p)) F" and "test_loop r obs = (left, out, r')"
  shows "prefix out (drop (rd_pos r) F)"
  using assms
proof (induction obs arbitrary: r out left r')
  case (Cons p obs)
  obtain ob completed where p: "p = (ob, completed)" by (cases p)
  obtain data err r1 where rd: "reader_Read r 64 ob = ((data, err), r1)" by (metis prod.exhaust)
  obtain left2 out2 r2 where rest: "test_loop r1 obs = (left2, out2, r2)" by (metis prod.exhaust)
  have one: "data = take (length data) (drop (rd_pos r) F)" "rd_pos r1 = rd_pos r + length data"
    using reader_Read_prefix[OF rd] Cons.prems(1) p by auto
  have "prefix out2 (drop (rd_pos r1) F)" using Cons.IH[OF _ rest] Cons.prems(1) by simp
  then have "prefix (data @ out2) (data @ drop (length data) (drop (rd_pos r) F))"
    by (simp add: one(2) add.commute)
  also have "data @ drop (length data) (drop (rd_pos r) F) = drop (rd_pos r) F"
    by (metis one(1) append_take_drop_id)
  finally show ?case
    using Cons.prems(2) p rd rest \<open>prefix out2 _\<close> one(2) by (auto split: if_splits)
qed simp

lemma test_loop_complete:
  assumes "\<forall>p\<in>set obs. ob_content (fst p) = F \<and> ob_fault (fst p) = None" and "rd_pos r \<le> length F"
    and "test_loop r obs = (True, out, r')"
  shows "out = drop (rd_pos r) F"
  using assms
proof (induction obs arbitrary: r out)
  case (Cons p obs)
  obtain ob completed where p: "p = (ob, completed)" by (cases p)
  obtain data err r1 where rd: "reader_Read r 64 ob = ((data, err), r1)" by (metis prod.exhaust)
  have ob: "ob_content ob = F" "ob_fault ob = None" using Cons.prems(1) p by auto
  have one: "data = take (length data) (drop (rd_pos r) F)" "rd_pos r1 = rd_pos r + length data"
    "data \<noteq> [] \<Longrightarrow> rd_pos r1 \<le> length F"
    using reader_Read_prefix[OF rd, of F] ob by auto
  have le: "rd_pos r1 \<le> length F" using one(2,3) Cons.prems(2) by (cases "data = []") auto
  show ?case
  proof (cases "data = []")
    case True
    with reader_Read_end[OF rd ob(2)] ob(1) have "length F \<le> rd_pos r" "r1 = r" by auto
    with True p rd Cons.prems Cons.IH[OF _ Cons.prems(2)] show ?thesis by (auto split: if_splits)
  next
    case False
    then obtain out2 where out: "out = data @ out2" "test_loop r1 obs = (True, out2, r')"
      using Cons.prems(3) p rd by (auto split: prod.splits)
    have "out2 = drop (rd_pos r1) F" using Cons.IH[OF _ le out(2)] Cons.prems(1) by simp
    then have "out2 = drop (length data) (drop (rd_pos r) F)" by (simp add: one(2) add.commute)
    with out(1) one(1) show ?thesis by (metis append_take_drop_id)
  qed
qed simp

lemma test_loop_ends:
  assumes "\<forall>p\<in>set obs. prefix (ob_content (fst p)) F \<and> snd p" and "length F - rd_pos r < length obs"
  shows "fst (test_loop r obs)"
  using assms
proof (induction obs arbitrary: r)
  case (Cons p obs)
  obtain ob where p: "p = (ob, True)" using Cons.prems(1) by (cases p) auto
  obtain data err r1 where rd: "reader_Read r 64 ob = ((data, err), r1)" by (metis prod.exhaust)
  show ?case
  proof (cases "data = []")
    case False
    have pre: "prefix (ob_content ob) F" using Cons.prems(1) p by simp
    from reader_Read_prefix[OF rd pre] False prefix_length_le[OF pre]
    have "rd_pos r < rd_pos r1" "rd_pos r1 \<le> length F" by auto
    then have "length F - rd_pos r1 < length obs" using Cons.prems(2) by auto
    then have "fst (test_loop r1 obs)" using Cons.IH Cons.prems(1) by simp
    with False p rd show ?thesis by (cases "test_loop r1 obs") simp
  qed (use p rd in simp)
qed simp

section \<open>The two shims\<close>

lemma test_waitForOrphans_same: "test_waitForOrphans obs = waitForOrphans obs"
  by (induction obs) auto

lemma test_shim_loop_same: "test_shim_loop E started orphans evs w = shim_loop E started orphans evs w"
  by (induction E started orphans evs w rule: test_shim_loop.induct) (simp_all add: test_waitForOrphans_same)

lemma prctl_result:
  "fst (os_do E SPrctl w) = (case os_fault E (trace w) SPrctl of None \<Rightarrow> Inr () | Some q \<Rightarrow> Inl (OsErr (fst q)))"
  by (simp add: os_do_fst os_call_def sm_ret_def Let_def split: option.splits prod.splits)



end
