(* ===== verification/Spec2Isabelle.thy ===== *)
theory Spec2Isabelle
  imports Job_Execution Client_Spec Cpu_Quota Shutdown_Liveness Stream_Liveness Server_Exit Linearizability
    Client_Config Test_Program
begin

text \<open>
  A model of a job server written in Go, and the properties that make it correct.

  The program. A server process (\<^verbatim>\<open>src/cmd/server/main.go\<close>) offers a gRPC service
  (\<^verbatim>\<open>src/pkg/server/server.go\<close>) to start, stop, inspect and remove jobs and to stream their
  output. It identifies the client by its certificate, asks the access control
  (\<^verbatim>\<open>src/pkg/acl/acl.go\<close>), and calls the supervisor (\<^verbatim>\<open>src/pkg/supervisor/supervisor.go\<close>),
  which keeps the map from identifiers to jobs. A job (\<^verbatim>\<open>src/pkg/job\<close>) is a directory, a
  control group and a process in its own namespaces. The process is the server binary
  itself in shim mode (\<^verbatim>\<open>src/pkg/server/shim/shim.go\<close>): it joins the control group, gives up
  its privileges and runs the command. A job has five states, each with its own handler
  object; timers, log readers and a goroutine that waits for the process act on it. The
  command line client (\<^verbatim>\<open>src/cmd/client\<close>, \<^verbatim>\<open>src/pkg/client\<close>) finds its configuration,
  connects with mutual TLS and prints what the service answers.

  The theories, in the order in which they build on each other.

  \<^item> \<open>Prelude\<close>: Go errors as values, outcomes (return, panic, wait), a state-and-error monad
    with rules for preservation proofs (collection \<open>pres\<close>), association lists.
  \<^item> \<open>Go_Strings\<close>, \<open>Go_Path\<close>, \<open>Go_Float32\<close>, \<open>Go_Flag\<close>: what the program uses of the standard
    library: trimming, fields, line scanning, decimal integers and \<^verbatim>\<open>strconv.Atoi\<close>,
    \<^verbatim>\<open>filepath.Join\<close>, \<^verbatim>\<open>float32\<close> multiplication and \<^verbatim>\<open>%.4f\<close>, the command line parser of \<^verbatim>\<open>flag\<close>.
  \<^item> \<open>Os_World\<close>: the operating system: a file system, the trace of system calls, and an
    environment \<open>os_env\<close>, a parameter of every operation, that decides from the trace which
    call fails, how much of a failed call was done, what is read, and the identifiers of the
    package \<^verbatim>\<open>xid\<close>.
  \<^item> \<open>Job_Data\<close>, \<open>Cgroup\<close>, \<open>Job\<close>: the job record and its options (\<^verbatim>\<open>option.go\<close>,
    \<^verbatim>\<open>status.go\<close>), control groups and process set-up (\<^verbatim>\<open>cgroup.go\<close>, \<^verbatim>\<open>namespace.go\<close>), creation
    (\<^verbatim>\<open>New\<close> of \<^verbatim>\<open>job.go\<close> with its deferred clean-up).
  \<^item> \<open>Job_States\<close>: the five handlers (\<^verbatim>\<open>state_*.go\<close>) as method tables behind the interface
    \<open>handler_methods\<close>, and the methods of \<^verbatim>\<open>job.go\<close> that dispatch to them. The locale
    \<open>state_handler\<close> states what a method may rely on and is interpreted on each handler.
  \<^item> \<open>Job_Concurrency\<close>, \<open>Job_Liveness\<close>: a job in its environment as a step relation \<open>jstep\<close>.
    The invariant \<open>jinv\<close> gives the safety properties (no panic, forward life cycle, exit
    codes, no reader after removal); the abstract life cycle is refined by it; and there
    are the situations in which something waits for ever.
  \<^item> \<open>Fair_Runs\<close>, \<open>Job_Termination\<close>: infinite runs, weak fairness, and the locale
    \<open>ranked_progress\<close>, an argument by a decreasing rank. It is interpreted on a job that is
    ending and on its readers: under fairness a stopped job ends, \<^verbatim>\<open>Wait\<close> returns, and a
    clean-up does not wait once nobody opens new readers. \<open>Stream_Liveness\<close> puts the loop of
    \<^verbatim>\<open>Logs\<close> beside such a run: it ends too, which is why readers may be taken to end.
    \<open>Shutdown_Liveness\<close> runs all jobs of the supervisor side by side: \<^verbatim>\<open>StopSupervisor\<close> returns.
  \<^item> \<open>Job_New\<close>, \<open>Cgroup_Facts\<close>: what a creation guarantees when it succeeds and what it
    leaves behind when it fails; that the limits are written.
  \<^item> \<open>Rpc\<close>, \<open>Log_Stream\<close>: messages and statuses; the reader of the output (\<^verbatim>\<open>logreader.go\<close>)
    and the streaming loop of \<^verbatim>\<open>Logs\<close>: what is sent is a prefix of the output, complete when
    the stream ends without an error, and the loop ends.
  \<^item> \<open>Acl\<close>: the access control, with the interface \<open>access_policy\<close>.
  \<^item> \<open>Supervisor\<close>, \<open>Supervisor_Steps\<close>, \<open>Supervisor_Facts\<close>: the supervisor over a store of
    jobs addressed by references, its critical sections under interleaving (\<open>sup_step\<close>), and
    what each operation does on each branch. The interface of the server is the locale
    \<open>job_registry\<close>, interpreted on the supervisor.
  \<^item> \<open>Server\<close>, \<open>Server_Facts\<close>, \<open>Server_Main\<close>: the methods of the service, the interceptors, and
    the guarantees to clients.
  \<^item> \<open>Service_Spec\<close>: what the service promises as a step relation on a map from identifiers to
    owner and activity; every request is a step of it. The types of the answers.
  \<^item> \<open>Service_Concurrency\<close>, \<open>Linearizability\<close>: the methods taken apart into the critical sections
    of access control and supervisor, any number of calls interleaved (\<open>conc_step\<close>). The
    service is linearizable with respect to \<open>Service_Spec\<close> as long as no clean-up fails, a call
    that nothing interrupts is the method of \<open>Server\<close>, and a failing clean-up is where
    linearizability ends.
  \<^item> \<open>Certloader\<close>, \<open>Server_Config\<close>, \<open>Server_Run\<close>: the loader of the certificate
    (\<^verbatim>\<open>src/pkg/certloader/loader.go\<close>), the configuration (\<^verbatim>\<open>src/pkg/server/config.go\<close>), and
    the server process from the configuration to the listener and from the signal to the exit
    (\<open>main_step\<close>), with a call of \<^verbatim>\<open>Start\<close> taken apart into creation and registration.
    \<open>Server_Exit\<close> interprets \<open>ranked_progress\<close> on the server process: after the signal it exits.
  \<^item> \<open>Shim\<close>: the command line of the shim, its preparation and its loop.
  \<^item> \<open>Cpu_Quota\<close>: how exact the CPU limit is that is written, over the reals.
  \<^item> \<open>Client\<close>, \<open>Client_Commands\<close>: the client library and the commands, as functions from a
    session to an exit code, over the interface \<open>JobServiceClient\<close> of the stub. \<open>Client_Config\<close>:
    the flags that all commands share, and how the command \<^verbatim>\<open>config\<close> keeps them in a file.
  \<^item> \<open>Client_Service\<close>, \<open>Job_Execution\<close>: client and server together. The stub \<open>stub\<close> calls the
    methods of the service through the interceptors; the properties go from the command line
    to the job, its process, its output and its exit code, and back to what is printed.
    \<open>Client_Spec\<close> states what the commands rely on as the locale \<open>job_service\<close>, interpreted on
    this stub, and shows that they take steps of the specification of the service.
  \<^item> \<open>Test_Program\<close>: the manual test program \<^verbatim>\<open>src/cmd/test/main.go\<close>, which runs one job with
    fixed options, and its own shim, compared with the one of the server.

  Correspondence. A Go struct is a record, an interface value a datatype of its
  implementations, a map that is iterated an association list with distinct keys, a pointer
  to a job a reference into a store. A method that runs under a mutex is one definition,
  that is one atomic step; a method that waits inside its critical section has the outcome
  \<open>Block\<close>, and in \<open>jstep\<close> the flag \<open>cleaning\<close> stands for the mutex held meanwhile. A call that
  returns an error keeps the changes made before it. Integers are unbounded except where a
  width matters: exit codes are 32-bit words in the answer of \<^verbatim>\<open>Inspect\<close>, \<^verbatim>\<open>strconv\<close> and
  \<^verbatim>\<open>flag\<close> check 64-bit ranges.

  Bounds. The streaming loop takes one observation for each iteration; the list of
  observations is its fuel, and the termination property says how many are enough. The same
  holds of the events of the loop of the shim. All other definitions are total.

  Bounds of numbers. \<open>Cpu_Quota\<close> takes limits below \<open>2 ^ 104\<close> CPUs (\<open>cpu_range\<close>), so that the
  product stays finite; a reload interval of at most 9223372036 seconds fits its 64 bits.

  Parameters. Code that is not in the repository is an argument of the definitions: viper and
  yaml (\<open>viper\<close>, \<open>yaml\<close>), cobra (the parsed command line of \<open>Execute\<close>), \<^verbatim>\<open>crypto/tls\<close>, \<^verbatim>\<open>x509\<close> and
  the dialing of gRPC (\<open>client_lib\<close>, \<open>main_lib\<close>), the text of a gRPC error, the user database.

  Fairness. \<open>Job_Termination\<close> assumes weak fairness of the death of a killed process, of its
  being waited for, of its report, of an armed timer and of the readers; a run is any such
  sequence of steps, with pauses. \<open>Server_Exit\<close> assumes it of pending calls, of \<^verbatim>\<open>GracefulStop\<close>, of
  \<^verbatim>\<open>StopServer\<close>, which \<open>Shutdown_Liveness\<close> shows to return, and of \<^verbatim>\<open>main\<close>.

  Not modelled: logging; the encoding of messages (generated code); the texts that cobra prints.
  The table \<^verbatim>\<open>sysFun\<close> of a job, which the tests of the package replace, is always the default
  \<open>defSysFun\<close>, whose calls are those of \<open>os_env\<close>; the options that change it are functions on it. The order in which Go iterates over a map is unspecified and a
  parameter of \<open>StopSupervisor\<close>. The text of an error with \<^verbatim>\<open>%q\<close> is kept without escapes.
\<close>

end
